(* ===== verification/Prelude.thy ===== *)
theory Prelude
  imports Main "HOL-Library.Word" "HOL-Library.AList" "HOL-Library.Multiset"
begin

text \<open>
  Shared vocabulary of the development. It fixes the machine integer types, the two result types
  (a Rust \<open>Result\<close> is a sum; a computation that can also panic is an \<open>outcome\<close>), the model of
  \<open>std::collections::HashMap\<close> as an association list with distinct keys, big-endian byte
  conversions, and the list and multiset lemmas that the component theories use. The collections
  \<open>outcome_simps\<close> and \<open>hmap_simps\<close> carry the simplification sets of the component proofs.
\<close>

named_theorems outcome_simps
named_theorems hmap_simps

section \<open>Machine integers\<close>

type_synonym byte = "8 word"
type_synonym u16 = "16 word"
type_synonym u32 = "32 word"
type_synonym u64 = "64 word"

section \<open>Results and panics\<close>

text \<open>
  A function of the source that returns \<open>Result<A, E>\<close> and cannot panic has type \<open>'e + 'a\<close>,
  \<open>Inl\<close> being \<open>Err\<close>. Where an \<open>unwrap\<close>, an \<open>expect\<close>, an index out of range or a \<open>todo!\<close> can
  fire, the result is an \<open>outcome\<close>, whose third case carries the panic message.
\<close>

datatype ('e, 'a) outcome = Done 'a | Failed 'e | Panicked string

primrec obind :: "('e, 'a) outcome \<Rightarrow> ('a \<Rightarrow> ('e, 'b) outcome) \<Rightarrow> ('e, 'b) outcome" where
  "obind (Done a) f = f a"
| "obind (Failed e) f = Failed e"
| "obind (Panicked m) f = Panicked m"

primrec omap_err :: "('e \<Rightarrow> 'f) \<Rightarrow> ('e, 'a) outcome \<Rightarrow> ('f, 'a) outcome" where
  "omap_err g (Done a) = Done a"
| "omap_err g (Failed e) = Failed (g e)"
| "omap_err g (Panicked m) = Panicked m"

text \<open>\<open>Option::unwrap\<close> and \<open>Option::expect\<close>.\<close>

definition expect :: "string \<Rightarrow> 'a option \<Rightarrow> ('e, 'a) outcome" where
  "expect m x = (case x of None \<Rightarrow> Panicked m | Some a \<Rightarrow> Done a)"

text \<open>A \<open>Result\<close> of a callee, inside a caller that can panic.\<close>

definition of_sum :: "'e + 'a \<Rightarrow> ('e, 'a) outcome" where
  "of_sum r = (case r of Inl e \<Rightarrow> Failed e | Inr a \<Rightarrow> Done a)"

lemma obind_eq_Done [outcome_simps]:
  "obind m f = Done b \<longleftrightarrow> (\<exists>a. m = Done a \<and> f a = Done b)"
  by (cases m) auto

lemma obind_eq_Failed [outcome_simps]:
  "obind m f = Failed e \<longleftrightarrow> m = Failed e \<or> (\<exists>a. m = Done a \<and> f a = Failed e)"
  by (cases m) auto

lemma obind_eq_Panicked [outcome_simps]:
  "obind m f = Panicked s \<longleftrightarrow> m = Panicked s \<or> (\<exists>a. m = Done a \<and> f a = Panicked s)"
  by (cases m) auto

lemma obind_Done_right [simp]: "obind m Done = m"
  by (cases m) auto

lemma obind_assoc: "obind (obind m f) g = obind m (\<lambda>a. obind (f a) g)"
  by (cases m) auto

lemma omap_err_eq_Done [outcome_simps]: "omap_err g m = Done a \<longleftrightarrow> m = Done a"
  by (cases m) auto

lemma expect_simps [simp]: "expect m None = Panicked m" "expect m (Some a) = Done a"
  by (simp_all add: expect_def)

lemma expect_eq_Done [outcome_simps]: "expect m x = Done a \<longleftrightarrow> x = Some a"
  by (cases x) auto

lemma expect_not_Failed [simp]: "expect m x \<noteq> Failed e"
  by (cases x) auto

lemma of_sum_not_Panicked [simp]: "of_sum r \<noteq> Panicked s"
  by (cases r) (simp_all add: of_sum_def)

lemma of_sum_eq_Failed [outcome_simps]: "of_sum r = Failed e \<longleftrightarrow> r = Inl e"
  by (cases r) (simp_all add: of_sum_def)

lemma of_sum_simps [simp]: "of_sum (Inl e) = Failed e" "of_sum (Inr a) = Done a"
  by (simp_all add: of_sum_def)

lemma of_sum_eq_Done [outcome_simps]: "of_sum r = Done a \<longleftrightarrow> r = Inr a"
  by (cases r) auto

text \<open>\<open>iter.map(f).collect::<Result<Vec<_>, _>>()\<close>: the first failure ends the iteration.\<close>

fun collect_outcome :: "('a \<Rightarrow> ('e, 'b) outcome) \<Rightarrow> 'a list \<Rightarrow> ('e, 'b list) outcome" where
  "collect_outcome f [] = Done []"
| "collect_outcome f (x # xs) =
     obind (f x) (\<lambda>y. obind (collect_outcome f xs) (\<lambda>ys. Done (y # ys)))"

fun collect_result :: "('a \<Rightarrow> 'e + 'b) \<Rightarrow> 'a list \<Rightarrow> 'e + 'b list" where
  "collect_result f [] = Inr []"
| "collect_result f (x # xs) =
     (case f x of Inl e \<Rightarrow> Inl e
      | Inr y \<Rightarrow> (case collect_result f xs of Inl e \<Rightarrow> Inl e | Inr ys \<Rightarrow> Inr (y # ys)))"

lemma collect_outcome_Done_iff:
  "collect_outcome f xs = Done ys \<longleftrightarrow> list_all2 (\<lambda>x y. f x = Done y) xs ys"
proof (induction xs arbitrary: ys)
  case Nil
  then show ?case by auto
next
  case (Cons x xs)
  then show ?case by (auto simp: outcome_simps list_all2_Cons1)
qed

lemma collect_result_Inr_iff:
  "collect_result f xs = Inr ys \<longleftrightarrow> list_all2 (\<lambda>x y. f x = Inr y) xs ys"
proof (induction xs arbitrary: ys)
  case Nil
  then show ?case by auto
next
  case (Cons x xs)
  show ?case
    by (cases "f x"; cases "collect_result f xs") (auto simp: list_all2_Cons1 Cons.IH [symmetric])
qed

lemma collect_result_length: "collect_result f xs = Inr ys \<Longrightarrow> length ys = length xs"
  by (auto simp: collect_result_Inr_iff list_all2_lengthD)

section \<open>Hash maps\<close>

text \<open>
  \<open>std::collections::HashMap\<close> is an association list with distinct keys; the list order stands for
  the iteration order, which Rust leaves open: a theorem about every such list holds for every
  iteration order.
\<close>

type_synonym ('k, 'v) hmap = "('k \<times> 'v) list"

definition hm_empty :: "('k, 'v) hmap" where
  "hm_empty = []"

definition hm_get :: "('k, 'v) hmap \<Rightarrow> 'k \<Rightarrow> 'v option" where
  "hm_get m k = map_of m k"

definition hm_insert :: "'k \<Rightarrow> 'v \<Rightarrow> ('k, 'v) hmap \<Rightarrow> ('k, 'v) hmap" where
  "hm_insert k v m = AList.update k v m"

definition hm_remove :: "'k \<Rightarrow> ('k, 'v) hmap \<Rightarrow> ('k, 'v) hmap" where
  "hm_remove k m = AList.delete k m"

definition hm_ok :: "('k, 'v) hmap \<Rightarrow> bool" where
  "hm_ok m \<longleftrightarrow> distinct (map fst m)"

locale dictionary =
  fixes empty :: "'m"
    and get :: "'m \<Rightarrow> 'k \<Rightarrow> 'v option"
    and insrt :: "'k \<Rightarrow> 'v \<Rightarrow> 'm \<Rightarrow> 'm"
    and remove :: "'k \<Rightarrow> 'm \<Rightarrow> 'm"
    and entries :: "'m \<Rightarrow> ('k \<times> 'v) multiset"
    and ok :: "'m \<Rightarrow> bool"
  assumes get_empty: "get empty k = None"
    and get_insert: "get (insrt k v m) k' = (if k' = k then Some v else get m k')"
    and get_remove: "get (remove k m) k' = (if k' = k then None else get m k')"
    and entries_empty: "entries empty = {#}"
    and entries_insert_new: "get m k = None \<Longrightarrow> entries (insrt k v m) = add_mset (k, v) (entries m)"
    and entries_remove: "ok m \<Longrightarrow> get m k = Some v \<Longrightarrow> entries m = add_mset (k, v) (entries (remove k m))"
    and entries_insert: "ok m \<Longrightarrow> get m k = Some v \<Longrightarrow>
      entries (insrt k v' m) = add_mset (k, v') (entries (remove k m))"
    and get_None: "get m k = None \<Longrightarrow> remove k m = m"
    and ok_empty: "ok empty"
    and ok_insert: "ok m \<Longrightarrow> ok (insrt k v m)"
    and ok_remove: "ok m \<Longrightarrow> ok (remove k m)"
begin

lemma get_remove_same: "get (remove k m) k = None"
  by (simp add: get_remove)

lemma get_insert_same: "get (insrt k v m) k = Some v"
  by (simp add: get_insert)

text \<open>Any measure summed over the entries follows the two updates.\<close>

lemma sum_entries_remove:
  fixes f :: "'k \<times> 'v \<Rightarrow> 'b::comm_monoid_add"
  assumes "ok m" and "get m k = Some v"
  shows "(\<Sum>e\<in>#entries m. f e) = f (k, v) + (\<Sum>e\<in>#entries (remove k m). f e)"
  using entries_remove [OF assms] by simp

lemma sum_entries_insert_new:
  fixes f :: "'k \<times> 'v \<Rightarrow> 'b::comm_monoid_add"
  assumes "get m k = None"
  shows "(\<Sum>e\<in>#entries (insrt k v m). f e) = f (k, v) + (\<Sum>e\<in>#entries m. f e)"
  using entries_insert_new [OF assms] by simp

lemma sum_entries_insert:
  fixes f :: "'k \<times> 'v \<Rightarrow> 'b::comm_monoid_add"
  assumes "ok m" and "get m k = Some v"
  shows "(\<Sum>e\<in>#entries (insrt k v' m). f e) = f (k, v') + (\<Sum>e\<in>#entries (remove k m). f e)"
  using entries_insert [OF assms] by simp

end

lemma mset_update_new:
  "map_of m k = None \<Longrightarrow> mset (AList.update k v m) = add_mset (k, v) (mset m)"
proof (induction m)
  case Nil
  then show ?case by simp
next
  case (Cons p m)
  then show ?case by (cases p) (auto split: if_splits)
qed

lemma delete_notin: "map_of m k = None \<Longrightarrow> AList.delete k m = m"
  by (simp add: map_of_eq_None_iff)

lemma mset_delete:
  "distinct (map fst m) \<Longrightarrow> map_of m k = Some v \<Longrightarrow> mset m = add_mset (k, v) (mset (AList.delete k m))"
proof (induction m)
  case Nil
  then show ?case by simp
next
  case (Cons p m)
  obtain a b where p: "p = (a, b)" by (cases p)
  show ?case
  proof (cases "a = k")
    case True
    with Cons.prems p have "k \<notin> fst ` set m" and "b = v" by auto
    with p True show ?thesis by simp
  next
    case False
    with Cons.prems p have "mset m = add_mset (k, v) (mset (AList.delete k m))"
      by (intro Cons.IH) auto
    with p False show ?thesis by (simp add: add_mset_commute)
  qed
qed

lemma mset_update_old:
  "distinct (map fst m) \<Longrightarrow> map_of m k = Some v \<Longrightarrow>
   mset (AList.update k v' m) = add_mset (k, v') (mset (AList.delete k m))"
proof (induction m)
  case Nil
  then show ?case by simp
next
  case (Cons p m)
  obtain a b where p: "p = (a, b)" by (cases p)
  show ?case
  proof (cases "a = k")
    case True
    with Cons.prems p have "k \<notin> fst ` set m" by auto
    with p True show ?thesis by simp
  next
    case False
    with Cons.prems p have "mset (AList.update k v' m) = add_mset (k, v') (mset (AList.delete k m))"
      by (intro Cons.IH) auto
    with p False show ?thesis by (simp add: add_mset_commute)
  qed
qed

interpretation hm: dictionary hm_empty hm_get hm_insert hm_remove mset hm_ok
proof unfold_locales
  show "hm_get (hm_insert k v m) k' = (if k' = k then Some v else hm_get m k')" for k v m k'
    by (simp add: hm_get_def hm_insert_def update_conv')
  show "hm_get (hm_remove k m) k' = (if k' = k then None else hm_get m k')" for k m k'
    by (simp add: hm_get_def hm_remove_def delete_conv')
  show "hm_ok m \<Longrightarrow> hm_ok (hm_insert k v m)" for k v and m :: "('a, 'b) hmap"
    by (simp add: hm_ok_def hm_insert_def distinct_update)
  show "hm_ok m \<Longrightarrow> hm_ok (hm_remove k m)" for k and m :: "('a, 'b) hmap"
    by (simp add: hm_ok_def hm_remove_def distinct_delete)
qed (auto simp: hm_empty_def hm_get_def hm_insert_def hm_remove_def hm_ok_def
      mset_update_new mset_delete mset_update_old delete_notin)

declare hm.get_empty [simp] hm.get_insert [simp] hm.get_remove [simp]
declare hm.ok_empty [simp] hm.ok_insert [simp, intro] hm.ok_remove [simp, intro]

lemmas hmap_eval [hmap_simps] = hm_empty_def hm_get_def hm_insert_def hm_remove_def

lemma hm_get_Some_in: "hm_get m k = Some v \<Longrightarrow> (k, v) \<in> set m"
  by (auto simp: hm_get_def dest: map_of_SomeD)

lemma hm_get_in: "hm_ok m \<Longrightarrow> (k, v) \<in> set m \<Longrightarrow> hm_get m k = Some v"
  by (simp add: hm_get_def hm_ok_def)

lemma hm_get_None_iff: "hm_get m k = None \<longleftrightarrow> k \<notin> fst ` set m"
  by (simp add: hm_get_def map_of_eq_None_iff)

lemma set_hm_remove: "set (hm_remove k m) = {e \<in> set m. fst e \<noteq> k}"
  by (auto simp: hm_remove_def AList.delete_eq)

lemma set_hm_insert_subset: "set (hm_insert k v m) \<subseteq> insert (k, v) (set m)"
proof (induction m)
  case Nil
  then show ?case by (simp add: hm_insert_def)
next
  case (Cons p m)
  then show ?case by (cases p) (auto simp: hm_insert_def)
qed

text \<open>\<open>retain\<close>: the entries that satisfy a predicate.\<close>

lemma hm_ok_filter [simp, intro]: "hm_ok m \<Longrightarrow> hm_ok (filter P m)"
  by (simp add: hm_ok_def distinct_map_filter)

lemma hm_get_filter: "hm_ok m \<Longrightarrow> hm_get (filter P m) k =
    (case hm_get m k of None \<Rightarrow> None | Some v \<Rightarrow> if P (k, v) then Some v else None)"
proof (induction m)
  case Nil
  then show ?case by (simp add: hm_get_def)
next
  case (Cons p m)
  then show ?case
    by (cases p) (auto simp: hm_get_def hm_ok_def map_of_eq_None_iff split: option.splits
        dest: map_of_SomeD)
qed

section \<open>Strings and bytes\<close>

text \<open>\<open>str::as_bytes\<close>: a \<open>char\<close> of the model is one byte of the UTF-8 text.\<close>

definition as_bytes :: "string \<Rightarrow> byte list" where
  "as_bytes s = map (\<lambda>c. word_of_nat (of_char c)) s"

lemma as_bytes_append [simp]: "as_bytes (s @ t) = as_bytes s @ as_bytes t"
  by (simp add: as_bytes_def)

lemma length_as_bytes [simp]: "length (as_bytes s) = length s"
  by (simp add: as_bytes_def)

lemma byte_of_char_inject:
  "(word_of_nat (of_char c) :: byte) = word_of_nat (of_char d) \<Longrightarrow> c = d"
proof -
  assume "(word_of_nat (of_char c) :: byte) = word_of_nat (of_char d)"
  then have "unat (word_of_nat (of_char c) :: byte) = unat (word_of_nat (of_char d) :: byte)"
    by simp
  moreover have "(of_char x :: nat) < 256" for x :: char
    using mod_less_divisor [of 256 "of_char x"] by simp
  ultimately show "c = d" by (simp add: unat_of_nat)
qed


lemma as_bytes_inject [simp]: "as_bytes s = as_bytes t \<longleftrightarrow> s = t"
proof
  assume "as_bytes s = as_bytes t"
  then show "s = t"
    unfolding as_bytes_def by (rule map_inj_on) (auto intro: inj_onI dest: byte_of_char_inject)
qed simp

text \<open>\<open>u64::to_be_bytes\<close>, \<open>u64::from_be_bytes\<close> and \<open>u32::from_be_bytes\<close>.\<close>

definition be_bytes :: "nat \<Rightarrow> nat \<Rightarrow> byte list" where
  "be_bytes n v = map (\<lambda>i. word_of_nat (v div 256 ^ (n - 1 - i))) [0..<n]"

definition from_be :: "byte list \<Rightarrow> nat" where
  "from_be bs = foldl (\<lambda>acc b. 256 * acc + unat b) 0 bs"

definition u64_to_be_bytes :: "u64 \<Rightarrow> byte list" where
  "u64_to_be_bytes w = be_bytes 8 (unat w)"

definition u64_from_be_bytes :: "byte list \<Rightarrow> u64" where
  "u64_from_be_bytes bs = word_of_nat (from_be bs)"

definition u32_from_be_bytes :: "byte list \<Rightarrow> u32" where
  "u32_from_be_bytes bs = word_of_nat (from_be bs)"

lemma unat_byte_less [simp]: "unat (b :: byte) < 256"
  using unsigned_less [of b, where ?'a = nat] by simp

lemma length_be_bytes [simp]: "length (be_bytes n v) = n"
  by (simp add: be_bytes_def)

lemma be_bytes_Suc: "be_bytes (Suc n) v = be_bytes n (v div 256) @ [word_of_nat v]"
proof -
  have "map (\<lambda>i. word_of_nat (v div 256 ^ (n - i)) :: byte) [0..<n] = be_bytes n (v div 256)"
    unfolding be_bytes_def
  proof (rule map_cong [OF refl])
    fix i assume "i \<in> set [0..<n]"
    then have "n - i = Suc (n - 1 - i)" by auto
    then show "(word_of_nat (v div 256 ^ (n - i)) :: byte) = word_of_nat (v div 256 div 256 ^ (n - 1 - i))"
      by (simp add: div_mult2_eq)
  qed
  then show ?thesis by (simp add: be_bytes_def)
qed

lemma from_be_append: "from_be (xs @ [b]) = 256 * from_be xs + unat b"
  by (simp add: from_be_def)

lemma from_be_be_bytes: "from_be (be_bytes n v) = v mod 256 ^ n"
proof (induction n arbitrary: v)
  case 0
  then show ?case by (simp add: be_bytes_def from_be_def)
next
  case (Suc n)
  have "v mod 256 ^ Suc n = 256 * (v div 256 mod 256 ^ n) + v mod 256"
    by (simp add: mod_mult2_eq)
  then show ?case by (simp add: be_bytes_Suc from_be_append Suc unat_of_nat)
qed

lemma u64_be_roundtrip [simp]: "u64_from_be_bytes (u64_to_be_bytes w) = w"
proof -
  have "unat w < 256 ^ 8" using unsigned_less [of w, where ?'a = nat] by simp
  then show ?thesis
    by (simp add: u64_from_be_bytes_def u64_to_be_bytes_def from_be_be_bytes)
qed

lemma length_u64_to_be_bytes [simp]: "length (u64_to_be_bytes w) = 8"
  by (simp add: u64_to_be_bytes_def)

lemma u64_to_be_bytes_inject [simp]: "u64_to_be_bytes v = u64_to_be_bytes w \<longleftrightarrow> v = w"
  by (metis u64_be_roundtrip)

lemma from_be_inject: "length xs = length ys \<Longrightarrow> from_be xs = from_be ys \<Longrightarrow> xs = ys"
proof (induction xs arbitrary: ys rule: rev_induct)
  case Nil
  then show ?case by simp
next
  case (snoc b xs)
  then obtain zs c where ys: "ys = zs @ [c]" and len: "length xs = length zs"
    by (metis append_butlast_last_id length_append_singleton length_greater_0_conv
        add_right_cancel Suc_eq_plus1 zero_less_Suc)
  from snoc.prems(2) have eq: "256 * from_be xs + unat b = 256 * from_be zs + unat c"
    by (simp add: ys from_be_append)
  have "unat b < 256" "unat c < 256" by simp_all
  with eq have "from_be xs = from_be zs" by linarith
  with eq have "unat b = unat c" by simp
  then have "b = c" by (simp add: word_unat_eq_iff)
  with snoc.IH [OF len \<open>from_be xs = from_be zs\<close>] ys show ?case by simp
qed

lemma from_be_bound: "from_be xs < 256 ^ length xs"
proof (induction xs rule: rev_induct)
  case Nil
  then show ?case by (simp add: from_be_def)
next
  case (snoc b xs)
  have "unat b < 256" by simp
  with snoc have "256 * from_be xs + unat b < 256 * 256 ^ length xs" by linarith
  then show ?case by (simp add: from_be_append)
qed

lemma u32_from_be_bytes_inject:
  assumes "length xs = 4" and "length ys = 4" and "u32_from_be_bytes xs = u32_from_be_bytes ys"
  shows "xs = ys"
proof (rule from_be_inject)
  have "from_be xs < 2 ^ 32" "from_be ys < 2 ^ 32"
    using from_be_bound [of xs] from_be_bound [of ys] assms(1,2) by simp_all
  moreover have "unat (u32_from_be_bytes xs) = unat (u32_from_be_bytes ys)"
    by (simp add: assms(3))
  ultimately show "from_be xs = from_be ys"
    by (simp add: u32_from_be_bytes_def unat_of_nat)
qed (simp add: assms)

section \<open>Decimal numbers\<close>

text \<open>\<open>Display\<close> of unsigned integers.\<close>

definition digit_char :: "nat \<Rightarrow> char" where
  "digit_char d = ''0123456789'' ! d"

fun show_nat :: "nat \<Rightarrow> string" where
  "show_nat n = (if n < 10 then [digit_char n] else show_nat (n div 10) @ [digit_char (n mod 10)])"

declare show_nat.simps [simp del]

definition show_word :: "'a::len word \<Rightarrow> string" where
  "show_word w = show_nat (unat w)"

end
