(* ===== verification/Paths.thy ===== *)
theory Paths
  imports Prelude
begin

text \<open>
  The part of \<open>std::path\<close> that the node uses, on Unix. A path is its string; \<open>components\<close> is the
  iterator \<open>Path::components\<close>, \<open>path_push\<close> is \<open>PathBuf::push\<close> (an absolute argument replaces the
  path), \<open>path_join\<close> is \<open>Path::join\<close>, \<open>strip_root\<close> is \<open>strip_prefix("/")\<close>, and \<open>file_name\<close> and
  \<open>path_parent\<close> are the methods of these names. The lemmas state how pushing acts on the
  components, which is what the confinement properties of the file components rest on.
\<close>

type_synonym path = string

datatype component = RootDir | CurDir | ParentDir | Normal string

fun split_slash :: "string \<Rightarrow> string list" where
  "split_slash [] = [[]]"
| "split_slash (c # s) =
     (if c = CHR ''/'' then [] # split_slash s
      else case split_slash s of [] \<Rightarrow> [[c]] | q # qs \<Rightarrow> (c # q) # qs)"

fun join_slash :: "string list \<Rightarrow> string" where
  "join_slash [] = []"
| "join_slash [p] = p"
| "join_slash (p # q # ps) = p @ CHR ''/'' # join_slash (q # ps)"

definition is_absolute :: "path \<Rightarrow> bool" where
  "is_absolute p \<longleftrightarrow> (case p of [] \<Rightarrow> False | c # _ \<Rightarrow> c = CHR ''/'')"

text \<open>Empty parts (repeated separators) and \<open>.\<close> parts are not components, except a leading \<open>.\<close>.\<close>

definition skipped :: "string \<Rightarrow> bool" where
  "skipped q \<longleftrightarrow> q = [] \<or> q = ''.''"

definition part_components :: "string \<Rightarrow> component list" where
  "part_components q =
     (if skipped q then [] else if q = ''..'' then [ParentDir] else [Normal q])"

definition body_components :: "string list \<Rightarrow> component list" where
  "body_components qs = concat (map part_components qs)"

definition components :: "path \<Rightarrow> component list" where
  "components p =
     (if is_absolute p then RootDir # body_components (split_slash (tl p))
      else if hd (split_slash p) = ''.'' then CurDir # body_components (tl (split_slash p))
      else body_components (split_slash p))"

definition path_push :: "path \<Rightarrow> path \<Rightarrow> path" where
  "path_push b p =
     (if is_absolute p then p
      else if b \<noteq> [] \<and> last b \<noteq> CHR ''/'' then b @ CHR ''/'' # p
      else b @ p)"

definition path_join :: "path \<Rightarrow> path \<Rightarrow> path" where
  "path_join b p = path_push b p"

text \<open>
  \<open>Path::strip_prefix("/")\<close> on an absolute path: the remaining components as a path, without the
  skipped parts at either end.
\<close>

definition trim_parts :: "string list \<Rightarrow> string list" where
  "trim_parts qs = rev (dropWhile skipped (rev (dropWhile skipped qs)))"

definition strip_root :: "path \<Rightarrow> path" where
  "strip_root p = join_slash (trim_parts (split_slash (tl p)))"

text \<open>The idiom \<open>if p.is_absolute() { p = p.strip_prefix("/").unwrap() }\<close>.\<close>

definition relative_part :: "path \<Rightarrow> path" where
  "relative_part p = (if is_absolute p then strip_root p else p)"

definition file_name :: "path \<Rightarrow> string option" where
  "file_name p =
     (case rev (components p) of Normal n # _ \<Rightarrow> Some n | _ \<Rightarrow> None)"

text \<open>\<open>Path::parent\<close>.\<close>

definition trim_back :: "bool \<Rightarrow> string list \<Rightarrow> string list" where
  "trim_back rel qs =
     (let rs = rev (dropWhile skipped (rev qs))
      in if rs = [] \<and> rel \<and> qs \<noteq> [] \<and> hd qs = ''.'' then [''.''] else rs)"

definition path_parent :: "path \<Rightarrow> path option" where
  "path_parent p =
     (let rel = (\<not> is_absolute p);
          root = (if rel then [] else ''/'');
          qs = trim_back rel (split_slash (if rel then p else tl p))
      in if qs = [] then None
         else Some (root @ join_slash (if butlast qs = [] then [] else trim_back rel (butlast qs))))"

section \<open>Splitting and joining\<close>

lemma split_slash_nonempty [simp]: "split_slash s \<noteq> []"
  by (cases s) (auto split: list.splits)

lemma split_slash_Cons:
  "split_slash (c # s) =
     (if c = CHR ''/'' then [] # split_slash s
      else (c # hd (split_slash s)) # tl (split_slash s))"
  using split_slash_nonempty [of s] by (auto split: list.splits simp del: split_slash_nonempty)

lemma split_slash_hd_tl [simp]: "hd (split_slash s) # tl (split_slash s) = split_slash s"
  by simp

lemma join_slash_Cons: "qs \<noteq> [] \<Longrightarrow> join_slash (p # qs) = p @ CHR ''/'' # join_slash qs"
  by (cases qs) auto

lemma join_slash_Cons_char: "qs \<noteq> [] \<Longrightarrow> join_slash ((c # hd qs) # tl qs) = c # join_slash qs"
proof (cases qs)
  case (Cons q rs)
  then show ?thesis by (cases rs) auto
qed simp

lemma join_split_slash [simp]: "join_slash (split_slash s) = s"
  by (induction s)
     (simp_all add: join_slash_Cons join_slash_Cons_char split_slash_Cons del: split_slash.simps(2))

lemma split_slash_no_slash [simp]: "CHR ''/'' \<notin> set s \<Longrightarrow> split_slash s = [s]"
  by (induction s) auto

lemma split_slash_append_slash [simp]:
  "split_slash (s @ CHR ''/'' # t) = split_slash s @ split_slash t"
  by (induction s) (auto simp: split_slash_Cons simp del: split_slash.simps(2))

lemma split_slash_parts: "q \<in> set (split_slash s) \<Longrightarrow> CHR ''/'' \<notin> set q"
proof (induction s arbitrary: q)
  case Nil
  then show ?case by simp
next
  case (Cons c s)
  then show ?case
    by (auto simp: split_slash_Cons simp del: split_slash.simps(2) split: if_splits
        dest: list.set_sel(2) [OF split_slash_nonempty] intro: list.set_sel(1))
qed

lemma split_join_slash:
  "qs \<noteq> [] \<Longrightarrow> \<forall>q\<in>set qs. CHR ''/'' \<notin> set q \<Longrightarrow> split_slash (join_slash qs) = qs"
  by (induction qs rule: join_slash.induct) auto

section \<open>Components\<close>

lemma body_components_append [simp]:
  "body_components (ps @ qs) = body_components ps @ body_components qs"
  by (simp add: body_components_def)

lemma body_components_Nil [simp]: "body_components [] = []"
  by (simp add: body_components_def)

lemma body_components_Cons: "body_components (q # qs) = part_components q @ body_components qs"
  by (simp add: body_components_def)

lemma part_components_empty [simp]: "part_components [] = []"
  by (simp add: part_components_def skipped_def)

lemma body_components_skipped [simp]: "skipped q \<Longrightarrow> body_components (q # qs) = body_components qs"
  by (simp add: body_components_Cons part_components_def)

lemma body_components_dropWhile [simp]:
  "body_components (dropWhile skipped qs) = body_components qs"
  by (induction qs) auto

lemma body_components_rev: "body_components (rev qs) = rev (body_components qs)"
proof (induction qs)
  case (Cons q qs)
  have "rev (part_components q) = part_components q" by (simp add: part_components_def)
  with Cons show ?case by (simp add: body_components_Cons)
qed simp

lemma body_components_trim [simp]: "body_components (trim_parts qs) = body_components qs"
  by (simp add: trim_parts_def body_components_rev)

lemma body_components_no_root [simp]:
  "RootDir \<notin> set (body_components qs)" "CurDir \<notin> set (body_components qs)"
  by (auto simp: body_components_def part_components_def)

text \<open>A relative part that does not start with \<open>.\<close> contributes exactly its body components.\<close>

definition rel_components :: "path \<Rightarrow> component list" where
  "rel_components p = body_components (split_slash p)"

lemma is_absolute_append [simp]: "b \<noteq> [] \<Longrightarrow> is_absolute (b @ s) = is_absolute b"
  by (cases b) (auto simp: is_absolute_def)

lemma components_append_slash:
  assumes "b \<noteq> []"
  shows "components (b @ CHR ''/'' # p) = components b @ rel_components p"
proof (cases "is_absolute b")
  case True
  with assms obtain b' where "b = CHR ''/'' # b'"
    by (cases b) (auto simp: is_absolute_def)
  then show ?thesis
    by (simp add: components_def is_absolute_def rel_components_def)
next
  case False
  with assms show ?thesis
    by (auto simp: components_def rel_components_def)
qed

lemma components_append_trailing:
  assumes "b \<noteq> []" and "last b = CHR ''/''"
  shows "components (b @ p) = components b @ rel_components p"
proof -
  from assms obtain b' where b: "b = b' @ [CHR ''/'']"
    by (metis append_butlast_last_id)
  show ?thesis
  proof (cases "b' = []")
    case True
    with b show ?thesis
      by (simp add: components_def is_absolute_def rel_components_def body_components_Cons)
  next
    case False
    then have "components (b' @ CHR ''/'' # []) = components b'"
      by (simp add: components_append_slash rel_components_def body_components_Cons)
    moreover have "components (b' @ CHR ''/'' # p) = components b' @ rel_components p"
      using False by (rule components_append_slash)
    ultimately show ?thesis using b by simp
  qed
qed

text \<open>
  Pushing a relative path onto a non-empty path appends components and never changes those already
  there.
\<close>

lemma components_push:
  assumes "b \<noteq> []" and "\<not> is_absolute p"
  shows "components (path_push b p) = components b @ rel_components p"
  using assms
  by (auto simp: path_push_def components_append_slash components_append_trailing)

lemma push_nonempty [simp]: "b \<noteq> [] \<Longrightarrow> path_push b p \<noteq> []"
  by (auto simp: path_push_def is_absolute_def)

lemma is_absolute_push [simp]:
  "b \<noteq> [] \<Longrightarrow> \<not> is_absolute p \<Longrightarrow> is_absolute (path_push b p) = is_absolute b"
  by (auto simp: path_push_def)

lemma path_push_absolute [simp]: "is_absolute p \<Longrightarrow> path_push b p = p"
  by (simp add: path_push_def)

section \<open>Stripping the root\<close>

lemma trim_parts_hd: "trim_parts qs \<noteq> [] \<Longrightarrow> \<not> skipped (hd (trim_parts qs))"
proof -
  let ?d = "dropWhile skipped qs"
  assume "trim_parts qs \<noteq> []"
  then have "?d \<noteq> []" unfolding trim_parts_def by (metis dropWhile.simps(1) rev.simps(1))
  then have "\<not> skipped (hd ?d)" by (rule hd_dropWhile)
  with \<open>?d \<noteq> []\<close> have "trim_parts qs = hd ?d # rev (dropWhile skipped (rev (tl ?d)))"
    by (cases ?d) (auto simp: trim_parts_def dropWhile_append3)
  with \<open>\<not> skipped (hd ?d)\<close> show ?thesis by simp
qed

lemma strip_root_relative: "\<not> is_absolute (strip_root p)"
proof (cases "trim_parts (split_slash (tl p))")
  case Nil
  then show ?thesis by (simp add: strip_root_def is_absolute_def)
next
  case (Cons q qs)
  have "\<not> skipped q" using trim_parts_hd [of "split_slash (tl p)"] Cons by simp
  then obtain c q' where q: "q = c # q'" by (cases q) (auto simp: skipped_def)
  have "q \<in> set (split_slash (tl p))"
    using Cons set_dropWhileD [of q skipped] unfolding trim_parts_def
    by (metis list.set_intros(1) set_dropWhileD set_rev)
  then have "CHR ''/'' \<notin> set q" by (rule split_slash_parts)
  with q have "c \<noteq> CHR ''/''" by auto
  moreover have "strip_root p = c # (case qs of [] \<Rightarrow> q' | _ \<Rightarrow> q' @ CHR ''/'' # join_slash qs)"
    using Cons q by (cases qs) (auto simp: strip_root_def)
  ultimately show ?thesis by (simp add: is_absolute_def)
qed

lemma relative_part_relative [simp]: "\<not> is_absolute (relative_part p)"
  by (simp add: relative_part_def strip_root_relative)

lemma file_name_normal:
  assumes "file_name p = Some n"
  shows "n \<noteq> [] \<and> n \<noteq> ''.'' \<and> n \<noteq> ''..'' \<and> CHR ''/'' \<notin> set n"
proof -
  have part: "part_components q = [Normal n] \<Longrightarrow> q = n \<and> \<not> skipped n \<and> n \<noteq> ''..''" for q
    by (auto simp: part_components_def split: if_splits)
  have "Normal n \<in> set (components p)"
    using assms unfolding file_name_def
    by (auto split: list.splits component.splits simp: rev_swap)
  then obtain q s where "Normal n \<in> set (part_components q)" and "q \<in> set (split_slash s)"
    by (auto simp: components_def body_components_def split: if_splits
        dest: list.set_sel(2) [OF split_slash_nonempty])
  moreover from this have "part_components q = [Normal n]"
    by (auto simp: part_components_def split: if_splits)
  ultimately show ?thesis
    using part [of q] split_slash_parts [of q s] by (auto simp: skipped_def)
qed

text \<open>A plain name: what a hex digest or the result of \<open>file_name\<close> is.\<close>

definition plain_name :: "string \<Rightarrow> bool" where
  "plain_name n \<longleftrightarrow> n \<noteq> [] \<and> n \<noteq> ''.'' \<and> n \<noteq> ''..'' \<and> CHR ''/'' \<notin> set n"

lemma plain_name_relative [simp]: "plain_name n \<Longrightarrow> \<not> is_absolute n"
  by (cases n) (auto simp: plain_name_def is_absolute_def)

lemma rel_components_plain [simp]: "plain_name n \<Longrightarrow> rel_components n = [Normal n]"
  by (simp add: rel_components_def body_components_Cons part_components_def skipped_def
      plain_name_def)

lemma components_push_plain [simp]:
  "b \<noteq> [] \<Longrightarrow> plain_name n \<Longrightarrow> components (path_push b n) = components b @ [Normal n]"
  by (simp add: components_push)

text \<open>
  A path stays under a root when its components extend the root's by named parts only: no
  \<open>..\<close>, no restart at \<open>/\<close>.
\<close>

definition stays_under :: "path \<Rightarrow> path \<Rightarrow> bool" where
  "stays_under r p \<longleftrightarrow>
     take (length (components r)) (components p) = components r \<and>
     list_all (\<lambda>c. case c of Normal _ \<Rightarrow> True | _ \<Rightarrow> False)
       (drop (length (components r)) (components p))"

lemma stays_under_append:
  "components p = components r @ cs \<Longrightarrow>
   stays_under r p \<longleftrightarrow> list_all (\<lambda>c. case c of Normal _ \<Rightarrow> True | _ \<Rightarrow> False) cs"
  by (simp add: stays_under_def)

end
