(* ===== verification/Tx_Types.thy ===== *)
theory Tx_Types
  imports Paths
begin

text \<open>
  The data of the node, from \<open>crates/node/src/types\<close>: hashes and signatures, program metadata,
  workflows, payloads and transactions, the files attached to them, and tasks. Field and
  constructor names are the source's, with a prefix where two structs share one. The record
  \<open>crates\<close> collects the functions of the third-party crates the code calls; every definition that
  uses one takes the record as an argument, and the predicates at the end of this theory state the
  documented behaviour the properties rely on.
\<close>

section \<open>Hashes, keys and signatures\<close>

text \<open>\<open>Hash\<close> is a byte array of length \<open>HASH_SIZE\<close>; \<open>hash_wf\<close> is the length.\<close>

definition HASH_SIZE :: nat where
  "HASH_SIZE = 32"

datatype hash = Hash (hash_bytes: "byte list")

definition hash_wf :: "hash \<Rightarrow> bool" where
  "hash_wf h \<longleftrightarrow> length (hash_bytes h) = HASH_SIZE"

definition hash_default :: hash where
  "hash_default = Hash (replicate HASH_SIZE 0)"

text \<open>
  Keys of \<open>libsecp256k1\<close> are opaque; the node only passes them on, compares and serialises them.
  The scalars, messages and signatures of the crate have public fields, which the node reads.
\<close>

datatype public_key = PublicKey nat

datatype secret_key = SecretKey nat

datatype lib_scalar = LibScalar (limbs: "u32 list")

datatype lib_message = LibMessage lib_scalar

record lib_signature =
  lib_r :: lib_scalar
  lib_s :: lib_scalar

datatype scalar = Scalar "u32 list"

record signature =
  sig_r :: scalar
  sig_s :: scalar

definition scalar_default :: scalar where
  "scalar_default = Scalar (replicate 8 0)"

definition signature_default :: signature where
  "signature_default = \<lparr> sig_r = scalar_default, sig_s = scalar_default \<rparr>"

datatype signature_error = ParseError string

section \<open>Programs\<close>

record resource_request =
  mem :: u64
  cpus :: u64
  gpus :: u64

definition resource_request_default :: resource_request where
  "resource_request_default = \<lparr> mem = 2048, cpus = 2, gpus = 0 \<rparr>"

record program_metadata =
  pm_name :: string
  pm_hash :: hash
  pm_image_file_name :: string
  pm_image_file_url :: string
  pm_image_file_checksum :: string
  pm_resource_requirements :: "resource_request option"

record program =
  prg_hash :: hash
  prg_name :: string
  prg_image_file_name :: string
  prg_image_file_url :: string
  prg_image_file_checksum :: string
  prg_limits :: "resource_request option"

definition program_of_metadata :: "program_metadata \<Rightarrow> program" where
  "program_of_metadata v =
     \<lparr> prg_hash = pm_hash v, prg_name = pm_name v,
       prg_image_file_name = pm_image_file_name v,
       prg_image_file_url = pm_image_file_url v,
       prg_image_file_checksum = pm_image_file_checksum v,
       prg_limits = pm_resource_requirements v \<rparr>"

definition metadata_of_program :: "program \<Rightarrow> program_metadata" where
  "metadata_of_program v =
     \<lparr> pm_name = prg_name v, pm_hash = prg_hash v,
       pm_image_file_name = prg_image_file_name v,
       pm_image_file_url = prg_image_file_url v,
       pm_image_file_checksum = prg_image_file_checksum v,
       pm_resource_requirements = prg_limits v \<rparr>"

section \<open>Files\<close>

text \<open>\<open>TxFile<E>\<close>, \<open>TaskVmFile<E>\<close> and the type-state extensions.\<close>

datatype file_output = Output

datatype image = Image hash

datatype vm_input = VmInput string

datatype vm_output = VmOutput hash

record 'e tx_file =
  tf_name :: string
  tf_url :: string
  tf_checksum :: hash
  tf_extention :: 'e

record 'e task_vm_file =
  vm_file_path :: string
  vm_extension :: 'e

record asset_file =
  af_name :: string
  af_file_path :: path
  af_url :: string
  af_checksum :: hash
  af_verify_exist :: bool

record db_file =
  df_name :: string
  df_url :: string
  df_checksum :: hash

section \<open>Payloads and transactions\<close>

datatype program_data =
    Input (in_file_name: string) (in_file_url: string) (in_checksum: string)
  | OutputOf (source_program: hash) (out_file_name: string)

record workflow_step =
  ws_program :: hash
  ws_args :: "string list"
  ws_inputs :: "program_data list"

record workflow =
  steps :: "workflow_step list"

datatype payload =
    Empty
  | Transfer public_key int
  | Stake int
  | Unstake int
  | Deploy string program_metadata program_metadata
  | Run workflow
  | Proof hash hash "byte list" "file_output tx_file list"
  | ProofKey hash "byte list"
  | Verification hash hash "byte list" "file_output tx_file list"
  | Cancel hash

datatype created = Created

datatype received = P2P | RPC | TXRESULT

datatype validated = Validated

record 'st transaction =
  tx_author :: public_key
  tx_hash :: hash
  tx_payload :: payload
  tx_nonce :: u64
  tx_signature :: signature
  tx_propagated :: bool
  tx_executed :: bool
  tx_state :: 'st

datatype transaction_error = Validation string | General string

section \<open>Tasks\<close>

text \<open>Task identifiers are \<open>Uuid\<close>s, drawn by \<open>Uuid::new_v4\<close>, in their text form.\<close>

type_synonym task_id = string

datatype task_state_kind = StateNew | StatePending | StateRunning | StateReady | StateFailed

datatype task_kind = KindProof | KindVerification | KindPoW | KindNop

record task =
  task_uid :: task_id
  task_tx :: hash
  task_name :: string
  task_kind_of :: task_kind
  task_program_id :: hash
  task_args :: "string list"
  task_files :: "vm_input task_vm_file list"
  task_serial :: int
  task_state_of :: task_state_kind

section \<open>Network addresses\<close>

text \<open>\<open>std::net::SocketAddr\<close>: the address in text form and the port.\<close>

datatype socket_addr = SocketAddr (sa_ip: string) (sa_port: u16)

section \<open>Third-party functions\<close>

record crates =
  hex_encode :: "byte list \<Rightarrow> string"
  hex_decode :: "string \<Rightarrow> string + byte list"
  sha3_256 :: "byte list \<Rightarrow> byte list"
  pk_serialize :: "public_key \<Rightarrow> byte list"
  pk_from_secret_key :: "secret_key \<Rightarrow> public_key"
  sk_default :: secret_key
  ecdsa_sign :: "lib_message \<Rightarrow> secret_key \<Rightarrow> lib_signature"
  ecdsa_verify :: "lib_message \<Rightarrow> lib_signature \<Rightarrow> public_key \<Rightarrow> bool"
  lib_sig_serialize :: "lib_signature \<Rightarrow> byte list"
  lib_sig_parse_standard :: "byte list \<Rightarrow> string + lib_signature"
  bigint_to_signed_bytes_be :: "int \<Rightarrow> byte list"
  bincode_tx_files :: "file_output tx_file list \<Rightarrow> string + byte list"
  url_parse :: "string \<Rightarrow> string + string"

text \<open>The documented behaviour the properties rely on, one predicate per fact.\<close>

text \<open>\<open>hex::encode\<close> writes two lowercase digits per byte and \<open>hex::decode\<close> reads them back.\<close>

definition hex_digits :: string where
  "hex_digits = ''0123456789abcdef''"

definition hex_text_ok :: "crates \<Rightarrow> bool" where
  "hex_text_ok c \<longleftrightarrow>
     (\<forall>bs. set (hex_encode c bs) \<subseteq> set hex_digits \<and> length (hex_encode c bs) = 2 * length bs)"

definition hex_roundtrip_ok :: "crates \<Rightarrow> bool" where
  "hex_roundtrip_ok c \<longleftrightarrow> (\<forall>bs. hex_decode c (hex_encode c bs) = Inr bs)"

text \<open>SHA3-256 digests have 32 bytes.\<close>

definition sha3_len_ok :: "crates \<Rightarrow> bool" where
  "sha3_len_ok c \<longleftrightarrow> (\<forall>bs. length (sha3_256 c bs) = 32)"

text \<open>A signature made with a secret key verifies under the public key derived from it.\<close>

definition ecdsa_ok :: "crates \<Rightarrow> bool" where
  "ecdsa_ok c \<longleftrightarrow>
     (\<forall>m sk. ecdsa_verify c m (ecdsa_sign c m sk) (pk_from_secret_key c sk))"

text \<open>Serialising a vector of plain structs with bincode into memory does not fail.\<close>

definition bincode_ok :: "crates \<Rightarrow> bool" where
  "bincode_ok c \<longleftrightarrow> (\<forall>fs. \<not> isl (bincode_tx_files c fs))"

text \<open>The standard encoding of a signature that was made by signing has 64 bytes and parses back.\<close>

definition lib_sig_ok :: "crates \<Rightarrow> bool" where
  "lib_sig_ok c \<longleftrightarrow>
     (\<forall>m sk. length (lib_sig_serialize c (ecdsa_sign c m sk)) = 64 \<and>
             lib_sig_parse_standard c (lib_sig_serialize c (ecdsa_sign c m sk)) =
               Inr (ecdsa_sign c m sk))"

section \<open>Conversions between programs and metadata\<close>

lemma program_metadata_roundtrip [simp]:
  "metadata_of_program (program_of_metadata v) = v"
  "program_of_metadata (metadata_of_program p) = p"
  by (simp_all add: metadata_of_program_def program_of_metadata_def)

lemma hash_default_wf [simp]: "hash_wf hash_default"
  by (simp add: hash_wf_def hash_default_def)

lemma hash_wf_Hash [simp]: "hash_wf (Hash bs) \<longleftrightarrow> length bs = 32"
  by (simp add: hash_wf_def HASH_SIZE_def)

end
