(* ===== verification/Hashes.thy ===== *)
theory Hashes
  imports Tx_Types
begin

text \<open>
  \<open>types/hash.rs\<close> and \<open>types/signature.rs\<close>: conversions of hashes to and from text, byte slices
  and signature messages, and the text form of signatures. The conversions of the source panic on
  malformed input; they return \<^const>\<open>Panicked\<close> here.
\<close>

section \<open>Hashes\<close>

definition hash_to_vec :: "hash \<Rightarrow> byte list" where
  "hash_to_vec h = hash_bytes h"

definition hash_display :: "crates \<Rightarrow> hash \<Rightarrow> string" where
  "hash_display c h = hex_encode c (hash_bytes h)"

definition try_into_hash :: "byte list \<Rightarrow> hash option" where
  "try_into_hash bs = (if length bs = HASH_SIZE then Some (Hash bs) else None)"

definition hash_from_str :: "crates \<Rightarrow> string \<Rightarrow> ('e, hash) outcome" where
  "hash_from_str c s =
     obind (expect ''invalid value'' (case hex_decode c s of Inl _ \<Rightarrow> None | Inr bs \<Rightarrow> Some bs))
       (\<lambda>bs. expect ''unwrap'' (try_into_hash bs))"

definition hash_from_slice :: "byte list \<Rightarrow> ('e, hash) outcome" where
  "hash_from_slice bs = expect ''copy'' (try_into_hash bs)"

text \<open>\<open>impl From<Hash> for Message\<close>: eight big-endian limbs of four bytes.\<close>

definition hash_to_message :: "hash \<Rightarrow> lib_message" where
  "hash_to_message h =
     LibMessage (LibScalar
       (map (\<lambda>i. u32_from_be_bytes (take 4 (drop (4 * i) (hash_bytes h)))) [0..<8]))"

section \<open>Signatures\<close>

definition scalar_from_lib :: "lib_scalar \<Rightarrow> scalar" where
  "scalar_from_lib x = Scalar (limbs x)"

fun scalar_to_lib :: "scalar \<Rightarrow> lib_scalar" where
  "scalar_to_lib (Scalar ls) = LibScalar ls"

definition signature_from_lib :: "lib_signature \<Rightarrow> signature" where
  "signature_from_lib v =
     \<lparr> sig_r = scalar_from_lib (lib_r v), sig_s = scalar_from_lib (lib_s v) \<rparr>"

definition signature_to_lib :: "signature \<Rightarrow> lib_signature" where
  "signature_to_lib v =
     \<lparr> lib_r = scalar_to_lib (sig_r v), lib_s = scalar_to_lib (sig_s v) \<rparr>"

definition signature_display :: "crates \<Rightarrow> signature \<Rightarrow> string" where
  "signature_display c v = hex_encode c (lib_sig_serialize c (signature_to_lib v))"

definition signature_try_from_str :: "crates \<Rightarrow> string \<Rightarrow> signature_error + signature" where
  "signature_try_from_str c s =
     (case hex_decode c s of
        Inl e \<Rightarrow> Inl (ParseError e)
      | Inr bs \<Rightarrow>
          if length bs \<noteq> 64 then Inl (ParseError ''byte array length'')
          else case lib_sig_parse_standard c bs of
                 Inl e \<Rightarrow> Inl (ParseError e)
               | Inr v \<Rightarrow> Inr (signature_from_lib v))"

definition signature_from_string :: "crates \<Rightarrow> string \<Rightarrow> ('e, signature) outcome" where
  "signature_from_string c s =
     expect ''from string''
       (case signature_try_from_str c s of Inl _ \<Rightarrow> None | Inr v \<Rightarrow> Some v)"

text \<open>\<open>Result::unwrap\<close> in code that panics.\<close>

definition unwrap_result :: "'x + 'a \<Rightarrow> ('e, 'a) outcome" where
  "unwrap_result r = expect ''unwrap'' (case r of Inl _ \<Rightarrow> None | Inr a \<Rightarrow> Some a)"

text \<open>Distinct public keys have distinct serialisations.\<close>

definition pk_serialize_inj :: "crates \<Rightarrow> bool" where
  "pk_serialize_inj c \<longleftrightarrow> inj (pk_serialize c)"

section \<open>Text and message forms\<close>

lemma hash_from_slice_Done [outcome_simps]:
  "hash_from_slice bs = Done h \<longleftrightarrow> length bs = 32 \<and> h = Hash bs"
  by (auto simp: hash_from_slice_def try_into_hash_def HASH_SIZE_def outcome_simps)

lemma hash_from_str_Done [outcome_simps]:
  "hash_from_str c s = Done h \<longleftrightarrow> hex_decode c s = Inr (hash_bytes h) \<and> hash_wf h"
  by (cases h; cases "hex_decode c s")
     (auto simp: hash_from_str_def try_into_hash_def HASH_SIZE_def outcome_simps
       split: if_splits)

lemma hash_display_parse:
  "hex_roundtrip_ok c \<Longrightarrow> hash_wf h \<Longrightarrow> hash_from_str c (hash_display c h) = Done h"
  by (simp add: outcome_simps hash_display_def hex_roundtrip_ok_def)

lemma hash_display_inject:
  "hex_roundtrip_ok c \<Longrightarrow> hash_display c h = hash_display c k \<longleftrightarrow> h = k"
  by (metis hash.expand hash_display_def hex_roundtrip_ok_def sum.inject(2))

lemma hash_display_plain:
  assumes "hex_text_ok c" and "hash_wf h"
  shows "plain_name (hash_display c h)"
proof -
  have "length (hash_display c h) = 64" and sub: "set (hash_display c h) \<subseteq> set hex_digits"
    using assms by (simp_all add: hex_text_ok_def hash_wf_def HASH_SIZE_def hash_display_def)
  moreover have "CHR ''/'' \<notin> set hex_digits" by (simp add: hex_digits_def)
  ultimately show ?thesis by (auto simp: plain_name_def)
qed

lemma chunks_inject:
  assumes "length xs = length ys" and "length xs \<le> k * n"
    and eq: "\<And>i. i < n \<Longrightarrow> take k (drop (k * i) xs) = take k (drop (k * i) ys)"
  shows "xs = ys"
proof -
  have "take (k * m) xs = take (k * m) ys" if "m \<le> n" for m
    using that
  proof (induction m)
    case (Suc m)
    have "take (k * Suc m) zs = take (k * m) zs @ take k (drop (k * m) zs)" for zs :: "'a list"
      by (simp add: take_add [symmetric] add.commute)
    with Suc eq [of m] show ?case by simp
  qed simp
  from this [of n] assms show ?thesis by simp
qed

lemma hash_to_message_inject:
  assumes "hash_wf h" and "hash_wf k" and "hash_to_message h = hash_to_message k"
  shows "h = k"
proof (rule hash.expand, rule chunks_inject)
  show "length (hash_bytes h) = length (hash_bytes k)" "length (hash_bytes h) \<le> 4 * 8"
    using assms by (simp_all add: hash_wf_def HASH_SIZE_def)
  fix i :: nat assume "i < 8"
  moreover from this have "i \<in> set [0..<8]" by simp
  ultimately show "take 4 (drop (4 * i) (hash_bytes h)) = take 4 (drop (4 * i) (hash_bytes k))"
    using assms
    by (intro u32_from_be_bytes_inject)
       (auto simp: hash_wf_def HASH_SIZE_def hash_to_message_def map_eq_conv)
qed

lemma signature_lib_roundtrip [simp]:
  "signature_to_lib (signature_from_lib v) = v"
  "signature_from_lib (signature_to_lib s) = s"
  by (cases "sig_r s"; cases "sig_s s";
      simp add: signature_to_lib_def signature_from_lib_def scalar_from_lib_def)+

lemma signature_display_parse:
  assumes "hex_roundtrip_ok c" and "lib_sig_ok c"
    and "signature_to_lib s = ecdsa_sign c m sk"
  shows "signature_try_from_str c (signature_display c s) = Inr s"
proof -
  have "length (lib_sig_serialize c (signature_to_lib s)) = 64"
    and "lib_sig_parse_standard c (lib_sig_serialize c (signature_to_lib s)) =
           Inr (signature_to_lib s)"
    using assms(2) by (simp_all add: assms(3) lib_sig_ok_def)
  with assms(1) show ?thesis
    by (simp add: signature_try_from_str_def signature_display_def hex_roundtrip_ok_def)
qed

lemma unwrap_result_Done [outcome_simps]: "unwrap_result r = Done a \<longleftrightarrow> r = Inr a"
  by (auto simp: unwrap_result_def outcome_simps split: sum.splits)

lemma unwrap_result_not_Failed [simp]: "unwrap_result r \<noteq> Failed e"
  by (simp add: unwrap_result_def)

end
