(* ===== verification/Sample_Crates.thy ===== *)
theory Sample_Crates
  imports Hashes
begin

text \<open>
  One concrete instance of the third-party functions, on which the witnesses of the properties are
  evaluated: a real hexadecimal codec, a digest that pads or cuts to 32 bytes, and a signature
  scheme whose signatures repeat a checksum of the message and the key. The lemmas show that the
  instance has the documented behaviour the properties assume.
\<close>

section \<open>Hexadecimal text\<close>

definition hex_char :: "nat \<Rightarrow> char" where
  "hex_char n = hex_digits ! n"

definition hex_value :: "char \<Rightarrow> nat option" where
  "hex_value ch = find (\<lambda>i. hex_digits ! i = ch) [0..<16]"

definition sample_hex_encode :: "byte list \<Rightarrow> string" where
  "sample_hex_encode bs =
     concat (map (\<lambda>b. [hex_char (unat b div 16), hex_char (unat b mod 16)]) bs)"

fun sample_hex_decode :: "string \<Rightarrow> string + byte list" where
  "sample_hex_decode [] = Inr []"
| "sample_hex_decode [_] = Inl ''Odd number of digits''"
| "sample_hex_decode (h # l # s) =
     (case (hex_value h, hex_value l) of
        (Some x, Some y) \<Rightarrow>
          (case sample_hex_decode s of
             Inr bs \<Rightarrow> Inr (word_of_nat (16 * x + y) # bs)
           | Inl e \<Rightarrow> Inl e)
      | _ \<Rightarrow> Inl ''Invalid character'')"

lemma hex_value_char: "n < 16 \<Longrightarrow> hex_value (hex_char n) = Some n"
proof -
  assume "n < 16"
  then have "n \<in> {0, 1, 2, 3, 4, 5, 6, 7, 8, 9, 10, 11, 12, 13, 14, 15}" unfolding insert_iff empty_iff by presburger
  then show ?thesis
    by (auto simp: hex_value_def hex_char_def hex_digits_def upt_conv_Cons)
qed

lemma hex_char_digit: "n < 16 \<Longrightarrow> hex_char n \<in> set hex_digits"
  unfolding hex_char_def by (rule nth_mem) (simp add: hex_digits_def)

lemma byte_nibbles: "unat (b :: byte) div 16 < 16"
  using unat_byte_less [of b] by linarith

lemma sample_hex_roundtrip: "sample_hex_decode (sample_hex_encode bs) = Inr bs"
proof (induction bs)
  case Nil
  then show ?case by (simp add: sample_hex_encode_def)
next
  case (Cons b bs)
  have "16 * (unat b div 16) + unat b mod 16 = unat b" by simp
  with Cons show ?case
    by (simp add: sample_hex_encode_def hex_value_char byte_nibbles)
qed

lemma sample_hex_text:
  "set (sample_hex_encode bs) \<subseteq> set hex_digits" "length (sample_hex_encode bs) = 2 * length bs"
  by (induction bs) (simp_all add: sample_hex_encode_def hex_char_digit byte_nibbles)

section \<open>Digests and signatures\<close>

definition sample_sha3 :: "byte list \<Rightarrow> byte list" where
  "sample_sha3 bs = take 32 (rev bs @ replicate 32 0)"

definition sample_sum :: "lib_message \<Rightarrow> u32" where
  "sample_sum m = (case m of LibMessage (LibScalar ls) \<Rightarrow> sum_list ls)"

definition sample_sign :: "lib_message \<Rightarrow> secret_key \<Rightarrow> lib_signature" where
  "sample_sign m sk =
     (case sk of SecretKey n \<Rightarrow>
        \<lparr> lib_r = LibScalar (replicate 8 (sample_sum m)),
          lib_s = LibScalar (replicate 8 (of_nat n)) \<rparr>)"

definition sample_verify :: "lib_message \<Rightarrow> lib_signature \<Rightarrow> public_key \<Rightarrow> bool" where
  "sample_verify m s pk \<longleftrightarrow> (case pk of PublicKey n \<Rightarrow> s = sample_sign m (SecretKey n))"

definition sample_sig_serialize :: "lib_signature \<Rightarrow> byte list" where
  "sample_sig_serialize s =
     concat (replicate 8 (be_bytes 4 (unat (hd (limbs (lib_r s)))))) @
     concat (replicate 8 (be_bytes 4 (unat (hd (limbs (lib_s s))))))"

definition sample_sig_parse :: "byte list \<Rightarrow> string + lib_signature" where
  "sample_sig_parse bs =
     Inr \<lparr> lib_r = LibScalar (replicate 8 (u32_from_be_bytes (take 4 bs))),
           lib_s = LibScalar (replicate 8 (u32_from_be_bytes (take 4 (drop 32 bs)))) \<rparr>"

definition sample_pk_serialize :: "public_key \<Rightarrow> byte list" where
  "sample_pk_serialize pk = (case pk of PublicKey n \<Rightarrow> replicate n 1)"

definition sample_crates :: crates where
  "sample_crates =
     \<lparr> hex_encode = sample_hex_encode,
       hex_decode = sample_hex_decode,
       sha3_256 = sample_sha3,
       pk_serialize = sample_pk_serialize,
       pk_from_secret_key = (\<lambda>sk. case sk of SecretKey n \<Rightarrow> PublicKey n),
       sk_default = SecretKey 0,
       ecdsa_sign = sample_sign,
       ecdsa_verify = sample_verify,
       lib_sig_serialize = sample_sig_serialize,
       lib_sig_parse_standard = sample_sig_parse,
       bigint_to_signed_bytes_be = (\<lambda>v. be_bytes 16 (nat v)),
       bincode_tx_files = (\<lambda>fs. Inr (concat (map (\<lambda>f. as_bytes (tf_name f)) fs))),
       url_parse = (\<lambda>s. if s = [] then Inl ''relative URL without a base'' else Inr s) \<rparr>"

lemma u32_be_roundtrip: "u32_from_be_bytes (be_bytes 4 (unat (w :: u32))) = w"
proof -
  have "unat w < 256 ^ 4" using unsigned_less [of w, where ?'a = nat] by simp
  then show ?thesis by (simp add: u32_from_be_bytes_def from_be_be_bytes)
qed

lemma sample_sig_roundtrip: "sample_sig_parse (sample_sig_serialize (sample_sign m sk)) = Inr (sample_sign m sk)"
proof -
  have c: "concat (replicate 8 (be_bytes 4 n)) = be_bytes 4 n @ concat (replicate 7 (be_bytes 4 n))" for n
    by (simp add: numeral_eq_Suc)
  have l: "length (concat (replicate 7 (be_bytes 4 n))) = 28" for n
    by (simp add: length_concat sum_list_replicate)
  show ?thesis
    by (cases sk) (simp add: sample_sig_parse_def sample_sig_serialize_def sample_sign_def c l
        u32_be_roundtrip)
qed

lemma sample_sig_length: "length (sample_sig_serialize s) = 64"
  by (simp add: sample_sig_serialize_def length_concat sum_list_replicate)

lemma sample_crates_ok [simp]:
  "hex_text_ok sample_crates" "hex_roundtrip_ok sample_crates" "sha3_len_ok sample_crates"
  "ecdsa_ok sample_crates" "bincode_ok sample_crates" "lib_sig_ok sample_crates"
  "pk_serialize_inj sample_crates"
  by (auto simp: sample_crates_def hex_text_ok_def hex_roundtrip_ok_def sha3_len_ok_def ecdsa_ok_def
      bincode_ok_def lib_sig_ok_def pk_serialize_inj_def inj_on_def sample_hex_roundtrip
      sample_hex_text sample_sig_roundtrip sample_sig_length sample_sha3_def sample_verify_def
      sample_pk_serialize_def split: secret_key.splits public_key.splits
      dest: subsetD [OF sample_hex_text(1)])

end
