(* ===== verification/Key_Capsule.thy ===== *)
theory Key_Capsule
  imports Sample_Crates
begin

text \<open>
  \<open>types/key_capsule.rs\<close>: a capsule encrypts a message under a fresh key and that key for each
  recipient. The property shows that exactly the recipients can open it.
\<close>

section \<open>Key capsules\<close>

text \<open>The functions of the \<open>ecies\<close> crate, with secret keys given in serialised form.\<close>

record ecies =
  sk_serialize :: "secret_key \<Rightarrow> byte list"
  ecies_encrypt :: "byte list \<Rightarrow> byte list \<Rightarrow> string + byte list"
  ecies_decrypt :: "byte list \<Rightarrow> byte list \<Rightarrow> string + byte list"

text \<open>A message encrypted for a key pair's public key decrypts under its secret key.\<close>

definition ecies_ok :: "crates \<Rightarrow> ecies \<Rightarrow> bool" where
  "ecies_ok c x \<longleftrightarrow>
     (\<forall>sk m. \<exists>e. ecies_encrypt x (pk_serialize c (pk_from_secret_key c sk)) m = Inr e \<and>
               ecies_decrypt x (sk_serialize x sk) e = Inr m)"

record key_capsule =
  kc_msg :: "byte list"
  kc_keys :: "(byte list \<times> byte list) list"

text \<open>
  \<open>KeyCapsule::new\<close>. The fresh pair of \<open>generate_keypair\<close> is the argument \<open>esk\<close> with its public
  key; the \<open>unwrap\<close>s of the encryptions panic.
\<close>

definition key_capsule_new ::
  "crates \<Rightarrow> ecies \<Rightarrow> secret_key \<Rightarrow> byte list \<Rightarrow> public_key list \<Rightarrow> ('e, key_capsule) outcome" where
  "key_capsule_new c x esk msg recipients =
     obind (collect_outcome
              (\<lambda>r. obind (unwrap_result (ecies_encrypt x (pk_serialize c r) (sk_serialize x esk)))
                     (\<lambda>key. Done (pk_serialize c r, key)))
              recipients)
       (\<lambda>keys.
          obind (unwrap_result (ecies_encrypt x (pk_serialize c (pk_from_secret_key c esk)) msg))
            (\<lambda>m. Done \<lparr> kc_msg = m, kc_keys = keys \<rparr>))"

definition key_capsule_decrypt ::
  "crates \<Rightarrow> ecies \<Rightarrow> key_capsule \<Rightarrow> secret_key \<Rightarrow> string + byte list" where
  "key_capsule_decrypt c x k sk =
     (let pk = pk_serialize c (pk_from_secret_key c sk)
      in case find (\<lambda>(recipient, _). recipient = pk) (kc_keys k) of
           Some (_, key) \<Rightarrow>
             (case ecies_decrypt x (sk_serialize x sk) key of
                Inl e \<Rightarrow> Inl e
              | Inr key' \<Rightarrow> ecies_decrypt x key' (kc_msg k))
         | None \<Rightarrow> Inl ''recipient not present'')"

section \<open>Key capsules deliver to their recipients\<close>

lemma find_key_of:
  "list_all2 (\<lambda>r e. \<exists>key. f r = Inr key \<and> e = (g r, key)) rs es \<Longrightarrow> inj g \<Longrightarrow>
   find (\<lambda>(k, _). k = g r) es = (if r \<in> set rs then Some (g r, projr (f r)) else None)"
  by (induction rule: list_all2_induct) (auto dest: injD)

lemma key_capsule_new_keys:
  assumes "key_capsule_new c x esk msg rs = Done k"
  shows "list_all2 (\<lambda>r e. \<exists>key. ecies_encrypt x (pk_serialize c r) (sk_serialize x esk) = Inr key
                              \<and> e = (pk_serialize c r, key)) rs (kc_keys k)"
    and "ecies_encrypt x (pk_serialize c (pk_from_secret_key c esk)) msg = Inr (kc_msg k)"
  using assms
  by (auto simp: key_capsule_new_def outcome_simps collect_outcome_Done_iff
      elim!: list_all2_mono)

definition sample_ecies :: ecies where
  "sample_ecies =
     \<lparr> sk_serialize = (\<lambda>sk. case sk of SecretKey n \<Rightarrow> replicate n 1),
       ecies_encrypt = (\<lambda>k m. Inr (m @ k)),
       ecies_decrypt = (\<lambda>k e. Inr (take (length e - length k) e)) \<rparr>"

lemma sample_ecies_ok: "ecies_ok sample_crates sample_ecies"
  by (auto simp: ecies_ok_def sample_ecies_def sample_crates_def sample_pk_serialize_def
      split: secret_key.splits)

text \<open>
  opening a capsule with a secret key returns the original message when the key's public key is
  among the recipients, and the error \<open>recipient not present\<close> otherwise.
\<close>

theorem key_capsule_delivers:
  assumes "ecies_ok c x" and "pk_serialize_inj c" and "key_capsule_new c x esk msg rs = Done k"
  shows "key_capsule_decrypt c x k sk =
           (if pk_from_secret_key c sk \<in> set rs then Inr msg else Inl ''recipient not present'')"
proof -
  let ?pk = "pk_from_secret_key c sk"
  note find = find_key_of [OF key_capsule_new_keys(1) [OF assms(3)], of ?pk]
  have inj: "inj (pk_serialize c)" using assms(2) by (simp add: pk_serialize_inj_def)
  obtain key where "ecies_encrypt x (pk_serialize c ?pk) (sk_serialize x esk) = Inr key"
    and "ecies_decrypt x (sk_serialize x sk) key = Inr (sk_serialize x esk)"
    using assms(1) unfolding ecies_ok_def by blast
  moreover have "ecies_decrypt x (sk_serialize x esk) (kc_msg k) = Inr msg"
    using assms(1) key_capsule_new_keys(2) [OF assms(3)] unfolding ecies_ok_def
    by (metis sum.inject(2))
  ultimately show ?thesis
    using find [OF inj] by (simp add: key_capsule_decrypt_def)
qed

theorem key_capsule_delivers_witness:
  "\<exists>k. key_capsule_new sample_crates sample_ecies (SecretKey 9) [7, 8] [PublicKey 3, PublicKey 5] = (Done k :: (string, _) outcome) \<and>
       key_capsule_decrypt sample_crates sample_ecies k (SecretKey 5) = Inr [7, 8] \<and>
       key_capsule_decrypt sample_crates sample_ecies k (SecretKey 4) = Inl ''recipient not present''"
proof -
  let ?n = "key_capsule_new sample_crates sample_ecies (SecretKey 9) [7, 8] [PublicKey 3, PublicKey 5] :: (string, _) outcome"
  obtain k where k: "?n = Done k"
    by (simp add: key_capsule_new_def unwrap_result_def sample_ecies_def)
  note d = key_capsule_delivers [OF sample_ecies_ok sample_crates_ok(7) k]
  show ?thesis
    using k d [of "SecretKey 5"] d [of "SecretKey 4"] by (simp add: sample_crates_def)
qed

end
