(* ===== verification/Files.thy ===== *)
theory Files
  imports Sample_Crates
begin

text \<open>
  \<open>types/file.rs\<close>: where the files of transactions, tasks and programs live below the data
  directory, and the operations that copy and move them. The disk is a map from component lists to
  contents; the operating system's own failures are an argument \<open>io\<close> that gives the error of an
  operation, if any. Formatted error messages are constructors of \<open>file_error\<close>.
\<close>

section \<open>The disk\<close>

datatype io_op =
    TryExists path
  | CreateDirAll path
  | CopyFile path path
  | RenameFile path path
  | RemoveFile path
  | RemoveDirAll path
  | CreateFile path
  | AppendFile path
  | FlushFile path
  | OpenFile path

type_synonym io_errors = "io_op \<Rightarrow> string option"

type_synonym disk = "(component list, byte list) hmap"

definition fs_lookup :: "disk \<Rightarrow> path \<Rightarrow> byte list option" where
  "fs_lookup d p = hm_get d (components p)"

text \<open>\<open>tokio::fs::try_exists(p).await.unwrap_or(false)\<close>.\<close>

definition fs_exists :: "io_errors \<Rightarrow> disk \<Rightarrow> path \<Rightarrow> bool" where
  "fs_exists io d p \<longleftrightarrow> io (TryExists p) = None \<and> fs_lookup d p \<noteq> None"

definition fs_create_dir_all :: "io_errors \<Rightarrow> path \<Rightarrow> string + unit" where
  "fs_create_dir_all io p = (case io (CreateDirAll p) of Some e \<Rightarrow> Inl e | None \<Rightarrow> Inr ())"

definition fs_copy :: "io_errors \<Rightarrow> disk \<Rightarrow> path \<Rightarrow> path \<Rightarrow> string + disk" where
  "fs_copy io d src dst =
     (case io (CopyFile src dst) of
        Some e \<Rightarrow> Inl e
      | None \<Rightarrow>
          (case fs_lookup d src of
             None \<Rightarrow> Inl ''No such file or directory''
           | Some bs \<Rightarrow> Inr (hm_insert (components dst) bs d)))"

definition fs_rename :: "io_errors \<Rightarrow> disk \<Rightarrow> path \<Rightarrow> path \<Rightarrow> string + disk" where
  "fs_rename io d src dst =
     (case io (RenameFile src dst) of
        Some e \<Rightarrow> Inl e
      | None \<Rightarrow>
          (case fs_lookup d src of
             None \<Rightarrow> Inl ''No such file or directory''
           | Some bs \<Rightarrow> Inr (hm_insert (components dst) bs (hm_remove (components src) d))))"

definition fs_remove_file :: "io_errors \<Rightarrow> disk \<Rightarrow> path \<Rightarrow> string + disk" where
  "fs_remove_file io d p =
     (case io (RemoveFile p) of
        Some e \<Rightarrow> Inl e
      | None \<Rightarrow>
          (case fs_lookup d p of
             None \<Rightarrow> Inl ''No such file or directory''
           | Some _ \<Rightarrow> Inr (hm_remove (components p) d)))"

section \<open>Paths of files\<close>

definition IMAGES_DIR :: path where
  "IMAGES_DIR = ''images''"

definition TX_FILES_DIR :: path where
  "TX_FILES_DIR = ''txfiles''"

definition VM_FILES_DIR :: path where
  "VM_FILES_DIR = ''vmfiles''"

definition WORKSPACE_NAME :: path where
  "WORKSPACE_NAME = ''workspace''"

definition get_workspace_path :: "crates \<Rightarrow> path \<Rightarrow> hash \<Rightarrow> path" where
  "get_workspace_path c data_directory h =
     path_join (path_join (path_join (path_join [] data_directory) VM_FILES_DIR)
       (hash_display c h)) WORKSPACE_NAME"

definition vm_input_new :: "crates \<Rightarrow> string \<Rightarrow> hash \<Rightarrow> vm_input task_vm_file" where
  "vm_input_new c p h =
     \<lparr> vm_file_path = p,
       vm_extension = VmInput
         (path_push (path_push TX_FILES_DIR (hash_display c h)) (relative_part p)) \<rparr>"

definition vm_output_new :: "string \<Rightarrow> hash \<Rightarrow> vm_output task_vm_file" where
  "vm_output_new p h = \<lparr> vm_file_path = p, vm_extension = VmOutput h \<rparr>"

definition vm_output_relatif_path :: "crates \<Rightarrow> vm_output task_vm_file \<Rightarrow> path" where
  "vm_output_relatif_path c f =
     (case vm_extension f of
        VmOutput h \<Rightarrow>
          path_push (path_push VM_FILES_DIR (hash_display c h)) (relative_part (vm_file_path f)))"

definition tx_file_build :: "string \<Rightarrow> string \<Rightarrow> hash \<Rightarrow> 'e \<Rightarrow> 'e tx_file" where
  "tx_file_build n u k e =
     \<lparr> tf_name = n, tf_url = u, tf_checksum = k, tf_extention = e \<rparr>"

definition tx_file_new :: "string \<Rightarrow> string \<Rightarrow> hash \<Rightarrow> file_output tx_file" where
  "tx_file_new p host k = tx_file_build p host k Output"

definition tx_file_relatif_path :: "crates \<Rightarrow> file_output tx_file \<Rightarrow> hash \<Rightarrow> path" where
  "tx_file_relatif_path c f h =
     (let n = (case file_name (tf_name f) of None \<Rightarrow> [] | Some n \<Rightarrow> n)
      in path_push (path_push (path_push TX_FILES_DIR (hash_display c h))
           (hash_display c (tf_checksum f))) n)"

definition tx_file_exist ::
  "crates \<Rightarrow> io_errors \<Rightarrow> disk \<Rightarrow> file_output tx_file \<Rightarrow> path \<Rightarrow> hash \<Rightarrow> bool" where
  "tx_file_exist c io d f root h = fs_exists io d (path_join root (tx_file_relatif_path c f h))"

definition into_download_file :: "crates \<Rightarrow> file_output tx_file \<Rightarrow> hash \<Rightarrow> asset_file" where
  "into_download_file c f h =
     (let p = tx_file_relatif_path c f h
      in \<lparr> af_name = tf_name f, af_file_path = p, af_url = tf_url f @ ''/'' @ p,
           af_checksum = tf_checksum f, af_verify_exist = True \<rparr>)"

definition tx_file_of_db :: "db_file \<Rightarrow> file_output tx_file" where
  "tx_file_of_db f = tx_file_new (df_name f) (df_url f) (df_checksum f)"

definition try_from_prg_meta_data ::
  "crates \<Rightarrow> program_metadata \<Rightarrow> ('e, image tx_file) outcome" where
  "try_from_prg_meta_data c v =
     obind (hash_from_str c (pm_image_file_checksum v))
       (\<lambda>k. Done (tx_file_build (pm_image_file_name v) (pm_image_file_url v) k
                    (Image (pm_hash v))))"

definition asset_of_image :: "crates \<Rightarrow> image tx_file \<Rightarrow> asset_file" where
  "asset_of_image c f =
     (case tf_extention f of
        Image h \<Rightarrow>
          \<lparr> af_name = tf_name f,
            af_file_path = path_push (path_push IMAGES_DIR (hash_display c h)) (tf_name f),
            af_url = tf_url f, af_checksum = tf_checksum f, af_verify_exist = False \<rparr>)"

fun new_from_program_data ::
  "crates \<Rightarrow> program_data \<Rightarrow> hash \<Rightarrow> (string, asset_file option) outcome" where
  "new_from_program_data c (Input n u k) h =
     obind (of_sum (url_parse c u)) (\<lambda>_.
     obind (hash_from_str c k) (\<lambda>sum.
       Done (Some
         \<lparr> af_name = n,
           af_file_path =
             path_push (path_push TX_FILES_DIR (hash_display c h)) (relative_part n),
           af_url = u, af_checksum = sum, af_verify_exist = False \<rparr>)))"
| "new_from_program_data c (OutputOf _ _) h = Done None"

definition get_uri :: "asset_file \<Rightarrow> string" where
  "get_uri f = af_file_path f"

definition asset_exist :: "io_errors \<Rightarrow> disk \<Rightarrow> asset_file \<Rightarrow> path \<Rightarrow> bool" where
  "asset_exist io d f root =
     (if af_verify_exist f then fs_exists io d (path_join root (af_file_path f)) else False)"

section \<open>Operations on files\<close>

datatype file_error =
    MkdirFail path string
  | CopyFail path path string
  | IoError string
  | OutputFileNotFound hash string

definition copy_file_for_vm_exe ::
  "crates \<Rightarrow> io_errors \<Rightarrow> vm_input task_vm_file \<Rightarrow> path \<Rightarrow> hash \<Rightarrow> disk \<Rightarrow> file_error + disk" where
  "copy_file_for_vm_exe c io f data_dir h d =
     (let dst = path_join (path_join [] data_dir)
                  (vm_output_relatif_path c (vm_output_new (vm_file_path f) h));
          src = (case vm_extension f of VmInput s \<Rightarrow> path_join (path_join [] data_dir) s);
          mk = (case path_parent dst of
                  None \<Rightarrow> Inr ()
                | Some p \<Rightarrow>
                    (case fs_create_dir_all io p of Inl e \<Rightarrow> Inl (MkdirFail p e) | Inr u \<Rightarrow> Inr u))
      in case mk of
           Inl e \<Rightarrow> Inl e
         | Inr _ \<Rightarrow>
             (case fs_copy io d src dst of
                Inl e \<Rightarrow> Inl (CopyFail src dst e)
              | Inr d' \<Rightarrow> Inr d'))"

fun try_from_prg_data ::
  "crates \<Rightarrow> hash \<Rightarrow> file_output tx_file list \<Rightarrow> program_data \<Rightarrow> file_error + vm_input task_vm_file" where
  "try_from_prg_data c h fs (Input n _ _) = Inr (vm_input_new c n h)"
| "try_from_prg_data c h fs (OutputOf _ n) =
     (case find (\<lambda>f. tf_name f = n) fs of
        Some f \<Rightarrow>
          Inr \<lparr> vm_file_path = n, vm_extension = VmInput (tx_file_relatif_path c f h) \<rparr>
      | None \<Rightarrow> Inl (OutputFileNotFound h n))"

definition vm_output_remove_file ::
  "crates \<Rightarrow> io_errors \<Rightarrow> vm_output task_vm_file \<Rightarrow> path \<Rightarrow> disk \<Rightarrow> string + disk" where
  "vm_output_remove_file c io f base d =
     fs_remove_file io d (path_join base (vm_output_relatif_path c f))"

definition move_vmfile ::
  "crates \<Rightarrow> io_errors \<Rightarrow> vm_output task_vm_file \<Rightarrow> file_output tx_file \<Rightarrow> path \<Rightarrow> hash \<Rightarrow> disk
     \<Rightarrow> (file_error, disk) outcome" where
  "move_vmfile c io source dest base h d =
     (if tx_file_exist c io d dest base h
      then omap_err IoError (of_sum (vm_output_remove_file c io source base d))
      else
        (let src = path_join base (vm_output_relatif_path c source);
             dst = path_join base (tx_file_relatif_path c dest h)
         in obind (case path_parent dst of
                     None \<Rightarrow> Done ()
                   | Some p \<Rightarrow>
                       expect ''task file mkdir''
                         (case fs_create_dir_all io p of Inl _ \<Rightarrow> None | Inr u \<Rightarrow> Some u))
              (\<lambda>_. omap_err IoError (of_sum (fs_rename io d src dst)))))"

section \<open>Disk lemmas\<close>

lemma fs_lookup_insert [simp]:
  "fs_lookup (hm_insert (components p) bs d) q =
     (if components q = components p then Some bs else fs_lookup d q)"
  by (simp add: fs_lookup_def)

lemma fs_lookup_remove [simp]:
  "fs_lookup (hm_remove (components p) d) q =
     (if components q = components p then None else fs_lookup d q)"
  by (simp add: fs_lookup_def)

lemma fs_rename_Inr [outcome_simps]:
  "fs_rename io d s t = Inr d' \<longleftrightarrow>
     io (RenameFile s t) = None \<and>
     (\<exists>bs. fs_lookup d s = Some bs \<and>
           d' = hm_insert (components t) bs (hm_remove (components s) d))"
  by (auto simp: fs_rename_def split: option.splits)

lemma fs_remove_file_Inr [outcome_simps]:
  "fs_remove_file io d p = Inr d' \<longleftrightarrow>
     io (RemoveFile p) = None \<and> fs_lookup d p \<noteq> None \<and> d' = hm_remove (components p) d"
  by (auto simp: fs_remove_file_def split: option.splits)

lemma fs_copy_Inr [outcome_simps]:
  "fs_copy io d s t = Inr d' \<longleftrightarrow>
     io (CopyFile s t) = None \<and>
     (\<exists>bs. fs_lookup d s = Some bs \<and> d' = hm_insert (components t) bs d)"
  by (auto simp: fs_copy_def split: option.splits)

section \<open>Where files live\<close>

lemma file_dirs_plain [simp]:
  "plain_name TX_FILES_DIR" "plain_name VM_FILES_DIR" "plain_name IMAGES_DIR"
  "plain_name WORKSPACE_NAME"
  by (simp_all add: plain_name_def TX_FILES_DIR_def VM_FILES_DIR_def IMAGES_DIR_def
      WORKSPACE_NAME_def)

lemma plain_name_nonempty: "plain_name n \<Longrightarrow> n \<noteq> []"
  by (simp add: plain_name_def)

lemma components_plain: "plain_name n \<Longrightarrow> components n = [Normal n]"
  by (simp add: components_def body_components_Cons part_components_def skipped_def plain_name_def)

lemma file_dirs_nonempty [simp]: "TX_FILES_DIR \<noteq> []" "VM_FILES_DIR \<noteq> []" "IMAGES_DIR \<noteq> []"
  by (simp_all add: plain_name_nonempty)

lemma rel_components_Nil [simp]: "rel_components [] = []"
  by (simp add: rel_components_def body_components_Cons)

lemma is_absolute_Nil [simp]: "\<not> is_absolute []"
  by (simp add: is_absolute_def)

lemma tx_file_components:
  assumes "hex_text_ok c" and "hash_wf h" and "hash_wf (tf_checksum f)"
  shows "components (tx_file_relatif_path c f h) =
           [Normal TX_FILES_DIR, Normal (hash_display c h),
            Normal (hash_display c (tf_checksum f))] @
           (case file_name (tf_name f) of None \<Rightarrow> [] | Some n \<Rightarrow> [Normal n])"
proof -
  have "plain_name n" if "file_name (tf_name f) = Some n" for n
    using file_name_normal [OF that] by (simp add: plain_name_def)
  with assms show ?thesis
    by (simp add: tx_file_relatif_path_def hash_display_plain components_plain components_push
        split: option.splits)
qed

lemma tx_file_path_relative:
  assumes "hex_text_ok c" and "hash_wf h" and "hash_wf (tf_checksum f)"
  shows "\<not> is_absolute (tx_file_relatif_path c f h)"
proof -
  have "RootDir \<notin> set (components (tx_file_relatif_path c f h))"
    by (simp add: tx_file_components [OF assms] split: option.splits)
  then show ?thesis by (auto simp: components_def)
qed

lemma components_join:
  "b \<noteq> [] \<Longrightarrow> \<not> is_absolute p \<Longrightarrow> components (path_join b p) = components b @ rel_components p"
  by (simp add: path_join_def components_push)

lemma rel_components_relative:
  assumes "\<not> is_absolute p" and "CurDir \<notin> set (components p)"
  shows "rel_components p = components p"
  using assms by (auto simp: components_def rel_components_def)

section \<open>Moving a result file out of the VM's directory\<close>

lemma rel_components_push:
  "b \<noteq> [] \<Longrightarrow> \<not> is_absolute p \<Longrightarrow> rel_components (path_push b p) = rel_components b @ rel_components p"
proof -
  assume "b \<noteq> []" and "\<not> is_absolute p"
  moreover have "rel_components (s @ CHR ''/'' # t) = rel_components s @ rel_components t" for s t
    by (simp add: rel_components_def)
  moreover have "rel_components (s @ t) = rel_components s @ rel_components t"
    if "s \<noteq> []" and "last s = CHR ''/''" for s t
  proof -
    from that obtain s' where "s = s' @ [CHR ''/'']" by (metis append_butlast_last_id)
    then show ?thesis by (simp add: rel_components_def body_components_Cons)
  qed
  ultimately show ?thesis by (simp add: path_push_def)
qed

lemma vm_output_components:
  assumes "hex_text_ok c" and "hash_wf h" and "vm_extension f = VmOutput h" and "root \<noteq> []"
  shows "components (path_join root (vm_output_relatif_path c f)) =
           components root @ Normal VM_FILES_DIR # Normal (hash_display c h) #
           rel_components (relative_part (vm_file_path f))"
  using assms
  by (simp add: vm_output_relatif_path_def components_join rel_components_push hash_display_plain)

lemma tx_file_join_components:
  assumes "hex_text_ok c" and "hash_wf h" and "hash_wf (tf_checksum f)" and "root \<noteq> []"
  shows "\<exists>cs. components (path_join root (tx_file_relatif_path c f h)) =
               components root @ Normal TX_FILES_DIR # cs"
proof -
  let ?p = "tx_file_relatif_path c f h"
  have "rel_components ?p = components ?p"
    using assms tx_file_path_relative [OF assms(1-3)]
    by (intro rel_components_relative) (auto simp: tx_file_components split: option.splits)
  with assms tx_file_path_relative [OF assms(1-3)] show ?thesis
    by (simp add: components_join tx_file_components)
qed

lemma vm_tx_paths_differ:
  assumes "hex_text_ok c" and "hash_wf h" and "hash_wf k" and "hash_wf (tf_checksum dest)"
    and "vm_extension source = VmOutput k" and "base \<noteq> []"
  shows "components (path_join base (vm_output_relatif_path c source)) \<noteq>
         components (path_join base (tx_file_relatif_path c dest h))"
proof -
  have "Normal TX_FILES_DIR \<noteq> Normal VM_FILES_DIR"
    by (simp add: TX_FILES_DIR_def VM_FILES_DIR_def)
  then show ?thesis
    using vm_output_components [OF assms(1,3,5,6)] tx_file_join_components [OF assms(1,2,4,6)]
    by auto
qed

section \<open>Properties\<close>

definition sample_hash :: "byte \<Rightarrow> hash" where
  "sample_hash b = Hash (replicate 32 b)"

lemma sample_hash_wf [simp]: "hash_wf (sample_hash b)"
  by (simp add: sample_hash_def)

lemma sample_hash_inject [simp]: "sample_hash a = sample_hash b \<longleftrightarrow> a = b"
  by (simp add: sample_hash_def)



text \<open>
  files of different transactions, and files with different checksums, never share a path.
\<close>

theorem tx_file_paths_apart:
  assumes "hex_text_ok c" and "hex_roundtrip_ok c"
    and "hash_wf h" "hash_wf k" "hash_wf (tf_checksum f)" "hash_wf (tf_checksum g)"
    and "components (tx_file_relatif_path c f h) = components (tx_file_relatif_path c g k)"
  shows "h = k \<and> tf_checksum f = tf_checksum g"
  using assms by (simp add: tx_file_components hash_display_inject)

theorem tx_file_paths_apart_witness:
  "components (tx_file_relatif_path sample_crates (tx_file_new ''a'' ''http'' (sample_hash 1)) (sample_hash 2))
   \<noteq> components (tx_file_relatif_path sample_crates (tx_file_new ''a'' ''http'' (sample_hash 1)) (sample_hash 3))"
  using tx_file_paths_apart [of sample_crates "sample_hash 2" "sample_hash 3"
      "tx_file_new ''a'' ''http'' (sample_hash 1)" "tx_file_new ''a'' ''http'' (sample_hash 1)"]
  by (auto simp: tx_file_new_def tx_file_build_def)

text \<open>
  when \<open>move_vmfile\<close> succeeds, the VM's file is gone, the transaction's file holds the VM's
  content (or the content it already had), and no other file changed.
\<close>

theorem move_vmfile_effect:
  assumes "hex_text_ok c" and "hash_wf h" and "hash_wf k" and "hash_wf (tf_checksum dest)"
    and "vm_extension source = VmOutput k" and "base \<noteq> []"
    and "move_vmfile c io source dest base h d = Done d'"
  defines "src \<equiv> path_join base (vm_output_relatif_path c source)"
    and "dst \<equiv> path_join base (tx_file_relatif_path c dest h)"
  shows "fs_lookup d src \<noteq> None \<and> fs_lookup d' src = None \<and>
         fs_lookup d' dst = (if fs_exists io d dst then fs_lookup d dst else fs_lookup d src) \<and>
         (\<forall>p. components p \<noteq> components src \<longrightarrow> components p \<noteq> components dst \<longrightarrow>
              fs_lookup d' p = fs_lookup d p)"
proof -
  have ne: "components src \<noteq> components dst"
    unfolding src_def dst_def by (rule vm_tx_paths_differ [OF assms(1-6)])
  have "(fs_exists io d dst \<and> fs_remove_file io d src = Inr d') \<or>
        (\<not> fs_exists io d dst \<and> fs_rename io d src dst = Inr d')"
    using assms(7) unfolding move_vmfile_def src_def dst_def
    by (auto simp: outcome_simps Let_def tx_file_exist_def vm_output_remove_file_def
        split: if_splits)
  with ne show ?thesis by (auto simp: outcome_simps)
qed

definition sample_source :: "vm_output task_vm_file" where
  "sample_source = vm_output_new ''/workspace/proof.dat'' (sample_hash 1)"

definition sample_dest :: "file_output tx_file" where
  "sample_dest = tx_file_new ''proof.dat'' ''http'' (sample_hash 2)"

theorem move_vmfile_effect_witness:
  "\<exists>d'. move_vmfile sample_crates (\<lambda>_. None) sample_source sample_dest ''/data'' (sample_hash 3)
          [(components (path_join ''/data'' (vm_output_relatif_path sample_crates sample_source)), [7])] = Done d' \<and>
        fs_lookup d' (path_join ''/data'' (tx_file_relatif_path sample_crates sample_dest (sample_hash 3))) = Some [7]"
proof -
  let ?src = "path_join ''/data'' (vm_output_relatif_path sample_crates sample_source)"
  let ?dst = "path_join ''/data'' (tx_file_relatif_path sample_crates sample_dest (sample_hash 3))"
  let ?d = "[(components ?src, [7])]"
  have prems: "hex_text_ok sample_crates" "hash_wf (sample_hash 3)" "hash_wf (sample_hash 1)"
    "hash_wf (tf_checksum sample_dest)" "vm_extension sample_source = VmOutput (sample_hash 1)"
    "''/data'' \<noteq> ([] :: string)"
    by (simp_all add: sample_source_def sample_dest_def vm_output_new_def tx_file_new_def
        tx_file_build_def)
  have "components ?src \<noteq> components ?dst"
    by (rule vm_tx_paths_differ [OF prems])
  then have dst: "fs_lookup ?d ?dst = None" and src: "fs_lookup ?d ?src = Some [7]"
    by (simp_all add: fs_lookup_def hm_get_def)
  then obtain d' where d': "move_vmfile sample_crates (\<lambda>_. None) sample_source sample_dest ''/data''
      (sample_hash 3) ?d = Done d'"
    by (cases "path_parent ?dst")
       (simp_all add: move_vmfile_def tx_file_exist_def fs_exists_def fs_rename_def
        fs_create_dir_all_def Let_def)
  show ?thesis
    using d' dst src move_vmfile_effect [OF prems d'] by (simp add: fs_exists_def)
qed

text \<open>
  the input file of a Run transaction is saved at \<open>txfiles/<transaction hash>\<close> followed by the
  parts of its name as given, so that \<open>..\<close> parts of the name are kept.
\<close>

theorem input_asset_location:
  assumes "hex_text_ok c" and "hash_wf h" and "new_from_program_data c (Input n u k) h = Done (Some a)"
  shows "components (af_file_path a) =
           Normal TX_FILES_DIR # Normal (hash_display c h) # rel_components (relative_part n) \<and>
         Inr (hash_bytes (af_checksum a)) = hex_decode c k \<and> hash_wf (af_checksum a)"
  using assms
  by (auto simp: outcome_simps components_push hash_display_plain components_plain)

theorem input_asset_location_witness:
  "\<exists>a. new_from_program_data sample_crates
          (Input ''/../../x'' ''http'' (hash_display sample_crates (sample_hash 1))) (sample_hash 2) = Done (Some a) \<and>
       components (af_file_path a) =
         [Normal TX_FILES_DIR, Normal (hash_display sample_crates (sample_hash 2)), ParentDir, ParentDir, Normal ''x''] \<and>
       \<not> stays_under (path_push TX_FILES_DIR (hash_display sample_crates (sample_hash 2))) (af_file_path a)"
proof -
  let ?i = "Input ''/../../x'' ''http'' (hash_display sample_crates (sample_hash 1))"
  have u: "url_parse sample_crates ''http'' = Inr ''http''" by (simp add: sample_crates_def)
  obtain a where a: "new_from_program_data sample_crates ?i (sample_hash 2) = Done (Some a)"
    by (simp add: u hash_display_parse)
  have r: "rel_components (relative_part ''/../../x'') = [ParentDir, ParentDir, Normal ''x'']"
    by (simp add: rel_components_def relative_part_def is_absolute_def strip_root_def trim_parts_def
        skipped_def body_components_Cons part_components_def)
  have c: "components (path_push TX_FILES_DIR (hash_display sample_crates (sample_hash 2))) =
             [Normal TX_FILES_DIR, Normal (hash_display sample_crates (sample_hash 2))]"
    by (simp add: hash_display_plain components_plain)
  show ?thesis
    using a input_asset_location [OF _ _ a] by (simp add: r c stays_under_def)
qed

text \<open>
  the image of a deployed program whose file name is an absolute path is saved at that path
  and not below the image directory of the program.
\<close>

theorem image_absolute_name_escapes:
  assumes "is_absolute (tf_name f)"
  shows "path_join root (af_file_path (asset_of_image c f)) = tf_name f"
  using assms by (cases "tf_extention f") (simp add: asset_of_image_def path_join_def)

theorem image_absolute_name_escapes_witness:
  "path_join ''/data'' (af_file_path (asset_of_image sample_crates
     (tx_file_build ''/etc/passwd'' ''http'' (sample_hash 1) (Image (sample_hash 2))))) = ''/etc/passwd''"
  using image_absolute_name_escapes [of "tx_file_build ''/etc/passwd'' ''http'' (sample_hash 1) (Image (sample_hash 2))"]
  by (simp add: tx_file_build_def is_absolute_def)

end
