(* ===== verification/Transactions.thy ===== *)
theory Transactions
  imports Files
begin

text \<open>
  \<open>types/transaction.rs\<close>: the byte serialisation of payloads, transaction hashes, signing,
  verification and validation of transactions, and the list of files a received transaction needs.
  Hashing can panic where the source unwraps a serialisation or converts a slice, so it returns an
  \<open>outcome\<close> (with the error type of validation, which hashing never uses); \<open>tx_preimage\<close> is the byte string that is hashed.
\<close>

section \<open>Serialisation\<close>

text \<open>The source appends to a buffer; each function here returns the bytes it appends.\<close>

definition metadata_update_hash ::
  "crates \<Rightarrow> program_metadata \<Rightarrow> ('e, program_metadata) outcome" where
  "metadata_update_hash c m =
     obind (hash_from_slice (take 32 (sha3_256 c
        (as_bytes (pm_name m) @ as_bytes (pm_image_file_name m) @
         as_bytes (pm_image_file_url m) @ as_bytes (pm_image_file_checksum m)))))
       (\<lambda>h. Done (m\<lparr> pm_hash := h \<rparr>))"

definition metadata_serialize :: "program_metadata \<Rightarrow> byte list" where
  "metadata_serialize m =
     as_bytes (pm_name m) @ hash_to_vec (pm_hash m) @ as_bytes (pm_image_file_name m) @
     as_bytes (pm_image_file_url m) @ as_bytes (pm_image_file_checksum m)"

fun program_data_serialize :: "program_data \<Rightarrow> byte list" where
  "program_data_serialize (Input n u k) = as_bytes n @ as_bytes u @ as_bytes k"
| "program_data_serialize (OutputOf p n) = hash_to_vec p @ as_bytes n"

definition step_serialize :: "workflow_step \<Rightarrow> byte list" where
  "step_serialize s =
     hash_to_vec (ws_program s) @ concat (map as_bytes (ws_args s)) @
     concat (map program_data_serialize (ws_inputs s))"

definition workflow_serialize :: "workflow \<Rightarrow> byte list" where
  "workflow_serialize w = concat (map step_serialize (steps w))"

fun payload_serialize :: "crates \<Rightarrow> payload \<Rightarrow> (transaction_error, byte list) outcome" where
  "payload_serialize c Empty = Done []"
| "payload_serialize c (Transfer recipient v) =
     Done (pk_serialize c recipient @ bigint_to_signed_bytes_be c v)"
| "payload_serialize c (Stake v) = Done (bigint_to_signed_bytes_be c v)"
| "payload_serialize c (Unstake v) = Done (bigint_to_signed_bytes_be c v)"
| "payload_serialize c (Deploy n p v) =
     Done (as_bytes n @ metadata_serialize p @ metadata_serialize v)"
| "payload_serialize c (Run w) = Done (workflow_serialize w)"
| "payload_serialize c (Proof parent prover proof files) =
     obind (unwrap_result (bincode_tx_files c files))
       (\<lambda>fs. Done (hash_to_vec parent @ hash_to_vec prover @ proof @ proof @ fs))"
| "payload_serialize c (ProofKey parent key) = Done (hash_to_vec parent @ key)"
| "payload_serialize c (Verification parent verifier verification files) =
     obind (unwrap_result (bincode_tx_files c files))
       (\<lambda>fs. Done (hash_to_vec parent @ hash_to_vec verifier @ verification @ fs))"
| "payload_serialize c (Cancel parent) = Done (hash_to_vec parent)"

fun payload_display :: "payload \<Rightarrow> string" where
  "payload_display Empty = ''(Empty)''"
| "payload_display (Transfer _ _) = ''(Transfer)''"
| "payload_display (Stake _) = ''(Stake)''"
| "payload_display (Unstake _) = ''(Unstake)''"
| "payload_display (Deploy _ _ _) = ''(Deploy)''"
| "payload_display (Run _) = ''(Run)''"
| "payload_display (Proof _ _ _ _) = ''(Proof)''"
| "payload_display (ProofKey _ _) = ''(ProofKey)''"
| "payload_display (Verification _ _ _ _) = ''(Verification)''"
| "payload_display (Cancel _) = ''(Cancel)''"

section \<open>Payload accessors\<close>

fun get_parent_tx :: "payload \<Rightarrow> hash option" where
  "get_parent_tx (Proof parent _ _ _) = Some parent"
| "get_parent_tx (ProofKey parent _) = Some parent"
| "get_parent_tx (Verification parent _ _ _) = Some parent"
| "get_parent_tx _ = None"

fun get_deploy_programs :: "payload \<Rightarrow> hash list" where
  "get_deploy_programs (Deploy _ prover verifier) = [pm_hash prover, pm_hash verifier]"
| "get_deploy_programs _ = []"

fun get_run_programs_dep :: "payload \<Rightarrow> hash list" where
  "get_run_programs_dep (Run w) = map ws_program (steps w)"
| "get_run_programs_dep _ = []"

fun is_run_payload :: "payload \<Rightarrow> bool" where
  "is_run_payload (Run _) = True"
| "is_run_payload _ = False"

section \<open>Transactions\<close>

definition is_from_tx_exec_result :: "received \<Rightarrow> bool" where
  "is_from_tx_exec_result s \<longleftrightarrow> s = TXRESULT"

definition tx_preimage :: "crates \<Rightarrow> 'st transaction \<Rightarrow> (transaction_error, byte list) outcome" where
  "tx_preimage c tx =
     obind (payload_serialize c (tx_payload tx))
       (\<lambda>buf. Done (pk_serialize c (tx_author tx) @ buf @ u64_to_be_bytes (tx_nonce tx)))"

definition compute_hash :: "crates \<Rightarrow> 'st transaction \<Rightarrow> (transaction_error, hash) outcome" where
  "compute_hash c tx =
     obind (tx_preimage c tx) (\<lambda>bs. hash_from_slice (take 32 (sha3_256 c bs)))"

definition transaction_default :: "crates \<Rightarrow> 'st \<Rightarrow> 'st transaction" where
  "transaction_default c st =
     \<lparr> tx_author = pk_from_secret_key c (sk_default c), tx_hash = hash_default,
       tx_payload = Empty, tx_nonce = 0, tx_signature = signature_default,
       tx_propagated = False, tx_executed = False, tx_state = st \<rparr>"

definition transaction_sign ::
  "crates \<Rightarrow> created transaction \<Rightarrow> secret_key \<Rightarrow> (transaction_error, created transaction) outcome" where
  "transaction_sign c tx key =
     obind (compute_hash c tx)
       (\<lambda>h. let sig = ecdsa_sign c (hash_to_message h) key
            in Done (tx\<lparr> tx_hash := h, tx_signature := signature_from_lib sig \<rparr>))"

definition transaction_new ::
  "crates \<Rightarrow> payload \<Rightarrow> secret_key \<Rightarrow> (transaction_error, created transaction) outcome" where
  "transaction_new c p key =
     transaction_sign c
       \<lparr> tx_author = pk_from_secret_key c key, tx_hash = hash_default, tx_payload = p,
         tx_nonce = 0, tx_signature = signature_default,
         tx_propagated = False, tx_executed = False, tx_state = Created \<rparr> key"

text \<open>All the changes of type state copy every field but the state.\<close>

definition with_state :: "'b \<Rightarrow> 'a transaction \<Rightarrow> 'b transaction" where
  "with_state st tx =
     \<lparr> tx_author = tx_author tx, tx_hash = tx_hash tx, tx_payload = tx_payload tx,
       tx_nonce = tx_nonce tx, tx_signature = tx_signature tx,
       tx_propagated = tx_propagated tx, tx_executed = tx_executed tx, tx_state = st \<rparr>"

definition into_received :: "created transaction \<Rightarrow> received \<Rightarrow> received transaction" where
  "into_received tx st = with_state st tx"

definition transaction_verify :: "crates \<Rightarrow> received transaction \<Rightarrow> (transaction_error, bool) outcome" where
  "transaction_verify c tx =
     obind (compute_hash c tx)
       (\<lambda>h. Done (ecdsa_verify c (hash_to_message h) (signature_to_lib (tx_signature tx))
                    (tx_author tx)))"

fun validate_steps ::
  "crates \<Rightarrow> hash set \<Rightarrow> workflow_step list \<Rightarrow> transaction_error + unit" where
  "validate_steps c programs [] = Inr ()"
| "validate_steps c programs (s # ss) =
     (if ws_program s \<in> programs
      then Inl (Validation (''multiple programs in workflow: '' @ hash_display c (ws_program s)))
      else validate_steps c (insert (ws_program s) programs) ss)"

definition transaction_validate ::
  "crates \<Rightarrow> received transaction \<Rightarrow> (transaction_error, unit) outcome" where
  "transaction_validate c tx =
     obind (of_sum (case tx_payload tx of
                      Run w \<Rightarrow> validate_steps c {} (steps w)
                    | _ \<Rightarrow> Inr ()))
       (\<lambda>_. obind (transaction_verify c tx)
         (\<lambda>ok. if ok then Done () else Failed (Validation ''signature verification failed'')))"

definition get_asset_list ::
  "crates \<Rightarrow> received transaction \<Rightarrow> (string, asset_file list) outcome" where
  "get_asset_list c tx =
     (case tx_payload tx of
        Deploy _ prover verifier \<Rightarrow>
          obind (try_from_prg_meta_data c prover) (\<lambda>p.
          obind (try_from_prg_meta_data c verifier) (\<lambda>v.
            Done [asset_of_image c p, asset_of_image c v]))
      | Run w \<Rightarrow>
          obind (collect_outcome (\<lambda>i. new_from_program_data c i (tx_hash tx))
                   (concat (map ws_inputs (steps w))))
            (\<lambda>os. Done (List.map_filter id os))
      | Proof _ _ _ files \<Rightarrow>
          (if is_from_tx_exec_result (tx_state tx) then Done []
           else Done (map (\<lambda>f. into_download_file c f (tx_hash tx)) files))
      | Verification _ _ _ files \<Rightarrow>
          (if is_from_tx_exec_result (tx_state tx) then Done []
           else Done (map (\<lambda>f. into_download_file c f (tx_hash tx)) files))
      | _ \<Rightarrow> Done [])"

section \<open>Hashing\<close>

lemma with_state_simps [simp]:
  "tx_author (with_state st tx) = tx_author tx" "tx_hash (with_state st tx) = tx_hash tx"
  "tx_payload (with_state st tx) = tx_payload tx" "tx_nonce (with_state st tx) = tx_nonce tx"
  "tx_signature (with_state st tx) = tx_signature tx"
  "tx_propagated (with_state st tx) = tx_propagated tx"
  "tx_executed (with_state st tx) = tx_executed tx" "tx_state (with_state st tx) = st"
  by (simp_all add: with_state_def)

lemma with_state_twice [simp]: "with_state s (with_state t tx) = with_state s tx"
  by (simp add: with_state_def)

lemma into_received_simps [simp]:
  "tx_author (into_received tx st) = tx_author tx" "tx_hash (into_received tx st) = tx_hash tx"
  "tx_payload (into_received tx st) = tx_payload tx" "tx_nonce (into_received tx st) = tx_nonce tx"
  "tx_signature (into_received tx st) = tx_signature tx" "tx_state (into_received tx st) = st"
  by (simp_all add: into_received_def)

lemma compute_hash_cong:
  assumes "tx_author t = tx_author u" "tx_payload t = tx_payload u" "tx_nonce t = tx_nonce u"
  shows "compute_hash c t = compute_hash c u"
  using assms by (simp add: compute_hash_def tx_preimage_def)

lemma payload_serialize_total:
  "bincode_ok c \<Longrightarrow> \<exists>bs. payload_serialize c p = Done bs"
proof (cases p)
  case (Proof a b d fs)
  assume "bincode_ok c"
  then obtain bs where "bincode_tx_files c fs = Inr bs"
    unfolding bincode_ok_def by (metis isl_def sum.exhaust)
  with Proof show ?thesis by (simp add: unwrap_result_def)
next
  case (Verification a b d fs)
  assume "bincode_ok c"
  then obtain bs where "bincode_tx_files c fs = Inr bs"
    unfolding bincode_ok_def by (metis isl_def sum.exhaust)
  with Verification show ?thesis by (simp add: unwrap_result_def)
qed auto

lemma compute_hash_total:
  assumes "bincode_ok c" and "sha3_len_ok c"
  shows "\<exists>h. compute_hash c tx = Done h \<and> hash_wf h"
proof -
  obtain bs where "payload_serialize c (tx_payload tx) = Done bs"
    using payload_serialize_total [OF assms(1)] by blast
  with assms(2) show ?thesis
    by (simp add: compute_hash_def tx_preimage_def sha3_len_ok_def hash_from_slice_def
        try_into_hash_def HASH_SIZE_def)
qed

lemma compute_hash_wf: "compute_hash c tx = Done h \<Longrightarrow> hash_wf h"
  by (auto simp: compute_hash_def outcome_simps)

text \<open>The nonce is always part of what is hashed: it can be read back from the last eight bytes.\<close>

lemma tx_preimage_nonce:
  assumes "tx_preimage c t = Done bs"
  shows "u64_from_be_bytes (drop (length bs - 8) bs) = tx_nonce t"
  using assms by (auto simp: tx_preimage_def outcome_simps)

lemma tx_preimage_parts:
  assumes "tx_preimage c t = Done bs"
    and "tx_preimage c u = Done bs"
    and "length (pk_serialize c (tx_author t)) = length (pk_serialize c (tx_author u))"
  shows "pk_serialize c (tx_author t) = pk_serialize c (tx_author u)"
    and "tx_nonce t = tx_nonce u"
    and "payload_serialize c (tx_payload t) = (payload_serialize c (tx_payload u))"
proof -
  from assms show "tx_nonce t = tx_nonce u" by (metis tx_preimage_nonce)
  from assms obtain x y where
    x: "payload_serialize c (tx_payload t) = Done x" and
    y: "payload_serialize c (tx_payload u) = Done y" and
    eq: "pk_serialize c (tx_author t) @ x @ u64_to_be_bytes (tx_nonce t) =
         pk_serialize c (tx_author u) @ y @ u64_to_be_bytes (tx_nonce u)"
    by (auto simp: tx_preimage_def outcome_simps)
  from eq assms(3) show "pk_serialize c (tx_author t) = pk_serialize c (tx_author u)" by simp
  from eq assms(3) x y show "payload_serialize c (tx_payload t) =
      (payload_serialize c (tx_payload u))" by simp
qed

section \<open>Signing and validation\<close>

lemma transaction_sign_Done:
  "transaction_sign c tx key = Done t \<longleftrightarrow>
     (\<exists>h. compute_hash c tx = Done h \<and>
          t = tx\<lparr> tx_hash := h,
                  tx_signature := signature_from_lib (ecdsa_sign c (hash_to_message h) key) \<rparr>)"
  by (auto simp: transaction_sign_def outcome_simps Let_def)

lemma sign_then_verify:
  assumes "ecdsa_ok c" and "tx_author tx = pk_from_secret_key c key"
    and "transaction_sign c tx key = Done t"
  shows "transaction_verify c (into_received t st) = Done True"
proof -
  obtain h where h: "compute_hash c tx = Done h" and t: "t = tx\<lparr> tx_hash := h,
      tx_signature := signature_from_lib (ecdsa_sign c (hash_to_message h) key) \<rparr>"
    using assms(3) transaction_sign_Done by blast
  have "compute_hash c (into_received t st) = Done h"
    using h compute_hash_cong [of "into_received t st" tx c] t by simp
  with assms(1,2) t show ?thesis
    by (simp add: transaction_verify_def ecdsa_ok_def)
qed

lemma validate_steps_ok:
  "validate_steps c ps ss = Inr () \<longleftrightarrow>
     distinct (map ws_program ss) \<and> ps \<inter> ws_program ` set ss = {}"
  by (induction ss arbitrary: ps) auto

lemma validate_steps_error:
  "validate_steps c ps ss = Inl e \<Longrightarrow>
   \<exists>s\<in>set ss. e = Validation (''multiple programs in workflow: '' @ hash_display c (ws_program s))"
  by (induction ss arbitrary: ps) (auto split: if_splits)

lemma validate_steps_distinct:
  "validate_steps c ps ss = Inl e \<Longrightarrow> ps \<inter> ws_program ` set ss = {} \<Longrightarrow> \<not> distinct (map ws_program ss)"
  using validate_steps_ok [of c ps ss] by auto

lemma transaction_validate_ok:
  "transaction_validate c tx = Done () \<longleftrightarrow>
     distinct (get_run_programs_dep (tx_payload tx)) \<and> transaction_verify c tx = Done True"
  by (cases "tx_payload tx")
     (auto simp: transaction_validate_def outcome_simps validate_steps_ok)

lemma payload_serialize_not_Failed [simp]: "payload_serialize c p \<noteq> Failed e"
  by (cases p) (auto simp: outcome_simps)

lemma compute_hash_not_Failed [simp]: "compute_hash c tx \<noteq> Failed e"
  by (auto simp: compute_hash_def tx_preimage_def hash_from_slice_def outcome_simps)

lemma transaction_verify_not_Failed [simp]: "transaction_verify c tx \<noteq> Failed e"
  by (auto simp: transaction_verify_def outcome_simps)

lemma new_transaction_ok:
  assumes "ecdsa_ok c" and "bincode_ok c" and "sha3_len_ok c"
    and "distinct (get_run_programs_dep p)"
  shows "\<exists>t. transaction_new c p key = Done t \<and> tx_payload t = p \<and>
             compute_hash c t = Done (tx_hash t) \<and>
             transaction_validate c (into_received t st) = Done ()"
proof -
  let ?tx = "\<lparr> tx_author = pk_from_secret_key c key, tx_hash = hash_default, tx_payload = p,
         tx_nonce = 0, tx_signature = signature_default,
         tx_propagated = False, tx_executed = False, tx_state = Created \<rparr>"
  obtain h where h: "compute_hash c ?tx = Done h"
    using compute_hash_total [OF assms(2,3)] by blast
  then obtain t where t: "transaction_new c p key = Done t" and th: "tx_hash t = h"
    and same: "tx_author t = tx_author ?tx" "tx_payload t = p" "tx_nonce t = tx_nonce ?tx"
    by (simp add: transaction_new_def transaction_sign_Done)
  have "transaction_verify c (into_received t st) = Done True"
    using t by (intro sign_then_verify [OF assms(1)]) (simp_all add: transaction_new_def)
  with same assms(4) have "transaction_validate c (into_received t st) = Done ()"
    by (simp add: transaction_validate_ok)
  moreover have "compute_hash c t = Done (tx_hash t)"
    using h th same compute_hash_cong [of t ?tx c] by simp
  ultimately show ?thesis using t same by blast
qed

section \<open>Properties\<close>

text \<open>
  C17: a transaction made by \<open>Transaction::new\<close> carries the hash of its content and passes
  \<open>validate\<close> wherever it is received, provided its workflow names no program twice.
\<close>

theorem new_transaction_validates:
  assumes "ecdsa_ok c" and "bincode_ok c" and "sha3_len_ok c"
    and "distinct (get_run_programs_dep p)"
  shows "\<exists>t. transaction_new c p key = Done t \<and> tx_payload t = p \<and>
             compute_hash c t = Done (tx_hash t) \<and>
             transaction_validate c (into_received t st) = Done ()"
  by (rule new_transaction_ok [OF assms])

definition sample_step :: "byte \<Rightarrow> workflow_step" where
  "sample_step b = \<lparr> ws_program = Hash (replicate 32 b), ws_args = [], ws_inputs = [] \<rparr>"

theorem new_transaction_validates_witness:
  "\<exists>t. transaction_new sample_crates (Run \<lparr> steps = [sample_step 1, sample_step 2] \<rparr>) (SecretKey 4) = Done t \<and>
       transaction_validate sample_crates (into_received t RPC) = Done ()"
  using new_transaction_validates [of sample_crates "Run \<lparr> steps = [sample_step 1, sample_step 2] \<rparr>"
      "SecretKey 4" RPC]
  by (auto simp: sample_step_def)

text \<open>
  \<open>validate\<close> accepts a received transaction exactly when no program occurs twice in its
  workflow and the signature verifies, under the author's key, for the hash recomputed from
  author, payload and nonce.
\<close>

theorem validate_accepts_iff:
  "transaction_validate c tx = Done () \<longleftrightarrow>
     distinct (get_run_programs_dep (tx_payload tx)) \<and>
     (\<exists>h. compute_hash c tx = Done h \<and>
          ecdsa_verify c (hash_to_message h) (signature_to_lib (tx_signature tx)) (tx_author tx))"
  by (simp add: transaction_validate_ok transaction_verify_def outcome_simps)

text \<open>
  when \<open>validate\<close> rejects a transaction, the error names a program of its workflow that occurs
  more than once, or the workflow is fine and the signature does not verify.
\<close>

theorem validate_rejects:
  assumes "transaction_validate c tx = Failed e"
  shows "(\<exists>h\<in>set (get_run_programs_dep (tx_payload tx)).
            \<not> distinct (get_run_programs_dep (tx_payload tx)) \<and>
            e = Validation (''multiple programs in workflow: '' @ hash_display c h)) \<or>
         distinct (get_run_programs_dep (tx_payload tx)) \<and>
         e = Validation ''signature verification failed'' \<and> transaction_verify c tx = Done False"
proof -
  define r where "r = (case tx_payload tx of Run w \<Rightarrow> validate_steps c {} (steps w) | _ \<Rightarrow> Inr ())"
  from assms consider "r = Inl e" |
      "r = Inr ()" "transaction_verify c tx = Done False" "e = Validation ''signature verification failed''"
    by (auto simp: transaction_validate_def r_def [symmetric] outcome_simps split: if_splits)
  then show ?thesis
  proof cases
    case 1
    then obtain w where "tx_payload tx = Run w" and "validate_steps c {} (steps w) = Inl e"
      by (cases "tx_payload tx") (auto simp: r_def)
    then show ?thesis
      using validate_steps_error [of c "{}" "steps w" e] validate_steps_distinct [of c "{}" "steps w" e]
      by auto
  next
    case 2
    then show ?thesis by (cases "tx_payload tx") (auto simp: r_def validate_steps_ok)
  qed
qed

theorem validate_rejects_witness:
  "\<exists>e. transaction_validate sample_crates ((with_state P2P (transaction_default sample_crates Created))
          \<lparr> tx_payload := Run \<lparr> steps = [sample_step 1, sample_step 1] \<rparr> \<rparr>) = Failed e \<and>
       e = Validation (''multiple programs in workflow: '' @ hash_display sample_crates (Hash (replicate 32 1)))"
proof -
  let ?t = "(with_state P2P (transaction_default sample_crates Created))
              \<lparr> tx_payload := Run \<lparr> steps = [sample_step 1, sample_step 1] \<rparr> \<rparr>"
  obtain e where e: "transaction_validate sample_crates ?t = Failed e"
    by (simp add: transaction_validate_def sample_step_def)
  show ?thesis using e validate_rejects [OF e] by (auto simp: sample_step_def)
qed

text \<open>
  neither the stored hash of a transaction nor the resource requirements of deployed programs
  are covered by validation: changing them never changes the verdict.
\<close>

theorem validate_ignores_hash_and_resources:
  "transaction_validate c (tx\<lparr> tx_hash := h,
       tx_payload := Deploy n (p\<lparr> pm_resource_requirements := r \<rparr>)
                              (v\<lparr> pm_resource_requirements := r' \<rparr>) \<rparr>) =
   transaction_validate c (tx\<lparr> tx_payload := Deploy n p v \<rparr>)"
  by (simp add: transaction_validate_def transaction_verify_def compute_hash_def tx_preimage_def
      metadata_serialize_def)

end
