(* ===== verification/Tx_Cache.thy ===== *)
theory Tx_Cache
  imports Transactions
begin

text \<open>
  The transaction events and the cache of waiting transactions of \<open>mempool/event.rs\<close>. The marker
  types of \<open>TxEvent<T>\<close> are one-constructor types, so that the pipeline order of the source is also
  the typing of the model. The \<open>lru\<close> crate is the record \<open>lru_ops\<close> with the contract \<open>lru_ok\<close>;
  instants are milliseconds, and one operation reads the clock once.
\<close>

section \<open>Events\<close>

datatype received_tx = ReceivedTx

datatype download_tx = DownloadTx

datatype wait_tx = WaitTx

datatype new_tx = NewTx

datatype propagate_tx = PropagateTx

record 't tx_event =
  ev_tx :: "received transaction"
  ev_type :: 't

definition event_of_tx :: "received transaction \<Rightarrow> received_tx tx_event" where
  "event_of_tx tx = \<lparr> ev_tx = tx, ev_type = ReceivedTx \<rparr>"

definition download_of_received :: "received_tx tx_event \<Rightarrow> download_tx tx_event" where
  "download_of_received e = \<lparr> ev_tx = ev_tx e, ev_type = DownloadTx \<rparr>"

definition wait_of_download :: "download_tx tx_event \<Rightarrow> wait_tx tx_event" where
  "wait_of_download e = \<lparr> ev_tx = ev_tx e, ev_type = WaitTx \<rparr>"

definition propagate_of_download :: "download_tx tx_event \<Rightarrow> propagate_tx tx_event option" where
  "propagate_of_download e =
     (case tx_state (ev_tx e) of
        P2P \<Rightarrow> None
      | RPC \<Rightarrow> Some \<lparr> ev_tx = ev_tx e, ev_type = PropagateTx \<rparr>
      | TXRESULT \<Rightarrow> Some \<lparr> ev_tx = ev_tx e, ev_type = PropagateTx \<rparr>)"

definition new_of_wait :: "wait_tx tx_event \<Rightarrow> new_tx tx_event" where
  "new_of_wait e = \<lparr> ev_tx = ev_tx e, ev_type = NewTx \<rparr>"

section \<open>The cache\<close>

definition MAX_CACHED_TX_FOR_VERIFICATION :: nat where
  "MAX_CACHED_TX_FOR_VERIFICATION = 50"

definition MAX_WAITING_TX_FOR_VERIFICATION :: nat where
  "MAX_WAITING_TX_FOR_VERIFICATION = 100"

definition MAX_WAITING_TIME_IN_MS :: nat where
  "MAX_WAITING_TIME_IN_MS = 3600 * 1000"

text \<open>
  The least-recently-used cache of the \<open>lru\<close> crate: \<open>put\<close> makes a key present and may evict others,
  \<open>contains\<close> does not change the order.
\<close>

record 'c lru_ops =
  lru_new :: "nat \<Rightarrow> 'c"
  lru_contains :: "'c \<Rightarrow> hash \<Rightarrow> bool"
  lru_put :: "hash \<Rightarrow> 'c \<Rightarrow> 'c"

definition lru_ok :: "'c lru_ops \<Rightarrow> bool" where
  "lru_ok L \<longleftrightarrow>
     (\<forall>n k. \<not> lru_contains L (lru_new L n) k) \<and>
     (\<forall>k c. lru_contains L (lru_put L k c) k) \<and>
     (\<forall>k c k'. lru_contains L (lru_put L k c) k' \<longrightarrow> k' = k \<or> lru_contains L c k')"

record 'c tx_cache =
  waiting_tx :: "(hash, wait_tx tx_event list \<times> nat) hmap"
  cached_tx_for_verification :: 'c
  max_waiting_tx :: nat
  max_waiting_time :: nat

definition tx_cache_build ::
  "'c lru_ops \<Rightarrow> nat \<Rightarrow> nat \<Rightarrow> nat \<Rightarrow> ('e, 'c tx_cache) outcome" where
  "tx_cache_build L cache_size max_waiting max_time =
     obind (expect ''unwrap'' (if cache_size = 0 then None else Some cache_size))
       (\<lambda>n. Done
         \<lparr> waiting_tx = hm_empty, cached_tx_for_verification = lru_new L n,
           max_waiting_tx = max_waiting, max_waiting_time = max_time \<rparr>)"

definition tx_cache_new :: "'c lru_ops \<Rightarrow> ('e, 'c tx_cache) outcome" where
  "tx_cache_new L =
     tx_cache_build L MAX_CACHED_TX_FOR_VERIFICATION MAX_WAITING_TX_FOR_VERIFICATION
       MAX_WAITING_TIME_IN_MS"

definition is_tx_cached :: "'c lru_ops \<Rightarrow> 'c tx_cache \<Rightarrow> hash \<Rightarrow> bool" where
  "is_tx_cached L c h = lru_contains L (cached_tx_for_verification c) h"

definition add_cached_tx :: "'c lru_ops \<Rightarrow> hash \<Rightarrow> 'c tx_cache \<Rightarrow> 'c tx_cache" where
  "add_cached_tx L h c =
     c\<lparr> cached_tx_for_verification := lru_put L h (cached_tx_for_verification c) \<rparr>"

definition evict_old_waiting_tx :: "nat \<Rightarrow> 'c tx_cache \<Rightarrow> 'c tx_cache" where
  "evict_old_waiting_tx now c =
     (let to_remove_hash =
        map fst (filter (\<lambda>(_, _, ts). now - ts > max_waiting_time c) (waiting_tx c))
      in c\<lparr> waiting_tx := fold hm_remove to_remove_hash (waiting_tx c) \<rparr>)"

definition add_new_waiting_tx ::
  "nat \<Rightarrow> hash \<Rightarrow> wait_tx tx_event \<Rightarrow> 'c tx_cache \<Rightarrow> 'c tx_cache" where
  "add_new_waiting_tx now parent e c =
     (let c1 = (if length (waiting_tx c) \<ge> max_waiting_tx c then evict_old_waiting_tx now c else c);
          (txs, ts) = (case hm_get (waiting_tx c1) parent of None \<Rightarrow> ([], now) | Some v \<Rightarrow> v)
      in c1\<lparr> waiting_tx := hm_insert parent (txs @ [e], ts) (waiting_tx c1) \<rparr>)"

definition remove_waiting_children_txs ::
  "hash \<Rightarrow> 'c tx_cache \<Rightarrow> wait_tx tx_event list \<times> 'c tx_cache" where
  "remove_waiting_children_txs parent c =
     ((case hm_get (waiting_tx c) parent of None \<Rightarrow> [] | Some (txs, _) \<Rightarrow> txs),
      c\<lparr> waiting_tx := hm_remove parent (waiting_tx c) \<rparr>)"

section \<open>The events that wait\<close>

definition cache_ok :: "'c tx_cache \<Rightarrow> bool" where
  "cache_ok c \<longleftrightarrow> hm_ok (waiting_tx c)"

text \<open>All waiting events, as a multiset, and the events waiting for one key.\<close>

definition waiting :: "'c tx_cache \<Rightarrow> wait_tx tx_event multiset" where
  "waiting c = (\<Sum>e\<in>#mset (waiting_tx c). mset (fst (snd e)))"

definition waits_for :: "'c tx_cache \<Rightarrow> hash \<Rightarrow> wait_tx tx_event list" where
  "waits_for c h = (case hm_get (waiting_tx c) h of None \<Rightarrow> [] | Some (txs, _) \<Rightarrow> txs)"

text \<open>No entry is older than the maximal waiting time.\<close>

definition all_fresh :: "nat \<Rightarrow> 'c tx_cache \<Rightarrow> bool" where
  "all_fresh now c \<longleftrightarrow> (\<forall>(_, _, ts)\<in>set (waiting_tx c). now - ts \<le> max_waiting_time c)"

lemma event_conversions [simp]:
  "ev_tx (event_of_tx tx) = tx" "ev_tx (download_of_received e) = ev_tx e"
  "ev_tx (wait_of_download d) = ev_tx d" "ev_tx (new_of_wait w) = ev_tx w"
  by (simp_all add: event_of_tx_def download_of_received_def wait_of_download_def new_of_wait_def)

lemma new_of_wait_inject [simp]: "new_of_wait a = new_of_wait b \<longleftrightarrow> a = b"
  by (cases a; cases b) (simp add: new_of_wait_def; metis (full_types) wait_tx.exhaust)

lemma fold_hm_remove:
  "hm_ok m \<Longrightarrow> hm_ok (fold hm_remove ks m) \<and>
     (\<forall>k. hm_get (fold hm_remove ks m) k = (if k \<in> set ks then None else hm_get m k)) \<and>
     set (fold hm_remove ks m) = {e \<in> set m. fst e \<notin> set ks}"
proof (induction ks arbitrary: m)
  case (Cons k ks)
  then have "hm_ok (hm_remove k m)" by simp
  from Cons.IH [OF this] show ?case by (auto simp: set_hm_remove)
qed simp

lemma evict_fresh:
  assumes "all_fresh now c"
  shows "evict_old_waiting_tx now c = c"
proof -
  have "filter (\<lambda>(_, _, ts). now - ts > max_waiting_time c) (waiting_tx c) = []"
    using assms by (auto simp: all_fresh_def filter_empty_conv not_less)
  then show ?thesis by (simp add: evict_old_waiting_tx_def)
qed

lemma evict_keeps:
  "max_waiting_time (evict_old_waiting_tx now c) = max_waiting_time c"
  "max_waiting_tx (evict_old_waiting_tx now c) = max_waiting_tx c"
  "cached_tx_for_verification (evict_old_waiting_tx now c) = cached_tx_for_verification c"
  by (simp_all add: evict_old_waiting_tx_def Let_def)

lemma evict_makes_fresh:
  assumes "cache_ok c"
  shows "cache_ok (evict_old_waiting_tx now c)" and "all_fresh now (evict_old_waiting_tx now c)"
    and "set (waiting_tx (evict_old_waiting_tx now c)) \<subseteq> set (waiting_tx c)"
proof -
  let ?ks = "map fst (filter (\<lambda>(_, _, ts). now - ts > max_waiting_time c) (waiting_tx c))"
  note f = fold_hm_remove [of "waiting_tx c" ?ks]
  show "cache_ok (evict_old_waiting_tx now c)"
    and "set (waiting_tx (evict_old_waiting_tx now c)) \<subseteq> set (waiting_tx c)"
    using assms f by (auto simp: cache_ok_def evict_old_waiting_tx_def Let_def)
  show "all_fresh now (evict_old_waiting_tx now c)"
    using assms f
    by (force simp: all_fresh_def cache_ok_def evict_old_waiting_tx_def Let_def not_less)
qed

section \<open>Bookkeeping of the waiting events\<close>

lemma add_cached_keeps [simp]:
  "waiting_tx (add_cached_tx L h c) = waiting_tx c" "waiting (add_cached_tx L h c) = waiting c"
  "cache_ok (add_cached_tx L h c) = cache_ok c"
  "all_fresh now (add_cached_tx L h c) = all_fresh now c"
  by (simp_all add: add_cached_tx_def waiting_def cache_ok_def all_fresh_def)

lemma is_tx_cached_add:
  "lru_ok L \<Longrightarrow> is_tx_cached L (add_cached_tx L h c) k \<Longrightarrow> k = h \<or> is_tx_cached L c k"
  "lru_ok L \<Longrightarrow> is_tx_cached L (add_cached_tx L h c) h"
  by (auto simp: lru_ok_def is_tx_cached_def add_cached_tx_def)

lemma mset_subseteq_distinct:
  "distinct xs \<Longrightarrow> distinct ys \<Longrightarrow> set xs \<subseteq> set ys \<Longrightarrow> mset xs \<subseteq># mset ys"
  by (metis List.finite_set mset_set_set subset_imp_msubset_mset_set)

lemma sum_mset_mono_subset:
  fixes f :: "'a \<Rightarrow> 'b multiset"
  assumes "A \<subseteq># B"
  shows "(\<Sum>x\<in>#A. f x) \<subseteq># (\<Sum>x\<in>#B. f x)"
  using assms by (metis image_mset_union mset_subset_eq_add_left subset_mset.add_diff_inverse sum_mset.union)

lemma waiting_evict_le:
  assumes "cache_ok c"
  shows "waiting (evict_old_waiting_tx now c) \<subseteq># waiting c"
proof -
  have d: "distinct (waiting_tx x)" if "cache_ok x" for x :: "'a tx_cache"
    using that by (simp add: cache_ok_def hm_ok_def distinct_map)
  have "mset (waiting_tx (evict_old_waiting_tx now c)) \<subseteq># mset (waiting_tx c)"
    using evict_makes_fresh [OF assms] d assms by (intro mset_subseteq_distinct) auto
  then show ?thesis unfolding waiting_def by (rule sum_mset_mono_subset)
qed

lemma waiting_push:
  fixes c :: "'c tx_cache" and h :: hash and now :: nat
  assumes "hm_ok (waiting_tx c)"
  defines "v \<equiv> (case hm_get (waiting_tx c) h of None \<Rightarrow> ([], now) | Some v \<Rightarrow> v)"
  shows "waiting (c\<lparr> waiting_tx := hm_insert h (fst v @ [e], snd v) (waiting_tx c) \<rparr>) = add_mset e (waiting c)"
proof (cases "hm_get (waiting_tx c) h")
  case None
  then show ?thesis
    using hm.sum_entries_insert_new [OF None, of "\<lambda>e. mset (fst (snd e))"]
    by (simp add: waiting_def v_def)
next
  case (Some w)
  then show ?thesis
    using hm.sum_entries_insert [OF assms(1) Some, of "\<lambda>e. mset (fst (snd e))"]
      hm.sum_entries_remove [OF assms(1) Some, of "\<lambda>e. mset (fst (snd e))"]
    by (simp add: waiting_def v_def)
qed

lemma add_new_waiting_alt:
  "add_new_waiting_tx now h e c =
     (let c1 = (if length (waiting_tx c) \<ge> max_waiting_tx c then evict_old_waiting_tx now c else c);
          v = (case hm_get (waiting_tx c1) h of None \<Rightarrow> ([], now) | Some v \<Rightarrow> v)
      in c1\<lparr> waiting_tx := hm_insert h (fst v @ [e], snd v) (waiting_tx c1) \<rparr>)"
  by (simp add: add_new_waiting_tx_def Let_def split: prod.splits)

lemma add_new_waiting_fresh:
  assumes "cache_ok c" and "all_fresh now c"
  shows "waiting (add_new_waiting_tx now h e c) = add_mset e (waiting c)"
  using waiting_push [of c h now e] assms
  by (simp add: add_new_waiting_alt evict_fresh Let_def cache_ok_def)

lemma add_new_waiting_le:
  assumes "cache_ok c"
  shows "waiting (add_new_waiting_tx now h e c) \<subseteq># add_mset e (waiting c)"
    and "e \<in># waiting (add_new_waiting_tx now h e c)"
proof -
  define c1 where "c1 = (if length (waiting_tx c) \<ge> max_waiting_tx c then evict_old_waiting_tx now c else c)"
  have "cache_ok c1" "waiting c1 \<subseteq># waiting c"
    using assms evict_makes_fresh(1) [OF assms] waiting_evict_le [OF assms] by (auto simp: c1_def)
  moreover have "waiting (add_new_waiting_tx now h e c) = add_mset e (waiting c1)"
    using waiting_push [of c1 h now e] \<open>cache_ok c1\<close>
    by (simp add: add_new_waiting_alt Let_def c1_def [symmetric] cache_ok_def)
  ultimately show "waiting (add_new_waiting_tx now h e c) \<subseteq># add_mset e (waiting c)"
    and "e \<in># waiting (add_new_waiting_tx now h e c)" by auto
qed

lemma remove_waiting_eq:
  assumes "cache_ok c" and "remove_waiting_children_txs h c = (txs, c')"
  shows "waiting c = mset txs + waiting c'" and "cache_ok c'"
    and "cached_tx_for_verification c' = cached_tx_for_verification c"
    and "all_fresh now c \<Longrightarrow> all_fresh now c'"
proof -
  show "waiting c = mset txs + waiting c'"
  proof (cases "hm_get (waiting_tx c) h")
    case None
    then have "hm_remove h (waiting_tx c) = waiting_tx c"
      by (simp add: hm_remove_def hm_get_def delete_notin)
    with None assms(2) show ?thesis by (auto simp: remove_waiting_children_txs_def waiting_def)
  next
    case (Some v)
    then show ?thesis
      using assms hm.sum_entries_remove [OF _ Some, of "\<lambda>e. mset (fst (snd e))"]
      by (auto simp: remove_waiting_children_txs_def waiting_def cache_ok_def split: prod.splits)
  qed
  show "cache_ok c'" "cached_tx_for_verification c' = cached_tx_for_verification c"
    using assms by (auto simp: remove_waiting_children_txs_def cache_ok_def)
  show "all_fresh now c'" if "all_fresh now c"
    using that assms by (auto simp: remove_waiting_children_txs_def all_fresh_def set_hm_remove)
qed

lemma add_new_waiting_ok [simp]:
  assumes "cache_ok c"
  shows "cache_ok (add_new_waiting_tx now h e c)"
  using assms evict_makes_fresh(1) [OF assms, of now]
  by (auto simp: add_new_waiting_alt Let_def cache_ok_def)

lemma add_new_waiting_cached [simp]:
  "cached_tx_for_verification (add_new_waiting_tx now h e c) = cached_tx_for_verification c"
  by (simp add: add_new_waiting_alt Let_def evict_keeps)

text \<open>What holds of every waiting event and the key it waits for.\<close>

definition entries_sat :: "(hash \<Rightarrow> wait_tx tx_event \<Rightarrow> bool) \<Rightarrow> 'c tx_cache \<Rightarrow> bool" where
  "entries_sat P c \<longleftrightarrow> (\<forall>(k, txs, ts)\<in>set (waiting_tx c). \<forall>e\<in>set txs. P k e)"

lemma entries_sat_add_cached [simp]: "entries_sat P (add_cached_tx L h c) = entries_sat P c"
  by (simp add: entries_sat_def)

lemma entries_sat_push:
  fixes c :: "'c tx_cache" and h :: hash and now :: nat
  assumes "entries_sat P c" and "P h e"
  defines "v \<equiv> (case hm_get (waiting_tx c) h of None \<Rightarrow> ([], now) | Some v \<Rightarrow> v)"
  shows "entries_sat P (c\<lparr> waiting_tx := hm_insert h (fst v @ [e], snd v) (waiting_tx c) \<rparr>)"
proof -
  have "\<forall>x\<in>set (fst v @ [e]). P h x"
    using assms by (auto simp: entries_sat_def dest!: hm_get_Some_in split: option.splits)
  moreover note set_hm_insert_subset [of h "(fst v @ [e], snd v)" "waiting_tx c"]
  ultimately show ?thesis using assms(1) unfolding entries_sat_def by fastforce
qed

lemma entries_sat_add:
  assumes "entries_sat P c" and "cache_ok c" and "P h e"
  shows "entries_sat P (add_new_waiting_tx now h e c)"
proof -
  have "entries_sat P (evict_old_waiting_tx now c)"
    using assms(1) evict_makes_fresh(3) [OF assms(2)] unfolding entries_sat_def by blast
  with assms(1,3) show ?thesis
    by (simp add: add_new_waiting_alt Let_def entries_sat_push)
qed

lemma entries_sat_remove:
  assumes "entries_sat P c" and "remove_waiting_children_txs h c = (txs, c')"
  shows "entries_sat P c'" and "\<forall>e\<in>set txs. P h e"
proof -
  have "set (waiting_tx c') \<subseteq> set (waiting_tx c)"
    using assms(2) by (auto simp: remove_waiting_children_txs_def set_hm_remove)
  with assms(1) show "entries_sat P c'" unfolding entries_sat_def by blast
  show "\<forall>e\<in>set txs. P h e"
  proof (cases "hm_get (waiting_tx c) h")
    case (Some v)
    then have "(h, v) \<in> set (waiting_tx c)" by (rule hm_get_Some_in)
    with assms Some show ?thesis
      unfolding entries_sat_def remove_waiting_children_txs_def by (cases v) fastforce
  qed (use assms in \<open>simp add: remove_waiting_children_txs_def\<close>)
qed

lemma all_fresh_add:
  assumes "all_fresh now c" and "cache_ok c"
  shows "all_fresh now (add_new_waiting_tx now h e c)"
proof -
  define v where "v = (case hm_get (waiting_tx c) h of None \<Rightarrow> ([], now) | Some v \<Rightarrow> v)"
  have "now - snd v \<le> max_waiting_time c"
  proof (cases "hm_get (waiting_tx c) h")
    case (Some w)
    then have "(h, w) \<in> set (waiting_tx c)" by (rule hm_get_Some_in)
    with assms(1) Some show ?thesis by (auto simp: v_def all_fresh_def)
  qed (simp add: v_def)
  then have "now - ts \<le> max_waiting_time c"
    if "(k, txs, ts) \<in> set (hm_insert h (fst v @ [e], snd v) (waiting_tx c))" for k txs ts
    using that assms(1) set_hm_insert_subset [of h "(fst v @ [e], snd v)" "waiting_tx c"]
    unfolding all_fresh_def by auto
  then show ?thesis
    using evict_fresh [OF assms(1)]
    by (auto simp: add_new_waiting_alt Let_def v_def [symmetric] all_fresh_def)
qed

end
