(* ===== verification/Download_Manager.thy ===== *)
theory Download_Manager
  imports Files
begin

text \<open>
  \<open>mempool/txvalidation/download_manager.rs\<close>: the download of an asset file, from its own address or
  from a peer, through a temporary file whose checksum is verified before it is renamed, and the
  HTTP handler that serves the files of the data directory. The HTTP client and the hash function
  are the record \<open>http_env\<close>. Every operation returns the disk it leaves behind, also on errors. The
  buffer in front of the temporary file is not modelled: chunks reach the disk as they arrive.
\<close>

section \<open>File names\<close>

text \<open>\<open>Path::extension\<close> and \<open>PathBuf::set_extension\<close>.\<close>

definition rsplit_dot :: "string \<Rightarrow> string \<times> string option" where
  "rsplit_dot n =
     (let after = rev (takeWhile (\<lambda>c. c \<noteq> CHR ''.'') (rev n));
          before = take (length n - length after - 1) n
      in if CHR ''.'' \<notin> set n \<or> before = [] then (n, None) else (before, Some after))"

definition path_extension :: "path \<Rightarrow> string option" where
  "path_extension p =
     (case file_name p of None \<Rightarrow> None | Some n \<Rightarrow> snd (rsplit_dot n))"

definition path_set_extension :: "path \<Rightarrow> string \<Rightarrow> path" where
  "path_set_extension p ext =
     (case file_name p of
        None \<Rightarrow> p
      | Some n \<Rightarrow>
          (let rel = (\<not> is_absolute p);
               qs = trim_back rel (split_slash (if rel then p else tl p));
               n' = fst (rsplit_dot n) @ (if ext = [] then [] else CHR ''.'' # ext)
           in (if rel then [] else ''/'') @ join_slash (butlast qs @ [n'])))"

definition tmp_file_name :: "path \<Rightarrow> path" where
  "tmp_file_name p =
     (case path_extension p of
        Some ext \<Rightarrow> path_set_extension p (ext @ ''.'' @ ''tmp'')
      | None \<Rightarrow> path_set_extension p ''tmp'')"

section \<open>HTTP\<close>

datatype body_end = BodyComplete | BodyError | BodyTimeout

record http_response =
  resp_status :: nat
  resp_chunks :: "byte list list"
  resp_end :: body_end

datatype send_result = SendOk http_response | SendErr string

text \<open>\<open>http_get_timed\<close> is the request under the five-second timeout; \<open>None\<close> is the timeout.\<close>

record http_env =
  http_get_timed :: "string \<Rightarrow> send_result option"
  http_get :: "string \<Rightarrow> send_result"
  peer_url :: "string \<Rightarrow> u16 \<Rightarrow> string \<Rightarrow> string"
  blake3 :: "byte list \<Rightarrow> byte list"

datatype download_error =
    NoHostFound string
  | RequestTimeout string
  | DownloadIo string
  | ConnectionTimeout string
  | HttpError string
  | BadChecksum string hash hash
  | BadStatus string nat

fun first_ok_response :: "http_env \<Rightarrow> string list \<Rightarrow> http_response option" where
  "first_ok_response e [] = None"
| "first_ok_response e (u # us) =
     (case http_get e u of
        SendOk r \<Rightarrow> if resp_status r = 200 then Some r else first_ok_response e us
      | SendErr _ \<Rightarrow> first_ok_response e us)"

definition peer_urls :: "http_env \<Rightarrow> (socket_addr \<times> u16 option) list \<Rightarrow> string \<Rightarrow> string list" where
  "peer_urls e peers uri =
     List.map_filter (\<lambda>(peer, p). map_option (\<lambda>q. peer_url e (sa_ip peer) q uri) p) peers"

definition asset_response ::
  "http_env \<Rightarrow> (socket_addr \<times> u16 option) list \<Rightarrow> asset_file \<Rightarrow> download_error + http_response" where
  "asset_response e peers f =
     (let ask_peers = (case first_ok_response e (peer_urls e peers (get_uri f)) of
                         Some r \<Rightarrow> Inr r
                       | None \<Rightarrow> Inl (NoHostFound (af_name f)))
      in case http_get_timed e (af_url f) of
           None \<Rightarrow> Inl (RequestTimeout (af_name f))
         | Some (SendOk r) \<Rightarrow> if resp_status r = 200 then Inr r else ask_peers
         | Some (SendErr _) \<Rightarrow> ask_peers)"

section \<open>Download\<close>

definition fs_create :: "io_errors \<Rightarrow> path \<Rightarrow> disk \<Rightarrow> (string + unit) \<times> disk" where
  "fs_create io p d =
     (case io (CreateFile p) of
        Some e \<Rightarrow> (Inl e, d)
      | None \<Rightarrow> (Inr (), hm_insert (components p) [] d))"

definition fs_append :: "io_errors \<Rightarrow> path \<Rightarrow> byte list \<Rightarrow> disk \<Rightarrow> (string + unit) \<times> disk" where
  "fs_append io p bs d =
     (case io (AppendFile p) of
        Some e \<Rightarrow> (Inl e, d)
      | None \<Rightarrow> (Inr (),
          hm_insert (components p) ((case fs_lookup d p of None \<Rightarrow> [] | Some x \<Rightarrow> x) @ bs) d))"

text \<open>The loop over the chunks: the bytes hashed so far are the accumulator.\<close>

fun read_body ::
  "io_errors \<Rightarrow> path \<Rightarrow> string \<Rightarrow> body_end \<Rightarrow> byte list list \<Rightarrow> byte list \<Rightarrow> disk
     \<Rightarrow> (download_error + byte list) \<times> disk" where
  "read_body io p n fin [] acc d =
     (case fin of
        BodyComplete \<Rightarrow> (Inr acc, d)
      | BodyError \<Rightarrow> (Inl (ConnectionTimeout n), d)
      | BodyTimeout \<Rightarrow> (Inl (HttpError n), d))"
| "read_body io p n fin (b # bs) acc d =
     (case fs_append io p b d of
        (Inl e, d') \<Rightarrow> (Inl (DownloadIo e), d')
      | (Inr _, d') \<Rightarrow> read_body io p n fin bs (acc @ b) d')"

definition make_parent :: "io_errors \<Rightarrow> path \<Rightarrow> string + unit" where
  "make_parent io p =
     (case path_parent p of
        None \<Rightarrow> Inr ()
      | Some q \<Rightarrow> if io (TryExists q) = None then fs_create_dir_all io q else Inr ())"

definition save_response ::
  "crates \<Rightarrow> http_env \<Rightarrow> io_errors \<Rightarrow> path \<Rightarrow> asset_file \<Rightarrow> http_response \<Rightarrow> disk
     \<Rightarrow> (download_error + unit) \<times> disk" where
  "save_response c e io p f r d =
     (case make_parent io p of
        Inl x \<Rightarrow> (Inl (DownloadIo x), d)
      | Inr _ \<Rightarrow>
        (let t = tmp_file_name p
         in case fs_create io t d of
              (Inl x, d1) \<Rightarrow> (Inl (DownloadIo x), d1)
            | (Inr _, d1) \<Rightarrow>
              (case read_body io t (af_name f) (resp_end r) (resp_chunks r) [] d1 of
                 (Inl x, d2) \<Rightarrow> (Inl x, d2)
               | (Inr bs, d2) \<Rightarrow>
                 (case io (FlushFile t) of
                    Some x \<Rightarrow> (Inl (DownloadIo x), d2)
                  | None \<Rightarrow>
                    (let sum = Hash (blake3 e bs)
                     in if sum \<noteq> af_checksum f
                        then (Inl (BadChecksum (af_name f) sum (af_checksum f)), d2)
                        else (case fs_rename io d2 t p of
                                Inl x \<Rightarrow> (Inl (DownloadIo x), d2)
                              | Inr d3 \<Rightarrow> (Inr (), d3)))))))"

definition download_asset_file ::
  "crates \<Rightarrow> http_env \<Rightarrow> io_errors \<Rightarrow> path \<Rightarrow> (socket_addr \<times> u16 option) list \<Rightarrow> asset_file \<Rightarrow> disk
     \<Rightarrow> (download_error + unit) \<times> disk" where
  "download_asset_file c e io root peers f d =
     (if asset_exist io d f (af_file_path f) then (Inr (), d)
      else case asset_response e peers f of
             Inl x \<Rightarrow> (Inl x, d)
           | Inr r \<Rightarrow>
               if resp_status r = 200 then save_response c e io (path_join root (af_file_path f)) f r d
               else (Inl (BadStatus (af_name f) (resp_status r)), d))"

section \<open>File server\<close>

datatype file_reply = FileReply (reply_status: nat) (reply_body: "byte list")

definition fs_open :: "io_errors \<Rightarrow> disk \<Rightarrow> path \<Rightarrow> byte list option" where
  "fs_open io d p = (if io (OpenFile p) = None then fs_lookup d p else None)"

definition server_process_file :: "io_errors \<Rightarrow> disk \<Rightarrow> path \<Rightarrow> string \<Rightarrow> file_reply" where
  "server_process_file io d data_directory uri_path =
     (let p = path_join data_directory (drop 1 uri_path)
      in case fs_open io d p of
           Some bs \<Rightarrow> FileReply 200 bs
         | None \<Rightarrow>
             if fs_exists io d (tmp_file_name p)
             then FileReply 206 (as_bytes ''Update in progess, retry later'')
             else FileReply 404 (as_bytes ''File not found''))"

section \<open>Temporary names\<close>

lemma rsplit_dot_join:
  "fst (rsplit_dot n) @ (case snd (rsplit_dot n) of None \<Rightarrow> [] | Some x \<Rightarrow> CHR ''.'' # x) = n"
proof (cases "CHR ''.'' \<in> set n")
  case True
  let ?a = "rev (takeWhile (\<lambda>c. c \<noteq> CHR ''.'') (rev n))"
  from True obtain xs ys where n: "rev n = xs @ CHR ''.'' # ys" and xs: "CHR ''.'' \<notin> set xs"
    by (metis set_rev split_list_first)
  have "takeWhile (\<lambda>c. c \<noteq> CHR ''.'') (rev n) = xs"
    unfolding n using xs by (subst takeWhile_append2) auto
  moreover from n have "n = rev ys @ CHR ''.'' # rev xs"
    by (metis append.assoc append_Cons append_Nil rev.simps(2) rev_append rev_rev_ident)
  ultimately show ?thesis by (simp add: rsplit_dot_def Let_def)
qed (simp add: rsplit_dot_def)

lemma tmp_file_name_alt:
  "tmp_file_name p =
     (case file_name p of
        None \<Rightarrow> p
      | Some n \<Rightarrow>
          (let rel = (\<not> is_absolute p);
               qs = trim_back rel (split_slash (if rel then p else tl p))
           in (if rel then [] else ''/'') @ join_slash (butlast qs @ [n @ ''.tmp''])))"
proof (cases "file_name p")
  case (Some n)
  show ?thesis
  proof (cases "snd (rsplit_dot n)")
    case None
    with Some rsplit_dot_join [of n] show ?thesis
      by (simp add: tmp_file_name_def path_extension_def path_set_extension_def Let_def)
  next
    case (Some x)
    have eq: "fst (rsplit_dot n) @ CHR ''.'' # x @ ''.tmp'' = n @ ''.tmp''"
      using rsplit_dot_join [of n] Some by (metis append.assoc append_Cons option.simps(5))
    show ?thesis
      using Some \<open>file_name p = Some n\<close>
      by (simp add: tmp_file_name_def path_extension_def path_set_extension_def Let_def eq)
  qed
qed (simp add: tmp_file_name_def path_extension_def path_set_extension_def)

lemma components_lead:
  "components p =
     (if is_absolute p then RootDir # body_components (split_slash (tl p))
      else (if hd (split_slash p) = ''.'' then [CurDir] else []) @ body_components (split_slash p))"
proof -
  have "body_components (split_slash p) = body_components (tl (split_slash p))"
    if "hd (split_slash p) = ''.''"
    using that body_components_skipped [of "''.''" "tl (split_slash p)"]
    by (metis skipped_def split_slash_hd_tl)
  then show ?thesis by (simp add: components_def)
qed

text \<open>The significant parts of a path that has a file name end in that name.\<close>

lemma file_name_parts:
  assumes "file_name p = Some n"
  defines "qs \<equiv> split_slash (if is_absolute p then tl p else p)"
  shows "\<exists>pre post. qs = pre @ n # post \<and> list_all skipped post \<and>
           trim_back (\<not> is_absolute p) qs = pre @ [n]"
proof -
  define rs where "rs = rev (dropWhile skipped (rev qs))"
  have split: "qs = rs @ rev (takeWhile skipped (rev qs))"
    unfolding rs_def by (metis rev_append rev_rev_ident takeWhile_dropWhile_id)
  have body: "body_components qs = body_components rs"
    by (simp add: rs_def body_components_rev)
  have last: "\<exists>cs. components p = cs @ body_components rs \<and> Normal n \<notin> set cs"
    using components_lead [of p] body unfolding qs_def by auto
  obtain xs where "rev (components p) = Normal n # xs"
    using assms(1) by (auto simp: file_name_def split: list.splits component.splits)
  then have n: "components p = rev xs @ [Normal n]" by (simp add: rev_swap)
  have ne: "rs \<noteq> []"
    using last n by (metis append.right_neutral append_is_Nil_conv body_components_Nil last_in_set
        last_snoc list.distinct(1))
  have "\<not> skipped (last rs)"
    using ne unfolding rs_def by (metis hd_dropWhile last_rev rev_is_Nil_conv)
  then have "body_components rs = body_components (butlast rs) @
      [if last rs = ''..'' then ParentDir else Normal (last rs)]"
    using ne body_components_append [of "butlast rs" "[last rs]"]
    by (simp add: body_components_Cons part_components_def)
  with last n have "last rs = n" by (auto split: if_splits)
  with ne have "rs = butlast rs @ [n]" by auto
  moreover have "trim_back (\<not> is_absolute p) qs = rs"
    unfolding trim_back_def Let_def rs_def [symmetric] using ne by simp
  moreover have "list_all skipped (rev (takeWhile skipped (rev qs)))"
    by (auto simp: list_all_iff dest: set_takeWhileD)
  ultimately show ?thesis
    using split by (metis append.assoc append_Cons append_Nil)
qed

lemma body_components_skipped_list: "list_all skipped qs \<Longrightarrow> body_components qs = []"
  by (induction qs) auto

lemma tmp_file_name_components:
  assumes "file_name p = Some n"
  shows "\<exists>cs. components p = cs @ [Normal n] \<and>
              components (tmp_file_name p) = cs @ [Normal (n @ ''.tmp'')]"
proof -
  let ?qs = "split_slash (if is_absolute p then tl p else p)" and ?m = "n @ ''.tmp''"
  obtain pre post where qs: "?qs = pre @ n # post" and post: "list_all skipped post"
    and trim: "trim_back (\<not> is_absolute p) ?qs = pre @ [n]"
    using file_name_parts [OF assms] by blast
  have n: "\<not> skipped n" "n \<noteq> ''..''" "CHR ''/'' \<notin> set n" "n \<noteq> []"
    using file_name_normal [OF assms] by (auto simp: skipped_def)
  have m: "part_components ?m = [Normal ?m]" "part_components n = [Normal n]"
    using n by (auto simp: part_components_def skipped_def)
  have "\<forall>q\<in>set (pre @ [?m]). CHR ''/'' \<notin> set q"
    using qs n(3) split_slash_parts [of _ "if is_absolute p then tl p else p"] by auto
  then have parts: "split_slash (join_slash (pre @ [?m])) = pre @ [?m]"
    by (intro split_join_slash) auto
  have tmp: "tmp_file_name p = (if is_absolute p then ''/'' else []) @ join_slash (pre @ [?m])"
    using assms trim by (auto simp: tmp_file_name_alt Let_def)
  have rel: "\<not> is_absolute (join_slash (pre @ [?m]))" if "\<not> is_absolute p"
  proof -
    have "hd (pre @ [?m]) \<noteq> []"
      using that qs n(4) by (cases p; cases pre)
        (auto simp: is_absolute_def split_slash_Cons simp del: split_slash.simps(2) split: if_splits)
    moreover have "CHR ''/'' \<notin> set (hd (pre @ [?m]))"
      using \<open>\<forall>q\<in>set (pre @ [?m]). CHR ''/'' \<notin> set q\<close> by (metis hd_in_set snoc_eq_iff_butlast)
    ultimately obtain c s where "hd (pre @ [?m]) = c # s" and "c \<noteq> CHR ''/''"
      by (cases "hd (pre @ [?m])") auto
    then show ?thesis by (cases pre) (auto simp: is_absolute_def join_slash_Cons)
  qed
  show ?thesis
  proof (cases "is_absolute p")
    case True
    with qs post tmp m parts show ?thesis
      by (simp add: components_lead [of p] components_lead [of "CHR ''/'' # _"] is_absolute_def
          body_components_Cons body_components_skipped_list)
  next
    case False
    have "(hd (pre @ [?m]) = ''.'') = (hd (split_slash p) = ''.'')"
      using False qs n by (cases pre) (auto simp: skipped_def)
    with False qs post tmp m parts rel show ?thesis
      by (simp add: components_lead body_components_Cons body_components_skipped_list)
  qed
qed

lemma tmp_file_name_differs:
  "file_name p = Some n \<Longrightarrow> components (tmp_file_name p) \<noteq> components p"
  using tmp_file_name_components [of p n] by auto

section \<open>What a download does to the disk\<close>

lemma fs_append_other:
  "fs_append io p b d = (r, d') \<Longrightarrow> components q \<noteq> components p \<Longrightarrow> fs_lookup d' q = fs_lookup d q"
  by (auto simp: fs_append_def split: option.splits)

lemma fs_create_other:
  "fs_create io p d = (r, d') \<Longrightarrow> components q \<noteq> components p \<Longrightarrow> fs_lookup d' q = fs_lookup d q"
  by (auto simp: fs_create_def split: option.splits)

lemma fs_create_Inr: "fs_create io p d = (Inr u, d') \<Longrightarrow> fs_lookup d' p = Some []"
  by (auto simp: fs_create_def split: option.splits)

lemma fs_append_Inr:
  "fs_append io p b d = (Inr u, d') \<Longrightarrow> fs_lookup d p = Some x \<Longrightarrow> fs_lookup d' p = Some (x @ b)"
  by (auto simp: fs_append_def split: option.splits)

lemma read_body_other:
  "read_body io p n fin bs acc d = (r, d') \<Longrightarrow> components q \<noteq> components p \<Longrightarrow>
   fs_lookup d' q = fs_lookup d q"
  by (induction bs arbitrary: acc d)
     (auto split: body_end.splits prod.splits sum.splits dest: fs_append_other)

lemma read_body_Inr:
  "read_body io p n fin bs acc d = (Inr out, d') \<Longrightarrow> fs_lookup d p = Some x \<Longrightarrow>
   out = acc @ concat bs \<and> fin = BodyComplete \<and> fs_lookup d' p = Some (x @ concat bs)"
proof (induction bs arbitrary: acc d x)
  case Nil
  then show ?case by (auto split: body_end.splits)
next
  case (Cons b bs)
  then obtain u d1 where d1: "fs_append io p b d = (Inr u, d1)"
    and rest: "read_body io p n fin bs (acc @ b) d1 = (Inr out, d')"
    by (auto split: prod.splits sum.splits)
  from Cons.IH [OF rest fs_append_Inr [OF d1 Cons.prems(2)]] show ?case by simp
qed

lemma save_response_cases:
  assumes "save_response c e io p f r d = (res, d')" and "file_name p = Some n"
  shows "(\<forall>q. components q \<noteq> components p \<longrightarrow> components q \<noteq> components (tmp_file_name p) \<longrightarrow>
              fs_lookup d' q = fs_lookup d q)"
    and "res = Inr () \<Longrightarrow> fs_lookup d' p = Some (concat (resp_chunks r)) \<and> resp_end r = BodyComplete \<and>
           Hash (blake3 e (concat (resp_chunks r))) = af_checksum f \<and>
           fs_lookup d' (tmp_file_name p) = None"
    and "res \<noteq> Inr () \<Longrightarrow> fs_lookup d' p = fs_lookup d p"
proof -
  let ?t = "tmp_file_name p"
  have ne: "components ?t \<noteq> components p" by (rule tmp_file_name_differs [OF assms(2)])
  consider "d' = d" "res \<noteq> Inr ()"
    | d1 where "fs_create io ?t d = (Inr (), d1)" "res \<noteq> Inr ()"
        "\<exists>x. read_body io ?t (af_name f) (resp_end r) (resp_chunks r) [] d1 = (x, d')"
    | d1 d2 bs where "fs_create io ?t d = (Inr (), d1)" "res = Inr ()"
        "read_body io ?t (af_name f) (resp_end r) (resp_chunks r) [] d1 = (Inr bs, d2)"
        "Hash (blake3 e bs) = af_checksum f" "fs_rename io d2 ?t p = Inr d'"
    using assms(1)
    by (auto simp: save_response_def Let_def fs_create_def
        split: sum.splits prod.splits option.splits if_splits)
  note cases = this
  show "\<forall>q. components q \<noteq> components p \<longrightarrow> components q \<noteq> components ?t \<longrightarrow>
              fs_lookup d' q = fs_lookup d q"
    by (rule cases) (auto simp: outcome_simps dest!: fs_create_other read_body_other)
  show "res \<noteq> Inr () \<Longrightarrow> fs_lookup d' p = fs_lookup d p"
    by (rule cases) (use ne in \<open>auto dest!: fs_create_other [where q = p] read_body_other [where q = p]\<close>)
  show "res = Inr () \<Longrightarrow> fs_lookup d' p = Some (concat (resp_chunks r)) \<and> resp_end r = BodyComplete \<and>
           Hash (blake3 e (concat (resp_chunks r))) = af_checksum f \<and> fs_lookup d' ?t = None"
    by (rule cases) (use ne in \<open>auto simp: outcome_simps dest!: fs_create_Inr read_body_Inr\<close>)
qed

text \<open>Without operating-system errors a complete response with the right checksum is saved.\<close>

lemma read_body_complete:
  "fs_lookup d p = Some x \<Longrightarrow>
   \<exists>d'. read_body (\<lambda>_. None) p n BodyComplete bs acc d = (Inr (acc @ concat bs), d')"
proof (induction bs arbitrary: acc d x)
  case Nil
  then show ?case by simp
next
  case (Cons b bs)
  then have "fs_lookup (hm_insert (components p) (x @ b) d) p = Some (x @ b)" by simp
  from Cons.IH [OF this, of "acc @ b"] Cons.prems show ?case by (simp add: fs_append_def)
qed

lemma save_response_succeeds:
  assumes "file_name p = Some n" and "resp_end r = BodyComplete"
    and "Hash (blake3 e (concat (resp_chunks r))) = af_checksum f"
  shows "\<exists>d'. save_response c e (\<lambda>_. None) p f r d = (Inr (), d')"
proof -
  let ?t = "tmp_file_name p"
  let ?d1 = "hm_insert (components ?t) [] d"
  have "fs_lookup ?d1 ?t = Some []" by simp
  then obtain d2 where d2: "read_body (\<lambda>_. None) ?t (af_name f) BodyComplete (resp_chunks r) [] ?d1
      = (Inr (concat (resp_chunks r)), d2)"
    using read_body_complete [of ?d1 ?t "[]" "af_name f" "resp_chunks r" "[]"] by auto
  have "fs_lookup d2 ?t = Some (concat (resp_chunks r))"
    using read_body_Inr [OF d2 \<open>fs_lookup ?d1 ?t = Some []\<close>] by simp
  with d2 assms show ?thesis
    by (cases "path_parent p")
       (simp_all add: save_response_def make_parent_def fs_create_dir_all_def fs_create_def Let_def
        fs_rename_def)
qed

section \<open>Properties\<close>

definition sample_http :: http_env where
  "sample_http =
     \<lparr> http_get_timed = (\<lambda>u. Some (SendErr ''unreachable'')),
       http_get = (\<lambda>u. if u = ''http://10.0.0.2/txfiles/a'' then
                          SendOk \<lparr> resp_status = 200, resp_chunks = [[1, 2], [3]], resp_end = BodyComplete \<rparr>
                        else SendErr ''unreachable''),
       peer_url = (\<lambda>ip p uri. ''http://'' @ ip @ ''/'' @ uri),
       blake3 = (\<lambda>bs. take 32 (bs @ replicate 32 0)) \<rparr>"

definition sample_asset :: asset_file where
  "sample_asset =
     \<lparr> af_name = ''a'', af_file_path = ''txfiles/a'', af_url = ''http://10.0.0.1/txfiles/a'',
       af_checksum = Hash (take 32 ([1, 2, 3] @ replicate 32 0)), af_verify_exist = True \<rparr>"

definition sample_peers :: "(socket_addr \<times> u16 option) list" where
  "sample_peers = [(SocketAddr ''10.0.0.3'' 9, None), (SocketAddr ''10.0.0.2'' 9, Some 80)]"

lemma sample_asset_name: "file_name (path_join ''/data'' (af_file_path sample_asset)) = Some ''a''"
  by (simp add: sample_asset_def file_name_def path_join_def path_push_def is_absolute_def
      components_def body_components_Cons part_components_def skipped_def)

lemma sample_response:
  "asset_response sample_http sample_peers sample_asset =
     Inr \<lparr> resp_status = 200, resp_chunks = [[1, 2], [3]], resp_end = BodyComplete \<rparr>"
proof -
  have "peer_urls sample_http sample_peers (get_uri sample_asset) = [''http://10.0.0.2/txfiles/a'']"
    by (simp add: peer_urls_def sample_http_def sample_peers_def get_uri_def sample_asset_def
        List.map_filter_simps)
  then show ?thesis by (simp add: asset_response_def) (simp add: sample_http_def)
qed

lemma sample_download:
  "\<exists>d'. download_asset_file sample_crates sample_http (\<lambda>_. None) ''/data'' sample_peers sample_asset [] = (Inr (), d')"
proof -
  have "Hash (blake3 sample_http (concat [[1, 2], [3]])) = af_checksum sample_asset"
    by (simp add: sample_http_def sample_asset_def)
  then show ?thesis
    using save_response_succeeds [OF sample_asset_name, of "\<lparr> resp_status = 200, resp_chunks = [[1, 2], [3]], resp_end = BodyComplete \<rparr>"
        sample_http sample_asset sample_crates "[]"]
    by (simp add: download_asset_file_def asset_exist_def fs_exists_def fs_lookup_def hm_get_def
        sample_response)
qed



text \<open>
  C24: after a successful download the node serves the file to its peers: a request for the file's
  URI is answered with status 200 and bytes that have the expected checksum.
\<close>

theorem served_after_download:
  assumes "file_name (path_join root (af_file_path f)) = Some n"
    and "\<not> asset_exist io d f (af_file_path f)"
    and "download_asset_file c e io root peers f d = (Inr (), d')"
    and "io (OpenFile (path_join root (af_file_path f))) = None"
  shows "\<exists>bs. server_process_file io d' root (CHR ''/'' # get_uri f) = FileReply 200 bs \<and>
              Hash (blake3 e bs) = af_checksum f"
proof -
  obtain r where r: "asset_response e peers f = Inr r"
    and s: "save_response c e io (path_join root (af_file_path f)) f r d = (Inr (), d')"
    using assms(2,3) by (auto simp: download_asset_file_def split: sum.splits if_splits)
  from save_response_cases(2) [OF s assms(1)] assms(4) show ?thesis
    by (simp add: server_process_file_def get_uri_def fs_open_def)
qed

theorem served_after_download_witness:
  "\<exists>d' bs. download_asset_file sample_crates sample_http (\<lambda>_. None) ''/data'' sample_peers sample_asset [] = (Inr (), d') \<and>
           server_process_file (\<lambda>_. None) d' ''/data'' ''/txfiles/a'' = FileReply 200 bs"
proof -
  obtain d' where d': "download_asset_file sample_crates sample_http (\<lambda>_. None) ''/data'' sample_peers
      sample_asset [] = (Inr (), d')"
    using sample_download by blast
  have "\<not> asset_exist (\<lambda>_. None) [] sample_asset (af_file_path sample_asset)"
    by (simp add: asset_exist_def fs_exists_def fs_lookup_def hm_get_def)
  from served_after_download [OF sample_asset_name this d'] d' show ?thesis
    by (auto simp: get_uri_def sample_asset_def)
qed

text \<open>
  the check that skips a download when the file is already there looks below the file's own
  relative path instead of the local directory. When nothing is there, a failing request fails the
  download although the file is present at its place.
\<close>

theorem download_ignores_present_file:
  assumes "fs_lookup d (path_join (af_file_path f) (af_file_path f)) = None"
    and "asset_response e peers f = Inl x"
  shows "download_asset_file c e io root peers f d = (Inl x, d)"
  using assms by (simp add: download_asset_file_def asset_exist_def fs_exists_def)

theorem download_ignores_present_file_witness:
  "fs_exists (\<lambda>_. None) [(components ''/data/txfiles/a'', [1])] (path_join ''/data'' (af_file_path sample_asset)) \<and>
   download_asset_file sample_crates sample_http (\<lambda>_. None) ''/data'' [] sample_asset
     [(components ''/data/txfiles/a'', [1])] = (Inl (NoHostFound ''a''), [(components ''/data/txfiles/a'', [1])])"
proof
  note path_eval = path_join_def path_push_def is_absolute_def components_def body_components_Cons
    part_components_def skipped_def sample_asset_def
  show "fs_exists (\<lambda>_. None) [(components ''/data/txfiles/a'', [1])] (path_join ''/data'' (af_file_path sample_asset))"
    by (simp add: fs_exists_def fs_lookup_def hm_get_def path_eval)
  show "download_asset_file sample_crates sample_http (\<lambda>_. None) ''/data'' [] sample_asset
     [(components ''/data/txfiles/a'', [1])] = (Inl (NoHostFound ''a''), [(components ''/data/txfiles/a'', [1])])"
  proof (rule download_ignores_present_file)
    show "fs_lookup [(components ''/data/txfiles/a'', [1])]
        (path_join (af_file_path sample_asset) (af_file_path sample_asset)) = None"
      by (simp add: fs_lookup_def hm_get_def path_eval)
    show "asset_response sample_http [] sample_asset = Inl (NoHostFound ''a'')"
      by (simp add: asset_response_def peer_urls_def sample_http_def List.map_filter_simps
          sample_asset_def)
  qed
qed

text \<open>
  a request path that starts with two slashes is read as an absolute path of the host: the
  answer does not depend on the data directory the server is meant to serve.
\<close>

theorem server_absolute_request:
  "server_process_file io d dir (''//'' @ q) = server_process_file io d dir' (''//'' @ q)"
  by (simp add: server_process_file_def path_join_def path_push_def is_absolute_def)

end
