(* ===== verification/Tx_Event.thy ===== *)
theory Tx_Event
  imports Tx_Cache Download_Manager
begin

text \<open>
  The processing of transaction events of \<open>mempool/event.rs\<close>: verification against the signature and
  the access list, download of the files, propagation, the handling of dependencies on programs and
  parent transactions, and saving. Operations that change a cache return it also on errors. The
  storage and the access list are the traits of the source, given as functions.
\<close>

section \<open>Errors and collaborators\<close>

datatype acl_error = AclInternalError string

datatype asset_failure = ParamConversion string | Execution download_error

datatype event_process_error =
    PropagateTxError "validated transaction"
  | ValidateError validate_failure
  | DownloadAssetError asset_failure
  | SaveTxError hash string
  | StorageError string
  | AclWhiteListAuthError acl_error
and validate_failure =
    TxValidationFail event_process_error
  | TransactionInvalid transaction_error
  | SignerNotAuthorized
  | ProcessExecution string

type_synonym acl_whitelist = "public_key \<Rightarrow> acl_error + bool"

definition always_grant :: acl_whitelist where
  "always_grant key = Inr True"

text \<open>The trait \<open>ValidateStorage\<close>.\<close>

record validate_storage =
  vs_get_tx :: "hash \<Rightarrow> string + validated transaction option"
  vs_contains_program :: "hash \<Rightarrow> string + bool"

section \<open>Verification and download\<close>

definition validate_tx ::
  "crates \<Rightarrow> acl_whitelist \<Rightarrow> received_tx tx_event \<Rightarrow> (event_process_error, unit) outcome" where
  "validate_tx c acl e =
     obind (omap_err (\<lambda>x. ValidateError (TransactionInvalid x)) (transaction_validate c (ev_tx e)))
       (\<lambda>_. case acl (tx_author (ev_tx e)) of
              Inl x \<Rightarrow> Failed (AclWhiteListAuthError x)
            | Inr ok \<Rightarrow> if ok then Done () else Failed (ValidateError SignerNotAuthorized))"

definition verify_tx ::
  "crates \<Rightarrow> acl_whitelist \<Rightarrow> received_tx tx_event \<Rightarrow> (event_process_error, download_tx tx_event) outcome" where
  "verify_tx c acl e =
     obind (omap_err (\<lambda>x. ValidateError (TxValidationFail x)) (validate_tx c acl e))
       (\<lambda>_. Done (download_of_received e))"

text \<open>All downloads run to the end before the first error is reported.\<close>

fun download_all ::
  "crates \<Rightarrow> http_env \<Rightarrow> io_errors \<Rightarrow> path \<Rightarrow> (socket_addr \<times> u16 option) list \<Rightarrow> asset_file list \<Rightarrow> disk
     \<Rightarrow> (download_error + unit) list \<times> disk" where
  "download_all c env io root peers [] d = ([], d)"
| "download_all c env io root peers (f # fs) d =
     (let (r, d1) = download_asset_file c env io root peers f d;
          (rs, d2) = download_all c env io root peers fs d1
      in (r # rs, d2))"

definition downlod_tx_assets ::
  "crates \<Rightarrow> http_env \<Rightarrow> io_errors \<Rightarrow> path \<Rightarrow> (socket_addr \<times> u16 option) list \<Rightarrow> download_tx tx_event \<Rightarrow> disk
     \<Rightarrow> (event_process_error, wait_tx tx_event \<times> propagate_tx tx_event option) outcome \<times> disk" where
  "downlod_tx_assets c env io root peers e d =
     (case omap_err (\<lambda>x. DownloadAssetError (ParamConversion x)) (get_asset_list c (ev_tx e)) of
        Failed x \<Rightarrow> (Failed x, d)
      | Panicked m \<Rightarrow> (Panicked m, d)
      | Done fs \<Rightarrow>
          (let (rs, d') = download_all c env io root peers fs d
           in (obind (of_sum (case collect_result id rs of
                                Inl x \<Rightarrow> Inl (DownloadAssetError (Execution x))
                              | Inr us \<Rightarrow> Inr us))
                 (\<lambda>_. Done (wait_of_download e, propagate_of_download e)), d')))"

section \<open>Propagation and saving\<close>

definition validated_tx :: "received transaction \<Rightarrow> validated transaction" where
  "validated_tx tx = (with_state Validated tx)\<lparr> tx_propagated := True \<rparr>"

text \<open>The unbounded channel towards the peer-to-peer layer: whether its receiver is there, and what was sent.\<close>

record p2p_channel =
  p2p_open :: bool
  p2p_sent :: "validated transaction list"

definition propagate :: "propagate_tx tx_event \<Rightarrow> p2p_channel \<Rightarrow> (event_process_error + unit) \<times> p2p_channel" where
  "propagate e ch =
     (let tx = validated_tx (ev_tx e)
      in if p2p_open ch then (Inr (), ch\<lparr> p2p_sent := p2p_sent ch @ [tx] \<rparr>)
         else (Inl (PropagateTxError tx), ch))"

definition save_tx ::
  "(validated transaction \<Rightarrow> 'm \<Rightarrow> (string + unit) \<times> 'm) \<Rightarrow> new_tx tx_event \<Rightarrow> 'm
     \<Rightarrow> (event_process_error + unit) \<times> 'm" where
  "save_tx send_new_tx e m =
     (let tx = validated_tx (ev_tx e)
      in case send_new_tx tx m of
           (Inl x, m') \<Rightarrow> (Inl (SaveTxError (tx_hash tx) x), m')
         | (Inr u, m') \<Rightarrow> (Inr u, m'))"

section \<open>Dependencies\<close>

definition wait_if_not_cached ::
  "'c lru_ops \<Rightarrow> nat \<Rightarrow> (hash \<Rightarrow> string + bool) \<Rightarrow> wait_tx tx_event \<Rightarrow> hash option \<Rightarrow> 'c tx_cache
     \<Rightarrow> (event_process_error + wait_tx tx_event option) \<times> 'c tx_cache" where
  "wait_if_not_cached L now storage_contains e key cache =
     (case key of
        None \<Rightarrow> (Inr (Some e), cache)
      | Some k \<Rightarrow>
          (if is_tx_cached L cache k then (Inr (Some e), cache)
           else case storage_contains k of
                  Inl x \<Rightarrow> (Inl (StorageError x), cache)
                | Inr True \<Rightarrow> (Inr (Some e), cache)
                | Inr False \<Rightarrow> (Inr None, add_new_waiting_tx now k e cache)))"

fun program_dep_loop ::
  "'c lru_ops \<Rightarrow> nat \<Rightarrow> validate_storage \<Rightarrow> wait_tx tx_event \<Rightarrow> hash list \<Rightarrow> 'c tx_cache
     \<Rightarrow> (event_process_error + wait_tx tx_event option) \<times> 'c tx_cache" where
  "program_dep_loop L now st e [] cache = (Inr (Some e), cache)"
| "program_dep_loop L now st e (p # ps) cache =
     (case wait_if_not_cached L now (vs_contains_program st) e (Some p) cache of
        (Inl x, cache') \<Rightarrow> (Inl x, cache')
      | (Inr None, cache') \<Rightarrow> (Inr None, cache')
      | (Inr (Some e'), cache') \<Rightarrow> program_dep_loop L now st e' ps cache')"

fun release_deployed ::
  "'c lru_ops \<Rightarrow> hash list \<Rightarrow> 'c tx_cache \<Rightarrow> wait_tx tx_event list \<times> 'c tx_cache" where
  "release_deployed L [] cache = ([], cache)"
| "release_deployed L (p # ps) cache =
     (let (txs, cache1) = remove_waiting_children_txs p (add_cached_tx L p cache);
          (rest, cache2) = release_deployed L ps cache1
      in (txs @ rest, cache2))"

definition manage_program_dep ::
  "'c lru_ops \<Rightarrow> nat \<Rightarrow> validate_storage \<Rightarrow> wait_tx tx_event \<Rightarrow> 'c tx_cache
     \<Rightarrow> (event_process_error + wait_tx tx_event list) \<times> 'c tx_cache" where
  "manage_program_dep L now st e cache =
     (case program_dep_loop L now st e (get_run_programs_dep (tx_payload (ev_tx e))) cache of
        (Inl x, cache') \<Rightarrow> (Inl x, cache')
      | (Inr None, cache') \<Rightarrow> (Inr [], cache')
      | (Inr (Some e'), cache') \<Rightarrow>
          (let (txs, cache'') = release_deployed L (get_deploy_programs (tx_payload (ev_tx e'))) cache'
           in (Inr (e' # txs), cache'')))"

text \<open>The re-validation of the program dependencies of released Run transactions.\<close>

fun revalidate_runs ::
  "'c lru_ops \<Rightarrow> nat \<Rightarrow> validate_storage \<Rightarrow> wait_tx tx_event list \<Rightarrow> 'c tx_cache
     \<Rightarrow> (event_process_error + wait_tx tx_event list) \<times> 'c tx_cache" where
  "revalidate_runs L now st [] pc = (Inr [], pc)"
| "revalidate_runs L now st (e # es) pc =
     (if is_run_payload (tx_payload (ev_tx e))
      then case manage_program_dep L now st e pc of
             (Inl x, pc') \<Rightarrow> (Inl x, pc')
           | (Inr txs, pc') \<Rightarrow>
               (case revalidate_runs L now st es pc' of
                  (Inl x, pc'') \<Rightarrow> (Inl x, pc'')
                | (Inr rest, pc'') \<Rightarrow> (Inr (txs @ rest), pc''))
      else case revalidate_runs L now st es pc of
             (Inl x, pc') \<Rightarrow> (Inl x, pc')
           | (Inr rest, pc') \<Rightarrow> (Inr (e # rest), pc'))"

definition storage_has_tx :: "validate_storage \<Rightarrow> hash \<Rightarrow> string + bool" where
  "storage_has_tx st h =
     (case vs_get_tx st h of Inl x \<Rightarrow> Inl x | Inr t \<Rightarrow> Inr (t \<noteq> None))"

definition manage_parent_dep ::
  "'c lru_ops \<Rightarrow> nat \<Rightarrow> validate_storage \<Rightarrow> wait_tx tx_event \<Rightarrow> 'c tx_cache \<times> 'c tx_cache
     \<Rightarrow> (event_process_error + wait_tx tx_event list) \<times> 'c tx_cache \<times> 'c tx_cache" where
  "manage_parent_dep L now st e caches =
     (case caches of (pc, qc) \<Rightarrow>
       (case wait_if_not_cached L now (storage_has_tx st) e (get_parent_tx (tx_payload (ev_tx e))) qc of
          (Inl x, qc1) \<Rightarrow> (Inl x, pc, qc1)
        | (Inr new_tx, qc1) \<Rightarrow>
            (let (tmp, qc2) =
               (case new_tx of
                  None \<Rightarrow> ([], qc1)
                | Some t \<Rightarrow>
                    (let (children, q) = remove_waiting_children_txs (tx_hash (ev_tx t)) qc1
                     in (t # children, q)))
             in case revalidate_runs L now st tmp pc of
                  (Inl x, pc1) \<Rightarrow> (Inl x, pc1, qc2)
                | (Inr new_txs, pc1) \<Rightarrow>
                    (Inr new_txs, pc1,
                     fold (\<lambda>t. add_cached_tx L (tx_hash (ev_tx t))) new_txs qc2))))"

fun parent_dep_loop ::
  "'c lru_ops \<Rightarrow> nat \<Rightarrow> validate_storage \<Rightarrow> wait_tx tx_event list \<Rightarrow> 'c tx_cache \<times> 'c tx_cache
     \<Rightarrow> (event_process_error + wait_tx tx_event list) \<times> 'c tx_cache \<times> 'c tx_cache" where
  "parent_dep_loop L now st [] caches = (Inr [], caches)"
| "parent_dep_loop L now st (e # es) caches =
     (case manage_parent_dep L now st e caches of
        (Inl x, caches') \<Rightarrow> (Inl x, caches')
      | (Inr txs, caches') \<Rightarrow>
          (case parent_dep_loop L now st es caches' of
             (Inl x, caches'') \<Rightarrow> (Inl x, caches'')
           | (Inr rest, caches'') \<Rightarrow> (Inr (txs @ rest), caches'')))"

definition validate_tx_dep ::
  "'c lru_ops \<Rightarrow> nat \<Rightarrow> validate_storage \<Rightarrow> wait_tx tx_event \<Rightarrow> 'c tx_cache \<times> 'c tx_cache
     \<Rightarrow> (event_process_error + new_tx tx_event list) \<times> 'c tx_cache \<times> 'c tx_cache" where
  "validate_tx_dep L now st e caches =
     (case caches of (pc, qc) \<Rightarrow>
       (case manage_program_dep L now st e pc of
          (Inl x, pc1) \<Rightarrow> (Inl x, pc1, qc)
        | (Inr prg_ok_txs, pc1) \<Rightarrow>
            (case parent_dep_loop L now st prg_ok_txs (pc1, qc) of
               (Inl x, caches') \<Rightarrow> (Inl x, caches')
             | (Inr new_txs, caches') \<Rightarrow> (Inr (map new_of_wait new_txs), caches'))))"

section \<open>No event is lost or duplicated\<close>

text \<open>
  \<open>conserve True\<close> is equality of multisets and \<open>conserve False\<close> inclusion: eviction of stale entries
  can only lose events.
\<close>

definition conserve :: "bool \<Rightarrow> 'a multiset \<Rightarrow> 'a multiset \<Rightarrow> bool" where
  "conserve s A B \<longleftrightarrow> (if s then A = B else A \<subseteq># B)"

lemma conserve_refl [simp, intro]: "conserve s A A"
  by (simp add: conserve_def)

lemma conserve_trans: "conserve s A B \<Longrightarrow> conserve s B C \<Longrightarrow> conserve s A C"
  by (auto simp: conserve_def split: if_splits)

lemma conserve_add: "conserve s A B \<Longrightarrow> conserve s C D \<Longrightarrow> conserve s (A + C) (B + D)"
  by (auto simp: conserve_def intro: subset_mset.add_mono split: if_splits)

lemma conserve_seq:
  assumes "conserve s (R1 + W1) (A + W)" and "conserve s (R2 + W2) (B + W1)"
  shows "conserve s (R1 + R2 + W2) (A + B + W)"
proof -
  have "conserve s (R2 + W2 + R1) (B + W1 + R1)" "conserve s (R1 + W1 + B) (A + W + B)"
    using assms by (blast intro: conserve_add)+
  then show ?thesis by (auto intro: conserve_trans simp: ac_simps)
qed

definition room_ok :: "bool \<Rightarrow> nat \<Rightarrow> 'c tx_cache \<Rightarrow> bool" where
  "room_ok s now c \<longleftrightarrow> cache_ok c \<and> (s \<longrightarrow> all_fresh now c)"

lemma room_ok_add_cached [simp]: "room_ok s now (add_cached_tx L h c) = room_ok s now c"
  by (simp add: room_ok_def)

lemma room_ok_add [simp]: "room_ok s now c \<Longrightarrow> room_ok s now (add_new_waiting_tx now h e c)"
  by (simp add: room_ok_def all_fresh_add)

lemma add_waiting_conserve:
  "room_ok s now c \<Longrightarrow> conserve s (waiting (add_new_waiting_tx now h e c)) (add_mset e (waiting c))"
  by (simp add: room_ok_def conserve_def add_new_waiting_fresh add_new_waiting_le(1))

lemma wait_if_not_cached_cases:
  assumes "wait_if_not_cached L now f e key c = (r, c')"
  obtains (err) x where "r = Inl x" "c' = c"
    | (pass) "r = Inr (Some e)" "c' = c" "\<forall>k. key = Some k \<longrightarrow> is_tx_cached L c k \<or> f k = Inr True"
    | (park) k where "r = Inr None" "key = Some k" "c' = add_new_waiting_tx now k e c"
        "\<not> is_tx_cached L c k" "f k = Inr False"
  using assms
  by (auto simp: wait_if_not_cached_def split: option.splits if_splits sum.splits bool.splits)

lemma program_dep_loop_cases:
  assumes "program_dep_loop L now st e ps c = (r, c')"
  obtains (err) x where "r = Inl x" "c' = c"
    | (pass) "r = Inr (Some e)" "c' = c"
        "\<forall>p\<in>set ps. is_tx_cached L c p \<or> vs_contains_program st p = Inr True"
    | (park) k where "r = Inr None" "k \<in> set ps" "c' = add_new_waiting_tx now k e c"
        "\<not> is_tx_cached L c k" "vs_contains_program st k = Inr False"
proof -
  have "(\<exists>x. r = Inl x \<and> c' = c) \<or>
        (r = Inr (Some e) \<and> c' = c \<and>
           (\<forall>p\<in>set ps. is_tx_cached L c p \<or> vs_contains_program st p = Inr True)) \<or>
        (\<exists>k\<in>set ps. r = Inr None \<and> c' = add_new_waiting_tx now k e c \<and>
           \<not> is_tx_cached L c k \<and> vs_contains_program st k = Inr False)"
    using assms
  proof (induction ps)
    case (Cons p ps)
    obtain r1 c1 where w: "wait_if_not_cached L now (vs_contains_program st) e (Some p) c = (r1, c1)"
      by (cases "wait_if_not_cached L now (vs_contains_program st) e (Some p) c")
    then show ?case
      by (rule wait_if_not_cached_cases) (use Cons w in auto)
  qed simp
  then show ?thesis using that by blast
qed

lemma release_deployed_props:
  assumes "release_deployed L ps c = (txs, c')" and "cache_ok c"
  shows "waiting c = mset txs + waiting c' \<and> cache_ok c' \<and> (all_fresh now c \<longrightarrow> all_fresh now c') \<and>
         (lru_ok L \<longrightarrow> (\<forall>k. is_tx_cached L c' k \<longrightarrow> k \<in> set ps \<or> is_tx_cached L c k))"
  using assms
proof (induction ps arbitrary: c txs)
  case (Cons p ps)
  obtain txs1 c1 where r: "remove_waiting_children_txs p (add_cached_tx L p c) = (txs1, c1)"
    by (cases "remove_waiting_children_txs p (add_cached_tx L p c)")
  obtain rest where rest: "release_deployed L ps c1 = (rest, c')" "txs = txs1 @ rest"
    using Cons.prems(1) r by (auto split: prod.splits)
  have ok: "cache_ok (add_cached_tx L p c)" using Cons.prems(2) by simp
  note rm = remove_waiting_eq [OF ok r]
  have "is_tx_cached L c1 k \<longleftrightarrow> is_tx_cached L (add_cached_tx L p c) k" for k
    using rm(3) by (simp add: is_tx_cached_def)
  with Cons.IH [OF rest(1) rm(2)] rm(1) rm(4) [of now] rest(2) show ?case
    by (auto dest: is_tx_cached_add(1) simp: ac_simps)
qed simp

text \<open>The programs a Run transaction may rely on.\<close>

definition known :: "'c lru_ops \<Rightarrow> validate_storage \<Rightarrow> 'c tx_cache \<Rightarrow> hash set" where
  "known L st c = {k. is_tx_cached L c k \<or> vs_contains_program st k = Inr True}"

abbreviation run_programs :: "'t tx_event \<Rightarrow> hash list" where
  "run_programs e \<equiv> get_run_programs_dep (tx_payload (ev_tx e))"

abbreviation deployed_programs :: "'t tx_event \<Rightarrow> hash list" where
  "deployed_programs e \<equiv> get_deploy_programs (tx_payload (ev_tx e))"

lemma known_add_waiting [simp]: "known L st (add_new_waiting_tx now k e c) = known L st c"
  by (simp add: known_def is_tx_cached_def)

lemma manage_program_dep_props:
  assumes "manage_program_dep L now st e c = (Inr rs, c')" and "room_ok s now c"
  shows "conserve s (mset rs + waiting c') (add_mset e (waiting c)) \<and> room_ok s now c' \<and>
         (lru_ok L \<longrightarrow> known L st c' \<subseteq> known L st c \<union> set (deployed_programs e)) \<and>
         (deployed_programs e = [] \<longrightarrow> known L st c' = known L st c) \<and>
         (rs = [] \<and> run_programs e \<noteq> [] \<or>
          hd rs = e \<and> rs \<noteq> [] \<and> set (run_programs e) \<subseteq> known L st c \<and>
          (deployed_programs e = [] \<longrightarrow> rs = [e] \<and> c' = c))"
proof -
  obtain r c1 where loop: "program_dep_loop L now st e (run_programs e) c = (r, c1)"
    by (cases "program_dep_loop L now st e (run_programs e) c")
  then show ?thesis
  proof (cases rule: program_dep_loop_cases)
    case (err x)
    with assms loop show ?thesis by (simp add: manage_program_dep_def)
  next
    case (park k)
    with assms loop show ?thesis
      by (auto simp: manage_program_dep_def add_waiting_conserve)
  next
    case pass
    obtain txs c2 where rel: "release_deployed L (deployed_programs e) c = (txs, c2)"
      by (cases "release_deployed L (deployed_programs e) c")
    have "rs = e # txs" "c' = c2"
      using assms loop pass rel by (auto simp: manage_program_dep_def)
    moreover have "cache_ok c" using assms(2) by (simp add: room_ok_def)
    ultimately show ?thesis
      using release_deployed_props [OF rel, of now] rel assms(2) pass
      by (auto simp: conserve_def room_ok_def known_def)
  qed
qed

lemma run_payload_programs:
  "\<not> is_run_payload p \<Longrightarrow> get_run_programs_dep p = []"
  "is_run_payload p \<Longrightarrow> get_deploy_programs p = []"
  by (cases p; simp)+

lemma revalidate_runs_props:
  assumes "revalidate_runs L now st es c = (Inr rs, c')" and "room_ok s now c"
  shows "conserve s (mset rs + waiting c') (mset es + waiting c) \<and> room_ok s now c' \<and>
         known L st c' = known L st c \<and> (\<forall>e\<in>set rs. set (run_programs e) \<subseteq> known L st c)"
  using assms
proof (induction es arbitrary: c rs)
  case (Cons e es)
  show ?case
  proof (cases "is_run_payload (tx_payload (ev_tx e))")
    case True
    then obtain txs c1 rest where m: "manage_program_dep L now st e c = (Inr txs, c1)"
      and r: "revalidate_runs L now st es c1 = (Inr rest, c')" "rs = txs @ rest"
      using Cons.prems(1) by (auto split: prod.splits sum.splits)
    note mp = manage_program_dep_props [OF m Cons.prems(2)]
    have c1: "room_ok s now c1" using mp by blast
    note ih = Cons.IH [OF r(1) c1]
    have "conserve s (mset txs + waiting c1) ({#e#} + waiting c)"
      and "conserve s (mset rest + waiting c') (mset es + waiting c1)"
      using ih mp by simp_all
    from conserve_seq [OF this] have "conserve s (mset rs + waiting c') (mset (e # es) + waiting c)"
      using r(2) by simp
    moreover have "known L st c1 = known L st c"
      using mp run_payload_programs(2) [OF True] by simp
    moreover have "txs = [] \<or> txs = [e] \<and> set (run_programs e) \<subseteq> known L st c"
      using mp run_payload_programs(2) [OF True] by auto
    ultimately show ?thesis using ih r(2) by auto
  next
    case False
    then obtain rest where r: "revalidate_runs L now st es c = (Inr rest, c')" "rs = e # rest"
      using Cons.prems(1) by (auto split: prod.splits sum.splits)
    have "conserve s (mset rs + waiting c') (mset (e # es) + waiting c)"
      using Cons.IH [OF r(1) Cons.prems(2)] r(2) conserve_add [of s _ _ "{#e#}" "{#e#}"] by fastforce
    then show ?thesis
      using Cons.IH [OF r(1) Cons.prems(2)] r(2) run_payload_programs(1) [OF False] by auto
  qed
qed simp

lemma fold_add_cached_keeps [simp]:
  "waiting (fold (\<lambda>t. add_cached_tx L (f t)) ts c) = waiting c"
  "room_ok s now (fold (\<lambda>t. add_cached_tx L (f t)) ts c) = room_ok s now c"
  by (induction ts arbitrary: c) simp_all

lemma manage_parent_dep_props:
  assumes "manage_parent_dep L now st e (pc, qc) = (Inr rs, pc', qc')"
    and "room_ok s now pc" and "room_ok s now qc"
  shows "conserve s (mset rs + waiting pc' + waiting qc') (add_mset e (waiting pc + waiting qc)) \<and>
         room_ok s now pc' \<and> room_ok s now qc' \<and> known L st pc' = known L st pc \<and>
         (\<forall>e\<in>set rs. set (run_programs e) \<subseteq> known L st pc)"
proof -
  obtain r qc1 where w: "wait_if_not_cached L now (storage_has_tx st) e
      (get_parent_tx (tx_payload (ev_tx e))) qc = (r, qc1)"
    by (cases "wait_if_not_cached L now (storage_has_tx st) e
      (get_parent_tx (tx_payload (ev_tx e))) qc")
  then show ?thesis
  proof (cases rule: wait_if_not_cached_cases)
    case (err x)
    with assms(1) w show ?thesis by (simp add: manage_parent_dep_def)
  next
    case (park k)
    with assms w have "rs = []" "pc' = pc" "qc' = add_new_waiting_tx now k e qc"
      by (auto simp: manage_parent_dep_def)
    then show ?thesis
      using assms(2,3) conserve_add [OF conserve_refl add_waiting_conserve [OF assms(3)], of "waiting pc" k e]
      by simp
  next
    case pass
    obtain ch qc2 where ch: "remove_waiting_children_txs (tx_hash (ev_tx e)) qc = (ch, qc2)"
      by (cases "remove_waiting_children_txs (tx_hash (ev_tx e)) qc")
    with assms(1) w pass have rv: "revalidate_runs L now st (e # ch) pc = (Inr rs, pc')"
      and qc': "qc' = fold (\<lambda>t. add_cached_tx L (tx_hash (ev_tx t))) rs qc2"
      by (auto simp: manage_parent_dep_def simp del: revalidate_runs.simps
          split: prod.splits sum.splits)
    have "cache_ok qc" using assms(3) by (simp add: room_ok_def)
    note rm = remove_waiting_eq [OF this ch]
    have "room_ok s now qc2" using rm assms(3) by (auto simp: room_ok_def)
    moreover have "conserve s (mset rs + waiting pc' + waiting qc2) (mset (e # ch) + waiting pc + waiting qc2)"
      using revalidate_runs_props [OF rv assms(2)] by (blast intro: conserve_add)
    ultimately show ?thesis
      using revalidate_runs_props [OF rv assms(2)] rm(1) qc' by (simp add: ac_simps)
  qed
qed

lemma parent_dep_loop_props:
  assumes "parent_dep_loop L now st es (pc, qc) = (Inr rs, pc', qc')"
    and "room_ok s now pc" and "room_ok s now qc"
  shows "conserve s (mset rs + waiting pc' + waiting qc') (mset es + waiting pc + waiting qc) \<and>
         room_ok s now pc' \<and> room_ok s now qc' \<and> known L st pc' = known L st pc \<and>
         (\<forall>e\<in>set rs. set (run_programs e) \<subseteq> known L st pc)"
  using assms
proof (induction es arbitrary: pc qc rs)
  case (Cons e es)
  then obtain txs pc1 qc1 rest where m: "manage_parent_dep L now st e (pc, qc) = (Inr txs, pc1, qc1)"
    and r: "parent_dep_loop L now st es (pc1, qc1) = (Inr rest, pc', qc')" "rs = txs @ rest"
    by (auto split: prod.splits sum.splits)
  note mp = manage_parent_dep_props [OF m Cons.prems(2,3)]
  have ok: "room_ok s now pc1" "room_ok s now qc1" using mp by blast+
  note ih = Cons.IH [OF r(1) ok]
  have "conserve s (mset txs + (waiting pc1 + waiting qc1)) ({#e#} + (waiting pc + waiting qc))"
    and "conserve s (mset rest + (waiting pc' + waiting qc')) (mset es + (waiting pc1 + waiting qc1))"
    using ih mp by (simp_all add: add.assoc)
  from conserve_seq [OF this]
  have "conserve s (mset rs + waiting pc' + waiting qc') (mset (e # es) + waiting pc + waiting qc)"
    using r(2) by (simp add: add.assoc)
  then show ?case using ih mp r(2) by auto
qed simp

lemma validate_tx_dep_props:
  assumes "validate_tx_dep L now st e (pc, qc) = (Inr rs, pc', qc')"
    and "room_ok s now pc" and "room_ok s now qc"
  shows "\<exists>ws. rs = map new_of_wait ws \<and>
           conserve s (mset ws + (waiting pc' + waiting qc')) (add_mset e (waiting pc + waiting qc)) \<and>
           room_ok s now pc' \<and> room_ok s now qc'"
    and "lru_ok L \<Longrightarrow> t \<in> set rs \<Longrightarrow>
           set (run_programs t) \<subseteq> known L st pc \<union> set (deployed_programs e)"
    and "deployed_programs e \<noteq> [] \<Longrightarrow> rs \<noteq> [] \<and> hd rs = new_of_wait e"
proof -
  obtain ps pc1 ws where m: "manage_program_dep L now st e pc = (Inr ps, pc1)"
    and l: "parent_dep_loop L now st ps (pc1, qc) = (Inr ws, pc', qc')" and rs: "rs = map new_of_wait ws"
    using assms(1) by (auto simp: validate_tx_dep_def split: prod.splits sum.splits)
  note mp = manage_program_dep_props [OF m assms(2)]
  have pc1: "room_ok s now pc1" using mp by blast
  note lp = parent_dep_loop_props [OF l pc1 assms(3)]
  have "conserve s (mset [] + (mset ps + waiting pc1)) (mset [e] + waiting pc)"
    and "conserve s (mset ws + (waiting pc' + waiting qc')) ((mset ps + waiting pc1) + waiting qc)"
    using mp lp by (simp_all add: add.assoc)
  then have "conserve s (mset ws + (waiting pc' + waiting qc')) (add_mset e (waiting pc + waiting qc))"
    using conserve_trans conserve_add [of s "mset ps + waiting pc1" "add_mset e (waiting pc)" "waiting qc" "waiting qc"]
    by fastforce
  with rs lp show "\<exists>ws. rs = map new_of_wait ws \<and>
           conserve s (mset ws + (waiting pc' + waiting qc')) (add_mset e (waiting pc + waiting qc)) \<and>
           room_ok s now pc' \<and> room_ok s now qc'" by blast
  show "set (run_programs t) \<subseteq> known L st pc \<union> set (deployed_programs e)"
    if "lru_ok L" and "t \<in> set rs"
    using that mp lp rs by fastforce
  show "rs \<noteq> [] \<and> hd rs = new_of_wait e" if d: "deployed_programs e \<noteq> []"
  proof -
    obtain n p v where pl: "tx_payload (ev_tx e) = Deploy n p v"
      using d by (cases "tx_payload (ev_tx e)") auto
    then have "ps \<noteq> [] \<and> hd ps = e" using mp by auto
    then obtain es where ps: "ps = e # es" by (cases ps) auto
    obtain txs caches where mpd: "manage_parent_dep L now st e (pc1, qc) = (Inr txs, caches)"
      and "\<exists>rest. ws = txs @ rest"
      using l ps by (auto split: prod.splits sum.splits)
    moreover have "txs \<noteq> [] \<and> hd txs = e"
      using mpd pl by (auto simp: manage_parent_dep_def wait_if_not_cached_def split: prod.splits sum.splits)
    ultimately show ?thesis using rs by (auto simp: hd_map)
  qed
qed

text \<open>The failing runs: what was already taken out is lost, nothing new appears.\<close>

lemma cache_ok_room: "cache_ok c \<longleftrightarrow> room_ok False now c"
  by (simp add: room_ok_def)

lemma conserve_False: "conserve False A B \<longleftrightarrow> A \<subseteq># B"
  by (simp add: conserve_def)

lemma manage_program_dep_err: "manage_program_dep L now st e c = (Inl x, c') \<Longrightarrow> c' = c"
  by (auto simp: manage_program_dep_def split: prod.splits sum.splits option.splits
      elim: program_dep_loop_cases)

lemma revalidate_runs_err:
  assumes "revalidate_runs L now st es c = (Inl x, c')" and "cache_ok c"
  shows "cache_ok c' \<and> waiting c' \<subseteq># mset es + waiting c"
  using assms
proof (induction es arbitrary: c)
  case (Cons e es)
  consider (run_err) "manage_program_dep L now st e c = (Inl x, c')"
    | (run) txs c1 where "manage_program_dep L now st e c = (Inr txs, c1)"
        "revalidate_runs L now st es c1 = (Inl x, c')"
    | (other) "revalidate_runs L now st es c = (Inl x, c')"
    using Cons.prems(1) by (auto split: if_splits prod.splits sum.splits)
  then show ?case
  proof cases
    case run_err
    then show ?thesis using Cons.prems(2) manage_program_dep_err by (metis mset_subset_eq_add_right)
  next
    case (run txs c1)
    have "mset txs + waiting c1 \<subseteq># add_mset e (waiting c)" and ok: "cache_ok c1"
      using manage_program_dep_props [OF run(1), of False] Cons.prems(2)
      by (simp_all add: cache_ok_room [of _ now] conserve_False)
    then have "waiting c1 \<subseteq># add_mset e (waiting c)"
      by (meson mset_subset_eq_add_right subset_mset.order_trans)
    moreover note Cons.IH [OF run(2) ok]
    ultimately show ?thesis
      by (auto intro: subset_mset.order_trans simp: subset_mset.add_mono)
  next
    case other
    from Cons.IH [OF other Cons.prems(2)] show ?thesis
      by (auto intro: subset_mset.order_trans simp: subset_mset.add_increasing)
  qed
qed simp

lemma manage_parent_dep_err:
  assumes "manage_parent_dep L now st e (pc, qc) = (Inl x, pc', qc')"
    and "cache_ok pc" and "cache_ok qc"
  shows "cache_ok pc' \<and> cache_ok qc' \<and> waiting pc' + waiting qc' \<subseteq># add_mset e (waiting pc + waiting qc)"
proof -
  obtain r qc1 where w: "wait_if_not_cached L now (storage_has_tx st) e
      (get_parent_tx (tx_payload (ev_tx e))) qc = (r, qc1)"
    by (rule prod.exhaust)
  then show ?thesis
  proof (cases rule: wait_if_not_cached_cases)
    case (err y)
    with assms w show ?thesis by (auto simp: manage_parent_dep_def)
  next
    case (park k)
    with assms w show ?thesis by (auto simp: manage_parent_dep_def)
  next
    case pass
    obtain ch qc2 where ch: "remove_waiting_children_txs (tx_hash (ev_tx e)) qc = (ch, qc2)"
      by (rule prod.exhaust)
    with assms(1) w pass have rv: "revalidate_runs L now st (e # ch) pc = (Inl x, pc')" and "qc' = qc2"
      by (auto simp: manage_parent_dep_def simp del: revalidate_runs.simps
          split: prod.splits sum.splits)
    moreover note rm = remove_waiting_eq [OF assms(3) ch]
    moreover note re = revalidate_runs_err [OF rv assms(2)]
    ultimately show ?thesis
      using subset_mset.add_right_mono [of "waiting pc'" "mset (e # ch) + waiting pc" "waiting qc2"]
      by (simp add: ac_simps)
  qed
qed

lemma parent_dep_loop_err:
  assumes "parent_dep_loop L now st es (pc, qc) = (Inl x, pc', qc')"
    and "cache_ok pc" and "cache_ok qc"
  shows "cache_ok pc' \<and> cache_ok qc' \<and> waiting pc' + waiting qc' \<subseteq># mset es + (waiting pc + waiting qc)"
  using assms
proof (induction es arbitrary: pc qc)
  case (Cons e es)
  consider (now_err) "manage_parent_dep L now st e (pc, qc) = (Inl x, pc', qc')"
    | (later) txs pc1 qc1 where "manage_parent_dep L now st e (pc, qc) = (Inr txs, pc1, qc1)"
        "parent_dep_loop L now st es (pc1, qc1) = (Inl x, pc', qc')"
    using Cons.prems(1) by (auto split: prod.splits sum.splits)
  then show ?case
  proof cases
    case now_err
    from manage_parent_dep_err [OF this Cons.prems(2,3)] show ?thesis
      by (auto intro: subset_mset.order_trans simp: subset_mset.add_increasing)
  next
    case (later txs pc1 qc1)
    have "mset txs + (waiting pc1 + waiting qc1) \<subseteq># {#e#} + (waiting pc + waiting qc)"
      and ok: "cache_ok pc1" "cache_ok qc1"
      using manage_parent_dep_props [OF later(1), of False] Cons.prems(2,3)
      by (simp_all add: cache_ok_room [of _ now] conserve_False add.assoc)
    then have "waiting pc1 + waiting qc1 \<subseteq># {#e#} + (waiting pc + waiting qc)"
      by (meson mset_subset_eq_add_right subset_mset.order_trans)
    from subset_mset.add_left_mono [OF this, of "mset es"] Cons.IH [OF later(2) ok]
    show ?thesis by (auto intro: subset_mset.order_trans)
  qed
qed simp

lemma validate_tx_dep_caches:
  assumes "validate_tx_dep L now st e (pc, qc) = (r, pc', qc')" and "cache_ok pc" and "cache_ok qc"
  shows "cache_ok pc' \<and> cache_ok qc' \<and> waiting pc' + waiting qc' \<subseteq># add_mset e (waiting pc + waiting qc)"
proof (cases r)
  case (Inr rs)
  have ok: "room_ok False now pc" "room_ok False now qc" using assms by (simp_all add: room_ok_def)
  obtain ws where "mset ws + (waiting pc' + waiting qc') \<subseteq># add_mset e (waiting pc + waiting qc)"
    and "room_ok False now pc'" "room_ok False now qc'"
    using validate_tx_dep_props(1) [OF assms(1) [unfolded Inr] ok] by (auto simp: conserve_def)
  then show ?thesis
    by (auto simp: room_ok_def intro: subset_mset.order_trans [OF mset_subset_eq_add_right])
next
  case (Inl x)
  consider (early) "manage_program_dep L now st e pc = (Inl x, pc')" "qc' = qc"
    | (late) ps pc1 where "manage_program_dep L now st e pc = (Inr ps, pc1)"
        "parent_dep_loop L now st ps (pc1, qc) = (Inl x, pc', qc')"
    using assms(1) Inl by (auto simp: validate_tx_dep_def split: prod.splits sum.splits)
  then show ?thesis
  proof cases
    case early
    then show ?thesis using assms manage_program_dep_err by fastforce
  next
    case (late ps pc1)
    have "mset ps + waiting pc1 \<subseteq># add_mset e (waiting pc)" and ok: "cache_ok pc1"
      using manage_program_dep_props [OF late(1), of False] assms(2)
      by (simp_all add: cache_ok_room [of _ now] conserve_False)
    with parent_dep_loop_err [OF late(2) ok assms(3)]
      subset_mset.add_right_mono [of "mset ps + waiting pc1" "add_mset e (waiting pc)" "waiting qc"]
    show ?thesis by (auto intro: subset_mset.order_trans simp: add.assoc)
  qed
qed

lemma validate_tx_dep_released:
  assumes "validate_tx_dep L now st e (pc, qc) = (Inr rs, pc', qc')" and "cache_ok pc" and "cache_ok qc"
    and "t \<in> set rs"
  shows "\<exists>w. ev_tx t = ev_tx w \<and> w \<in># add_mset e (waiting pc + waiting qc)"
proof -
  have ok: "room_ok False now pc" "room_ok False now qc" using assms by (simp_all add: room_ok_def)
  obtain ws where ws: "rs = map new_of_wait ws"
    and le: "mset ws + (waiting pc' + waiting qc') \<subseteq># add_mset e (waiting pc + waiting qc)"
    using validate_tx_dep_props(1) [OF assms(1) ok] by (auto simp: conserve_def)
  from assms(4) ws obtain w where "w \<in> set ws" "t = new_of_wait w" by auto
  then show ?thesis
    using mset_subset_eqD [OF le, of w] by auto
qed

section \<open>Sample events\<close>

text \<open>A concrete cache of bounded size, most recent first, and storage that holds nothing.\<close>

definition sample_lru :: "(nat \<times> hash list) lru_ops" where
  "sample_lru =
     \<lparr> lru_new = (\<lambda>n. (n, [])),
       lru_contains = (\<lambda>c k. k \<in> set (snd c)),
       lru_put = (\<lambda>k c. (fst c, take (max 1 (fst c)) (k # removeAll k (snd c)))) \<rparr>"

lemma sample_lru_ok: "lru_ok sample_lru"
proof -
  have "k \<in> set (take (max 1 n) (k # xs))" for k :: hash and n xs
    by (cases "max 1 n") auto
  then show ?thesis
    by (auto simp: lru_ok_def sample_lru_def dest!: in_set_takeD)
qed

definition sample_cache :: "(nat \<times> hash list) tx_cache" where
  "sample_cache =
     \<lparr> waiting_tx = hm_empty, cached_tx_for_verification = (50, []), max_waiting_tx = 100,
       max_waiting_time = 3600000 \<rparr>"

lemma sample_cache_new: "tx_cache_new sample_lru = Done sample_cache"
  by (simp add: tx_cache_new_def tx_cache_build_def sample_lru_def sample_cache_def
      MAX_CACHED_TX_FOR_VERIFICATION_def MAX_WAITING_TX_FOR_VERIFICATION_def
      MAX_WAITING_TIME_IN_MS_def)

definition empty_storage :: validate_storage where
  "empty_storage = \<lparr> vs_get_tx = (\<lambda>_. Inr None), vs_contains_program = (\<lambda>_. Inr False) \<rparr>"

definition sample_event :: "byte \<Rightarrow> payload \<Rightarrow> wait_tx tx_event" where
  "sample_event b p =
     \<lparr> ev_tx = (with_state P2P (transaction_default sample_crates Created))
                 \<lparr> tx_hash := sample_hash b, tx_payload := p \<rparr>,
       ev_type = WaitTx \<rparr>"

definition sample_metadata :: "byte \<Rightarrow> program_metadata" where
  "sample_metadata b =
     \<lparr> pm_name = [], pm_hash = sample_hash b, pm_image_file_name = [], pm_image_file_url = [],
       pm_image_file_checksum = [], pm_resource_requirements = None \<rparr>"

definition sample_run :: "byte \<Rightarrow> byte list \<Rightarrow> wait_tx tx_event" where
  "sample_run b ps =
     sample_event b (Run \<lparr> steps = map (\<lambda>p. \<lparr> ws_program = sample_hash p, ws_args = [], ws_inputs = [] \<rparr>) ps \<rparr>)"

definition sample_deploy :: "byte \<Rightarrow> byte \<Rightarrow> byte \<Rightarrow> wait_tx tx_event" where
  "sample_deploy b p q = sample_event b (Deploy [] (sample_metadata p) (sample_metadata q))"

definition sample_proof :: "byte \<Rightarrow> byte \<Rightarrow> wait_tx tx_event" where
  "sample_proof b parent = sample_event b (Proof (sample_hash parent) (sample_hash 9) [] [])"

lemma sample_event_simps [simp]:
  "tx_hash (ev_tx (sample_event b p)) = sample_hash b"
  "tx_payload (ev_tx (sample_event b p)) = p"
  by (simp_all add: sample_event_def)

lemmas dep_eval = validate_tx_dep_def manage_program_dep_def manage_parent_dep_def
  wait_if_not_cached_def storage_has_tx_def empty_storage_def is_tx_cached_def add_cached_tx_def
  add_new_waiting_tx_def remove_waiting_children_txs_def sample_lru_def sample_cache_def
  hmap_eval sample_run_def sample_deploy_def sample_proof_def sample_metadata_def

section \<open>Properties\<close>

text \<open>
  \<open>verify_tx\<close> lets a received transaction pass exactly when it validates and the access list
  contains its author, and then passes on the same transaction.
\<close>

theorem verify_tx_passes_iff:
  "verify_tx c acl e = Done d \<longleftrightarrow>
     transaction_validate c (ev_tx e) = Done () \<and> acl (tx_author (ev_tx e)) = Inr True \<and>
     d = download_of_received e"
  by (auto simp: verify_tx_def validate_tx_def outcome_simps split: sum.splits if_splits)


lemma sample_cache_ok: "cache_ok sample_cache" "all_fresh now sample_cache" "waiting sample_cache = {#}"
  by (simp_all add: cache_ok_def all_fresh_def waiting_def sample_cache_def hm_empty_def hm_ok_def)

lemma sample_run_parks:
  "\<exists>pc. validate_tx_dep sample_lru 0 empty_storage (sample_run 1 [11]) (sample_cache, sample_cache) =
          (Inr [], pc, sample_cache) \<and>
        pc = add_new_waiting_tx 0 (sample_hash 11) (sample_run 1 [11]) sample_cache"
  by (simp add: dep_eval)


text \<open>
  whatever the age of the waiting entries, nothing is ever released twice or made up: what is
  released and what still waits is part of the event and what waited before.
\<close>

theorem dependencies_never_duplicate:
  assumes "validate_tx_dep L now st e (pc, qc) = (Inr rs, pc', qc')"
    and "cache_ok pc" "cache_ok qc"
  shows "image_mset ev_tx (mset rs) + image_mset ev_tx (waiting pc' + waiting qc') \<subseteq>#
           add_mset (ev_tx e) (image_mset ev_tx (waiting pc + waiting qc))"
proof -
  have ok: "room_ok False now pc" "room_ok False now qc" using assms by (simp_all add: room_ok_def)
  obtain ws where ws: "rs = map new_of_wait ws"
    and le: "mset ws + (waiting pc' + waiting qc') \<subseteq># add_mset e (waiting pc + waiting qc)"
    using validate_tx_dep_props(1) [OF assms(1) ok] by (auto simp: conserve_def)
  have "image_mset ev_tx (mset rs) = image_mset ev_tx (mset ws)"
    by (simp add: ws multiset.map_comp comp_def)
  then show ?thesis
    using image_mset_subseteq_mono [OF le, of ev_tx] by simp
qed

theorem dependencies_never_duplicate_witness:
  "\<exists>rs pc qc. validate_tx_dep sample_lru 9000000 empty_storage (sample_deploy 3 11 13)
      (add_new_waiting_tx 0 (sample_hash 11) (sample_run 1 [11]) sample_cache, sample_cache) = (Inr rs, pc, qc) \<and>
      image_mset ev_tx (mset rs) \<subseteq># {#ev_tx (sample_deploy 3 11 13), ev_tx (sample_run 1 [11])#}"
proof -
  let ?pc = "add_new_waiting_tx 0 (sample_hash 11) (sample_run 1 [11]) sample_cache"
  obtain rs pc qc where r: "validate_tx_dep sample_lru 9000000 empty_storage (sample_deploy 3 11 13)
      (?pc, sample_cache) = (Inr rs, pc, qc)"
    by (simp add: dep_eval)
  have "waiting ?pc = {#sample_run 1 [11]#}"
    by (simp add: add_new_waiting_fresh sample_cache_ok)
  with dependencies_never_duplicate [OF r] r show ?thesis
    by (auto simp: sample_cache_ok dest: subset_mset.dual_order.trans [OF _ mset_subset_eq_add_left])
qed



text \<open>
  a child can be released before its parent. A Run transaction that waits for one of its
  programs while its Proof waits for it is put back to wait for a second program when the first
  one is deployed, but the Proof has already been taken out and is released.
\<close>

theorem child_released_before_parent:
  "let r = sample_run 1 [11, 12]; p = sample_proof 2 1; d = sample_deploy 3 11 13;
       (_, caches1) = validate_tx_dep sample_lru 0 empty_storage r (sample_cache, sample_cache);
       (_, caches2) = validate_tx_dep sample_lru 0 empty_storage p caches1;
       (rs, pc, qc) = validate_tx_dep sample_lru 0 empty_storage d caches2
   in rs = Inr [new_of_wait d, new_of_wait p] \<and> r \<in># waiting pc"
  by (simp add: dep_eval waiting_def)

text \<open>
  a waiting grandchild is not released with its parent: when a Verification waits for a Proof
  that waits for a Run, the arrival of the Run releases the Proof and leaves the Verification
  waiting, although its parent is now known.
\<close>

theorem grandchild_keeps_waiting:
  "let v = sample_proof 1 2; p = sample_proof 2 3; r = sample_run 3 [];
       (_, caches1) = validate_tx_dep sample_lru 0 empty_storage v (sample_cache, sample_cache);
       (_, caches2) = validate_tx_dep sample_lru 0 empty_storage p caches1;
       (rs, pc, qc) = validate_tx_dep sample_lru 0 empty_storage r caches2
   in rs = Inr [new_of_wait r, new_of_wait p] \<and> v \<in># waiting qc \<and>
      is_tx_cached sample_lru qc (sample_hash 2)"
  by (simp add: dep_eval waiting_def)

text \<open>
  transactions received from other nodes are never sent out again; those that come from the RPC
  interface or from a task result always are, as they were received.
\<close>

theorem propagation_by_source:
  "propagate_of_download e =
     (if tx_state (ev_tx e) = P2P then None else Some \<lparr> ev_tx = ev_tx e, ev_type = PropagateTx \<rparr>)"
  by (simp add: propagate_of_download_def split: received.splits)

end
