(* ===== verification/Mempool.thy ===== *)
theory Mempool
  imports Tx_Event
begin

text \<open>
  \<open>mempool/mod.rs\<close>: the queue of validated transactions over its storage, and the senders that put
  received transactions on the channel of the validation loop. The storage is a value of its own
  type \<open>'s\<close> with the operations of the trait \<open>Storage\<close>; the locale \<open>tx_storage\<close> is what the mempool
  relies on.
\<close>

section \<open>Errors and senders\<close>

datatype mempool_error =
    TxValidationError string
  | PermissionDenied
  | EventProcess event_process_error
  | SendChannelError
  | RcvChannelError

text \<open>
  The channel towards the validation loop. A callback is the identity of the one-shot channel on
  which the sender waits.
\<close>

type_synonym callback = nat

record tx_channel =
  ch_open :: bool
  ch_queue :: "(received transaction \<times> callback option) list"

definition channel_send ::
  "received transaction \<times> callback option \<Rightarrow> tx_channel \<Rightarrow> (mempool_error + unit) \<times> tx_channel" where
  "channel_send m ch =
     (if ch_open ch then (Inr (), ch\<lparr> ch_queue := ch_queue ch @ [m] \<rparr>)
      else (Inl SendChannelError, ch))"

definition p2p_send_tx :: "created transaction \<Rightarrow> tx_channel \<Rightarrow> (mempool_error + unit) \<times> tx_channel" where
  "p2p_send_tx tx ch = channel_send (into_received tx P2P, None) ch"

text \<open>The sending half of the RPC and result senders; the caller then waits on the callback.\<close>

definition rpc_send_tx ::
  "callback \<Rightarrow> created transaction \<Rightarrow> tx_channel \<Rightarrow> (mempool_error + unit) \<times> tx_channel" where
  "rpc_send_tx cb tx ch = channel_send (into_received tx RPC, Some cb) ch"

definition result_send_tx ::
  "callback \<Rightarrow> created transaction \<Rightarrow> tx_channel \<Rightarrow> (mempool_error + unit) \<times> tx_channel" where
  "result_send_tx cb tx ch = channel_send (into_received tx TXRESULT, Some cb) ch"

text \<open>\<open>rx.await?\<close>: the answer on the one-shot channel; a dropped sender is a receive error.\<close>

definition await_callback :: "(mempool_error + unit) option \<Rightarrow> mempool_error + unit" where
  "await_callback r = (case r of None \<Rightarrow> Inl RcvChannelError | Some x \<Rightarrow> x)"

section \<open>The mempool\<close>

record 's mempool =
  mp_storage :: 's
  mp_deque :: "validated transaction list"

definition mempool_new :: "'s \<Rightarrow> 's mempool" where
  "mempool_new st = \<lparr> mp_storage = st, mp_deque = [] \<rparr>"

definition mempool_next :: "'s mempool \<Rightarrow> validated transaction option \<times> 's mempool" where
  "mempool_next m =
     (case mp_deque m of
        [] \<Rightarrow> (None, m)
      | tx # txs \<Rightarrow> (Some tx, m\<lparr> mp_deque := txs \<rparr>))"

definition mempool_peek :: "'s mempool \<Rightarrow> validated transaction option" where
  "mempool_peek m = (case mp_deque m of [] \<Rightarrow> None | tx # _ \<Rightarrow> Some tx)"

definition mempool_add ::
  "(validated transaction \<Rightarrow> 's \<Rightarrow> (string + unit) \<times> 's) \<Rightarrow> validated transaction \<Rightarrow> 's mempool
     \<Rightarrow> (string + unit) \<times> 's mempool" where
  "mempool_add set_tx tx m =
     (case set_tx tx (mp_storage m) of
        (Inl e, st) \<Rightarrow> (Inl e, m\<lparr> mp_storage := st \<rparr>)
      | (Inr _, st) \<Rightarrow> (Inr (), m\<lparr> mp_storage := st, mp_deque := mp_deque m @ [tx] \<rparr>))"

definition mempool_size :: "'s mempool \<Rightarrow> nat" where
  "mempool_size m = length (mp_deque m)"

definition mempool_send_new_tx ::
  "(validated transaction \<Rightarrow> 's \<Rightarrow> (string + unit) \<times> 's) \<Rightarrow> validated transaction \<Rightarrow> 's mempool
     \<Rightarrow> (string + unit) \<times> 's mempool" where
  "mempool_send_new_tx set_tx tx m = mempool_add set_tx tx m"

section \<open>The storage contract\<close>

text \<open>
  \<open>stored s h\<close>: the storage has a transaction with this hash. A successful write makes the
  transaction present, and no write makes another one disappear.
\<close>

locale tx_storage =
  fixes set_tx :: "validated transaction \<Rightarrow> 's \<Rightarrow> (string + unit) \<times> 's"
    and stored :: "'s \<Rightarrow> hash \<Rightarrow> bool"
  assumes stored_set: "set_tx tx s = (Inr (), s') \<Longrightarrow> stored s' (tx_hash tx)"
    and stored_mono: "set_tx tx s = (r, s') \<Longrightarrow> stored s h \<Longrightarrow> stored s' h"
begin

definition mempool_ok :: "'s mempool \<Rightarrow> bool" where
  "mempool_ok m \<longleftrightarrow> (\<forall>tx\<in>set (mp_deque m). stored (mp_storage m) (tx_hash tx))"

lemma mempool_ok_new: "mempool_ok (mempool_new st)"
  by (simp add: mempool_ok_def mempool_new_def)

lemma mempool_ok_next: "mempool_ok m \<Longrightarrow> mempool_next m = (r, m') \<Longrightarrow> mempool_ok m'"
  by (auto simp: mempool_ok_def mempool_next_def split: list.splits)

lemma mempool_ok_add:
  assumes "mempool_ok m" and "mempool_add set_tx tx m = (r, m')"
  shows "mempool_ok m'"
proof -
  obtain x st where x: "set_tx tx (mp_storage m) = (x, st)" by (rule prod.exhaust)
  have old: "stored st (tx_hash t)" if "t \<in> set (mp_deque m)" for t
    using assms(1) that stored_mono [OF x] by (auto simp: mempool_ok_def)
  show ?thesis
  proof (cases x)
    case (Inl e)
    with assms(2) x old show ?thesis by (auto simp: mempool_ok_def mempool_add_def)
  next
    case (Inr u)
    with x have "stored st (tx_hash tx)" using stored_set [of tx "mp_storage m" st] by simp
    with assms(2) x old Inr show ?thesis by (auto simp: mempool_ok_def mempool_add_def)
  qed
qed

text \<open>Any sequence of insertions and removals keeps the queue backed by the storage.\<close>

primrec run_ops :: "validated transaction option list \<Rightarrow> 's mempool \<Rightarrow> 's mempool" where
  "run_ops [] m = m"
| "run_ops (x # xs) m =
     run_ops xs (case x of None \<Rightarrow> snd (mempool_next m) | Some tx \<Rightarrow> snd (mempool_add set_tx tx m))"

lemma mempool_ok_run_ops: "mempool_ok m \<Longrightarrow> mempool_ok (run_ops xs m)"
proof (induction xs arbitrary: m)
  case (Cons x xs)
  then show ?case
    by (cases x) (auto intro!: Cons.IH intro: mempool_ok_next [OF Cons.prems surjective_pairing]
        mempool_ok_add [OF Cons.prems surjective_pairing])
qed simp

end

section \<open>Queue behaviour\<close>

lemma mempool_next_add:
  assumes "mempool_add set_tx tx m = (Inr (), m')"
  shows "mp_deque m' = mp_deque m @ [tx]"
  using assms by (auto simp: mempool_add_def split: prod.splits sum.splits)

text \<open>Taking \<open>n\<close> transactions in a row.\<close>

fun mempool_drain :: "nat \<Rightarrow> 's mempool \<Rightarrow> validated transaction list \<times> 's mempool" where
  "mempool_drain 0 m = ([], m)"
| "mempool_drain (Suc n) m =
     (case mempool_next m of
        (None, m') \<Rightarrow> ([], m')
      | (Some tx, m') \<Rightarrow> (let (txs, m'') = mempool_drain n m' in (tx # txs, m'')))"

fun mempool_add_all ::
  "(validated transaction \<Rightarrow> 's \<Rightarrow> (string + unit) \<times> 's) \<Rightarrow> validated transaction list \<Rightarrow> 's mempool
     \<Rightarrow> 's mempool" where
  "mempool_add_all set_tx [] m = m"
| "mempool_add_all set_tx (tx # txs) m = mempool_add_all set_tx txs (snd (mempool_add set_tx tx m))"

lemma mempool_drain_take:
  "mempool_drain n m = (txs, m') \<Longrightarrow> txs = take n (mp_deque m) \<and> mp_deque m' = drop n (mp_deque m)"
proof (induction n arbitrary: m txs)
  case (Suc n)
  then show ?case
    by (cases "mp_deque m") (auto simp: mempool_next_def split: prod.splits dest!: Suc.IH)
qed simp

lemma mempool_add_all_deque:
  assumes "\<And>tx s. \<exists>s'. set_tx tx s = (Inr (), s')"
  shows "mp_deque (mempool_add_all set_tx txs m) = mp_deque m @ txs"
proof (induction txs arbitrary: m)
  case (Cons tx txs)
  obtain s' where "set_tx tx (mp_storage m) = (Inr (), s')" using assms by blast
  with Cons show ?case by (simp add: mempool_add_def)
qed simp

section \<open>Properties\<close>

text \<open>
  the mempool is a first-in first-out queue: after adding transactions to it, with a storage
  that accepts them, as many removals as there are transactions return the old ones and then the
  new ones in the order they were added, and leave it empty.
\<close>

theorem mempool_fifo:
  assumes "\<And>tx s. \<exists>s'. set_tx tx s = (Inr (), s')"
    and "mempool_drain (length (mp_deque m) + length txs) (mempool_add_all set_tx txs m) = (out, m')"
  shows "out = mp_deque m @ txs \<and> mempool_size m' = 0"
  using mempool_drain_take [OF assms(2)] by (simp add: mempool_add_all_deque [OF assms(1)] mempool_size_def)

definition sample_txs :: "validated transaction list" where
  "sample_txs = map (\<lambda>b. validated_tx (ev_tx (sample_run b []))) [1, 2]"

definition log_storage :: "validated transaction \<Rightarrow> validated transaction list \<Rightarrow> (string + unit) \<times> validated transaction list" where
  "log_storage tx s = (Inr (), tx # s)"

theorem mempool_fifo_witness:
  "\<exists>out m'. mempool_drain 2 (mempool_add_all log_storage sample_txs (mempool_new [])) = (out, m') \<and>
      map tx_hash out = [sample_hash 1, sample_hash 2] \<and> mempool_size m' = 0"
proof -
  obtain out m' where o: "mempool_drain 2 (mempool_add_all log_storage sample_txs (mempool_new [])) = (out, m')"
    by (rule prod.exhaust)
  have "out = mp_deque (mempool_new [] :: validated transaction list mempool) @ sample_txs \<and> mempool_size m' = 0"
    by (rule mempool_fifo [where set_tx = log_storage])
       (use o in \<open>auto simp: log_storage_def sample_txs_def mempool_new_def numeral_2_eq_2\<close>)
  with o show ?thesis
    by (simp add: mempool_new_def validated_tx_def sample_run_def sample_txs_def)
qed

end
