(* ===== verification/Workflow_Engine.thy ===== *)
theory Workflow_Engine
  imports Tx_Event
begin

text \<open>
  \<open>workflow/mod.rs\<close>: the task that follows a transaction in its workflow. The store is the trait
  \<open>TransactionStore\<close>, with its state passed explicitly. The two loops that climb from a transaction
  to its ancestors end only when the parent links do; they are \<open>partial_function\<close>s whose value
  \<^term>\<open>None\<close> is a loop that never returns. The fresh \<open>Uuid\<close> of a task is an argument.
\<close>

section \<open>Store and errors\<close>

datatype workflow_error =
    IncompatibleTransaction string
  | WorkflowTransactionMissing string
  | WorkflowStepMissing string
  | TransactionNotFound hash
  | FileDefinitionError file_error
  | StoreFailure string

type_synonym find_tx = "hash \<Rightarrow> string + validated transaction option"

record 's tx_store =
  ts_find :: "'s \<Rightarrow> find_tx"
  ts_mark :: "hash \<Rightarrow> 's \<Rightarrow> (string + unit) \<times> 's"

section \<open>Climbing to the workflow\<close>

partial_function (option) workflow_for_transaction ::
  "crates \<Rightarrow> find_tx \<Rightarrow> hash \<Rightarrow> (workflow_error + workflow option) option" where
  "workflow_for_transaction c find_transaction h =
     (case find_transaction h of
        Inl e \<Rightarrow> Some (Inl (StoreFailure e))
      | Inr None \<Rightarrow> Some (Inl (TransactionNotFound h))
      | Inr (Some tx) \<Rightarrow>
          (case tx_payload tx of
             Run w \<Rightarrow> Some (Inr (Some w))
           | Proof parent _ _ _ \<Rightarrow> workflow_for_transaction c find_transaction parent
           | ProofKey parent _ \<Rightarrow> workflow_for_transaction c find_transaction parent
           | Verification _ _ _ _ \<Rightarrow> Some (Inr None)
           | Deploy _ _ _ \<Rightarrow> Some (Inr None)
           | _ \<Rightarrow> Some (Inl (IncompatibleTransaction (hash_display c h)))))"

text \<open>\<open>find_parent_tx_for_program\<close>; \<open>start\<close> is the transaction the search began at.\<close>

partial_function (option) find_parent_loop ::
  "crates \<Rightarrow> find_tx \<Rightarrow> hash \<Rightarrow> hash \<Rightarrow> hash \<Rightarrow> (workflow_error + hash) option" where
  "find_parent_loop c find_transaction start prog cur =
     (case find_transaction cur of
        Inl e \<Rightarrow> Some (Inl (StoreFailure e))
      | Inr None \<Rightarrow> Some (Inl (TransactionNotFound cur))
      | Inr (Some tx) \<Rightarrow>
          (case tx_payload tx of
             Run w \<Rightarrow>
               (case steps w of
                  [] \<Rightarrow> Some (Inl (TransactionNotFound cur))
                | s # _ \<Rightarrow>
                    if ws_program s = prog then Some (Inr cur)
                    else Some (Inl (TransactionNotFound cur)))
           | Proof parent prover _ _ \<Rightarrow>
               if cur \<noteq> start \<and> prover = prog then Some (Inr cur)
               else find_parent_loop c find_transaction start prog parent
           | ProofKey parent _ \<Rightarrow> find_parent_loop c find_transaction start prog parent
           | Verification parent verifier _ _ \<Rightarrow>
               if cur \<noteq> start \<and> verifier = prog then Some (Inr cur)
               else find_parent_loop c find_transaction start prog parent
           | _ \<Rightarrow> Some (Inl (IncompatibleTransaction (hash_display c cur)))))"

definition find_parent_tx_for_program ::
  "crates \<Rightarrow> find_tx \<Rightarrow> hash \<Rightarrow> hash \<Rightarrow> (workflow_error + hash) option" where
  "find_parent_tx_for_program c find_transaction h prog =
     find_parent_loop c find_transaction h prog h"

section \<open>The next task\<close>

definition workflow_step_to_task ::
  "crates \<Rightarrow> task_id \<Rightarrow> hash \<Rightarrow> workflow_step \<Rightarrow> file_output tx_file list \<Rightarrow> task_kind
     \<Rightarrow> workflow_error + task" where
  "workflow_step_to_task c uid h s files k =
     (case collect_result (\<lambda>e. case try_from_prg_data c h files e of
                                 Inl x \<Rightarrow> Inl (FileDefinitionError x)
                               | Inr f \<Rightarrow> Inr f) (ws_inputs s) of
        Inl x \<Rightarrow> Inl x
      | Inr fs \<Rightarrow>
          Inr \<lparr> task_uid = uid, task_tx = h, task_name = uid @ ''-'' @ hash_display c (ws_program s),
                task_kind_of = k, task_program_id = ws_program s, task_args = ws_args s,
                task_files = fs, task_serial = 0, task_state_of = StateNew \<rparr>)"

definition position :: "('a \<Rightarrow> bool) \<Rightarrow> 'a list \<Rightarrow> nat option" where
  "position P xs =
     (if list_ex P xs then Some (length (takeWhile (\<lambda>x. \<not> P x) xs)) else None)"

definition index_or_panic :: "'a list \<Rightarrow> nat \<Rightarrow> ('e, 'a) outcome" where
  "index_or_panic xs i = (if i < length xs then Done (xs ! i) else Panicked ''index out of bounds'')"

definition proof_task ::
  "crates \<Rightarrow> task_id \<Rightarrow> validated transaction \<Rightarrow> workflow option \<Rightarrow> hash \<Rightarrow> file_output tx_file list
     \<Rightarrow> (workflow_error, task option) outcome" where
  "proof_task c uid cur opt_workflow prover files =
     (case opt_workflow of
        None \<Rightarrow> Failed (WorkflowTransactionMissing
                  (''Proof tx with no workflow '' @ hash_display c (tx_hash cur)))
      | Some w \<Rightarrow>
          (let missing = Failed (WorkflowStepMissing
                  (''verifier for proof tx '' @ hash_display c (tx_hash cur)))
           in case position (\<lambda>s. ws_program s = prover) (steps w) of
                Some i \<Rightarrow>
                  if length (steps w) \<le> i + 1 then missing
                  else obind (index_or_panic (steps w) (i + 1))
                         (\<lambda>s. obind (of_sum (workflow_step_to_task c uid (tx_hash cur) s files KindVerification))
                           (\<lambda>t. Done (Some t)))
              | None \<Rightarrow> missing))"

definition proof_key_task ::
  "crates \<Rightarrow> find_tx \<Rightarrow> task_id \<Rightarrow> validated transaction \<Rightarrow> workflow option \<Rightarrow> hash
     \<Rightarrow> (workflow_error, task option) outcome" where
  "proof_key_task c find_transaction uid cur opt_workflow parent =
     (case find_transaction parent of
        Inl e \<Rightarrow> Failed (StoreFailure e)
      | Inr None \<Rightarrow> Failed (WorkflowTransactionMissing (''Proof tx, hash '' @ hash_display c parent))
      | Inr (Some proof_tx) \<Rightarrow>
          (case tx_payload proof_tx of
             Proof _ prover _ files \<Rightarrow>
               (case opt_workflow of
                  None \<Rightarrow> Failed (WorkflowTransactionMissing
                            (''Proof tx with no workflow '' @ hash_display c (tx_hash cur)))
                | Some w \<Rightarrow>
                    (let missing = Failed (WorkflowStepMissing
                            (''verifier for proof tx '' @ hash_display c (tx_hash proof_tx)))
                     in case position (\<lambda>s. ws_program s = prover) (steps w) of
                          Some i \<Rightarrow>
                            if length (steps w) \<le> i then missing
                            else obind (index_or_panic (steps w) (i + 1))
                                   (\<lambda>s. obind (of_sum (workflow_step_to_task c uid (tx_hash proof_tx) s files
                                                 KindVerification))
                                     (\<lambda>t. Done (Some t)))
                        | None \<Rightarrow> missing))
           | _ \<Rightarrow> Failed (IncompatibleTransaction (hash_display c (tx_hash proof_tx)))))"

text \<open>The outer option is the climb that may not return; the store changes only by marking.\<close>

definition next_task ::
  "crates \<Rightarrow> 's tx_store \<Rightarrow> task_id \<Rightarrow> validated transaction \<Rightarrow> 's
     \<Rightarrow> ((workflow_error, task option) outcome \<times> 's) option" where
  "next_task c S uid cur st =
     (case workflow_for_transaction c (ts_find S st) (tx_hash cur) of
        None \<Rightarrow> None
      | Some (Inl e) \<Rightarrow> Some (Failed e, st)
      | Some (Inr opt_workflow) \<Rightarrow>
          (let mark_executed = (case ts_mark S (tx_hash cur) st of
                                  (Inl e, st') \<Rightarrow> (Failed (StoreFailure e), st')
                                | (Inr _, st') \<Rightarrow> (Done None, st'))
           in Some (case tx_payload cur of
                Run w \<Rightarrow>
                  (case steps w of
                     [] \<Rightarrow> (Done None, st)
                   | s # _ \<Rightarrow>
                       (obind (of_sum (workflow_step_to_task c uid (tx_hash cur) s [] KindProof))
                          (\<lambda>t. Done (Some t)), st))
              | Proof _ prover _ files \<Rightarrow> (proof_task c uid cur opt_workflow prover files, st)
              | ProofKey parent _ \<Rightarrow>
                  (proof_key_task c (ts_find S st) uid cur opt_workflow parent, st)
              | Verification _ _ _ _ \<Rightarrow> mark_executed
              | Deploy _ _ _ \<Rightarrow> mark_executed
              | _ \<Rightarrow> (Failed (IncompatibleTransaction ''unsupported payload type''), st))))"

section \<open>What the climb finds\<close>

text \<open>The specification: following Proof and ProofKey links upwards ends at a Run transaction.\<close>

inductive leads_to :: "find_tx \<Rightarrow> hash \<Rightarrow> workflow \<Rightarrow> bool" for f where
  at_run: "f h = Inr (Some tx) \<Longrightarrow> tx_payload tx = Run w \<Longrightarrow> leads_to f h w"
| at_proof: "f h = Inr (Some tx) \<Longrightarrow> tx_payload tx = Proof p a b d \<Longrightarrow> leads_to f p w \<Longrightarrow> leads_to f h w"
| at_proof_key: "f h = Inr (Some tx) \<Longrightarrow> tx_payload tx = ProofKey p a \<Longrightarrow> leads_to f p w \<Longrightarrow> leads_to f h w"

inductive_cases leads_toE: "leads_to f h w"

lemma leads_to_finds: "leads_to f h w \<Longrightarrow> workflow_for_transaction c f h = Some (Inr (Some w))"
  by (induction rule: leads_to.induct) (subst workflow_for_transaction.simps, simp)+

lemma finds_leads_to:
  assumes "workflow_for_transaction c f h = Some r" and "r = Inr (Some w)"
  shows "leads_to f h w"
proof -
  have "r = Inr (Some w) \<longrightarrow> leads_to f h w"
    using assms(1)
    by (rule workflow_for_transaction.raw_induct [rotated])
       (auto split: sum.splits option.splits payload.splits intro: leads_to.intros)
  with assms(2) show ?thesis by blast
qed

text \<open>Parent links that descend in some rank: what holds when hashes bind their content.\<close>

definition ranked :: "find_tx \<Rightarrow> (hash \<Rightarrow> nat) \<Rightarrow> bool" where
  "ranked f rank \<longleftrightarrow>
     (\<forall>h tx p. f h = Inr (Some tx) \<longrightarrow> get_parent_tx (tx_payload tx) = Some p \<longrightarrow> rank p < rank h)"

lemma ranked_parent:
  "ranked f rank \<Longrightarrow> f h = Inr (Some tx) \<Longrightarrow> get_parent_tx (tx_payload tx) = Some p \<Longrightarrow> rank p < rank h"
  by (simp add: ranked_def)

lemma workflow_for_transaction_total:
  assumes "ranked f rank"
  shows "\<exists>r. workflow_for_transaction c f h = Some r"
proof (induction "rank h" arbitrary: h rule: less_induct)
  case less
  have ih: "\<exists>r. workflow_for_transaction c f p = Some r"
    if "f h = Inr (Some tx)" "get_parent_tx (tx_payload tx) = Some p" for tx p
    using less ranked_parent [OF assms that] by blast
  show ?case
    by (subst workflow_for_transaction.simps)
       (auto split: sum.splits option.splits payload.splits intro: ih)
qed

lemma find_parent_loop_total:
  assumes "ranked f rank"
  shows "\<exists>r. find_parent_loop c f s prog h = Some r"
proof (induction "rank h" arbitrary: h rule: less_induct)
  case less
  have ih: "\<exists>r. find_parent_loop c f s prog p = Some r"
    if "f h = Inr (Some tx)" "get_parent_tx (tx_payload tx) = Some p" for tx p
    using less ranked_parent [OF assms that] by blast
  show ?case
    by (subst find_parent_loop.simps)
       (auto split: sum.splits option.splits payload.splits list.splits intro: ih)
qed

lemma position_split:
  assumes "steps w = pre @ s # post" and "ws_program s = prog" and "prog \<notin> ws_program ` set pre"
  shows "position (\<lambda>s. ws_program s = prog) (steps w) = Some (length pre)"
proof -
  have "\<forall>x\<in>set pre. ws_program x \<noteq> prog" using assms(3) by auto
  with assms(2) have "takeWhile (\<lambda>x. ws_program x \<noteq> prog) (pre @ s # post) = pre"
    by (subst takeWhile_append2) auto
  with assms show ?thesis by (auto simp: position_def)
qed

section \<open>Properties\<close>

definition sample_store :: "(hash \<times> validated transaction) list tx_store" where
  "sample_store =
     \<lparr> ts_find = (\<lambda>m h. Inr (map_of m h)),
       ts_mark = (\<lambda>h m. (Inr (), map (\<lambda>(k, t). (k, if k = h then t\<lparr> tx_executed := True \<rparr> else t)) m)) \<rparr>"

definition sample_vtx :: "wait_tx tx_event \<Rightarrow> hash \<times> validated transaction" where
  "sample_vtx e = (tx_hash (ev_tx e), validated_tx (ev_tx e))"

lemma sample_vtx_simps [simp]:
  "tx_hash (validated_tx t) = tx_hash t" "tx_payload (validated_tx t) = tx_payload t"
  by (simp_all add: validated_tx_def)

text \<open>
  C18: the engine finds a workflow for a transaction exactly when following its Proof and ProofKey
  parents leads to a Run transaction, and then it is the workflow of that transaction.
\<close>

theorem workflow_found_iff:
  "workflow_for_transaction c f h = Some (Inr (Some w)) \<longleftrightarrow> leads_to f h w"
  using leads_to_finds finds_leads_to by blast

text \<open>
  C20: when the parent links of the stored transactions descend, both climbs return for every
  transaction: the engine always answers.
\<close>

theorem climbs_terminate:
  assumes "ranked f rank"
  shows "(\<exists>r. workflow_for_transaction c f h = Some r) \<and>
         (\<exists>r. find_parent_tx_for_program c f h prog = Some r)"
  using workflow_for_transaction_total [OF assms] find_parent_loop_total [OF assms]
  by (simp add: find_parent_tx_for_program_def)

theorem climbs_terminate_witness:
  "\<exists>r. workflow_for_transaction sample_crates
         (ts_find sample_store [sample_vtx (sample_run 1 [11, 12]), sample_vtx (sample_proof 2 1)]) (sample_hash 2) = Some r"
proof -
  let ?f = "ts_find sample_store [sample_vtx (sample_run 1 [11, 12]), sample_vtx (sample_proof 2 1)]"
  have "ranked ?f (\<lambda>h. if h = sample_hash 2 then 1 else 0)"
    by (auto simp: ranked_def sample_store_def sample_vtx_def sample_run_def sample_proof_def
        split: if_splits)
  from climbs_terminate [OF this] show ?thesis by blast
qed

text \<open>
  a stored Proof transaction that names itself as its parent makes the climb run forever.
\<close>

theorem self_parent_diverges:
  assumes "f h = Inr (Some tx)" and "tx_payload tx = Proof h a b d"
  shows "workflow_for_transaction c f h = None"
proof (cases "workflow_for_transaction c f h")
  case (Some r)
  then have "f h = Inr (Some tx) \<longrightarrow> tx_payload tx = Proof h a b d \<longrightarrow> False"
    by (rule workflow_for_transaction.raw_induct [rotated])
       (fastforce split: sum.splits option.splits payload.splits)
  with assms show ?thesis by blast
qed

theorem self_parent_diverges_witness:
  "workflow_for_transaction sample_crates (ts_find sample_store [sample_vtx (sample_proof 2 2)]) (sample_hash 2) = None"
  by (rule self_parent_diverges [where tx = "validated_tx (ev_tx (sample_proof 2 2))"])
     (simp_all add: sample_store_def sample_vtx_def sample_proof_def)

text \<open>
  C19: after a Proof transaction the engine schedules, as a verification, the step of the workflow
  that follows the prover's step, with that step's arguments, for the Proof transaction itself.
\<close>

theorem proof_schedules_next_step:
  assumes "leads_to (ts_find S st) (tx_hash cur) w"
    and "tx_payload cur = Proof parent prover b files"
    and "steps w = pre @ s # v # post" and "ws_program s = prover" and "prover \<notin> ws_program ` set pre"
    and "workflow_step_to_task c uid (tx_hash cur) v files KindVerification = Inr t"
  shows "next_task c S uid cur st = Some (Done (Some t), st) \<and>
         task_program_id t = ws_program v \<and> task_kind_of t = KindVerification \<and>
         task_args t = ws_args v \<and> task_tx t = tx_hash cur \<and> length (task_files t) = length (ws_inputs v)"
proof -
  have "position (\<lambda>s. ws_program s = prover) (steps w) = Some (length pre)"
    using assms(3,4,5) by (rule position_split)
  moreover have "steps w ! (length pre + 1) = v" using assms(3) by (simp add: nth_append)
  ultimately have "next_task c S uid cur st = Some (Done (Some t), st)"
    using assms leads_to_finds [OF assms(1), of c]
    by (simp add: next_task_def proof_task_def index_or_panic_def Let_def)
  then show ?thesis
    using assms(6) by (auto simp: workflow_step_to_task_def dest: collect_result_length split: sum.splits)
qed

theorem proof_schedules_next_step_witness:
  "\<exists>t. next_task sample_crates sample_store ''id'' (validated_tx (ev_tx (sample_event 2 (Proof (sample_hash 1) (sample_hash 11) [] []))))
         [sample_vtx (sample_run 1 [11, 12]), sample_vtx (sample_event 2 (Proof (sample_hash 1) (sample_hash 11) [] []))]
       = Some (Done (Some t), [sample_vtx (sample_run 1 [11, 12]), sample_vtx (sample_event 2 (Proof (sample_hash 1) (sample_hash 11) [] []))]) \<and>
       task_program_id t = sample_hash 12"
proof -
  let ?p = "sample_event 2 (Proof (sample_hash 1) (sample_hash 11) [] [])"
  let ?st = "[sample_vtx (sample_run 1 [11, 12]), sample_vtx ?p]"
  let ?step = "\<lambda>b. \<lparr> ws_program = sample_hash b, ws_args = [], ws_inputs = [] \<rparr>"
  let ?w = "\<lparr> steps = [?step 11, ?step 12] \<rparr>"
  have "leads_to (ts_find sample_store ?st) (sample_hash 1) ?w"
    by (rule leads_to.at_run [where tx = "validated_tx (ev_tx (sample_run 1 [11, 12]))"])
       (simp_all add: sample_store_def sample_vtx_def sample_run_def)
  then have w: "leads_to (ts_find sample_store ?st) (tx_hash (validated_tx (ev_tx ?p))) ?w"
    by (rule leads_to.at_proof [rotated 2, where tx = "validated_tx (ev_tx ?p)" and a = "sample_hash 11" and b = "[]" and d = "[]"])
       (simp_all add: sample_store_def sample_vtx_def sample_run_def)
  have st: "steps ?w = [] @ ?step 11 # ?step 12 # []" by simp
  obtain t where t: "workflow_step_to_task sample_crates ''id'' (tx_hash (validated_tx (ev_tx ?p))) (?step 12) [] KindVerification = Inr t"
    by (simp add: workflow_step_to_task_def)
  from proof_schedules_next_step [OF w _ st _ _ t] show ?thesis by auto
qed

text \<open>
  for a ProofKey transaction whose proof was made by the last program of the workflow the
  engine indexes past the end of the steps and panics, where a Proof transaction in the same
  position is answered with the error of a missing step.
\<close>

theorem proof_key_of_last_step_panics:
  assumes "leads_to (ts_find S st) (tx_hash cur) w"
    and "tx_payload cur = ProofKey parent key" and "ts_find S st parent = Inr (Some proof_tx)"
    and "tx_payload proof_tx = Proof gp prover b files"
    and "steps w = pre @ [s]" and "ws_program s = prover" and "prover \<notin> ws_program ` set pre"
  shows "next_task c S uid cur st = Some (Panicked ''index out of bounds'', st) \<and>
         proof_task c uid proof_tx (Some w) prover files =
           Failed (WorkflowStepMissing (''verifier for proof tx '' @ hash_display c (tx_hash proof_tx)))"
proof -
  have "position (\<lambda>s. ws_program s = prover) (steps w) = Some (length pre)"
    using assms(5,6,7) by (rule position_split)
  then show ?thesis
    using assms leads_to_finds [OF assms(1), of c]
    by (simp add: next_task_def proof_key_task_def proof_task_def index_or_panic_def Let_def)
qed

definition sample_key_store :: "(hash \<times> validated transaction) list" where
  "sample_key_store =
     [sample_vtx (sample_run 1 [11]),
      sample_vtx (sample_event 2 (Proof (sample_hash 1) (sample_hash 11) [] [])),
      sample_vtx (sample_event 3 (ProofKey (sample_hash 2) []))]"

theorem proof_key_of_last_step_panics_witness:
  "next_task sample_crates sample_store ''id'' (validated_tx (ev_tx (sample_event 3 (ProofKey (sample_hash 2) []))))
     sample_key_store = Some (Panicked ''index out of bounds'', sample_key_store)"
proof -
  let ?step = "\<lparr> ws_program = sample_hash 11, ws_args = [], ws_inputs = [] \<rparr>"
  let ?w = "\<lparr> steps = [?step] \<rparr>"
  let ?f = "ts_find sample_store sample_key_store"
  let ?k = "validated_tx (ev_tx (sample_event 3 (ProofKey (sample_hash 2) [])))"
  have "leads_to ?f (sample_hash 1) ?w"
    by (rule leads_to.at_run [where tx = "validated_tx (ev_tx (sample_run 1 [11]))"])
       (simp_all add: sample_store_def sample_vtx_def sample_run_def sample_key_store_def)
  then have "leads_to ?f (sample_hash 2) ?w"
    by (rule leads_to.at_proof [rotated 2, where a = "sample_hash 11" and b = "[]" and d = "[]" and
          tx = "validated_tx (ev_tx (sample_event 2 (Proof (sample_hash 1) (sample_hash 11) [] [])))"])
       (simp_all add: sample_store_def sample_vtx_def sample_key_store_def sample_run_def)
  then have w: "leads_to ?f (tx_hash ?k) ?w"
    by (rule leads_to.at_proof_key [rotated 2, where a = "[]" and tx = ?k])
       (simp_all add: sample_store_def sample_vtx_def sample_key_store_def sample_run_def)
  have p: "?f (sample_hash 2) =
      Inr (Some (validated_tx (ev_tx (sample_event 2 (Proof (sample_hash 1) (sample_hash 11) [] [])))))"
    by (simp add: sample_store_def sample_vtx_def sample_key_store_def sample_run_def)
  have st: "steps ?w = [] @ [?step]" by simp
  show ?thesis
    using proof_key_of_last_step_panics [OF w _ p _ st, of _ _ _ _ _ sample_crates "''id''"] by simp
qed

text \<open>
  a Deploy or Verification transaction needs no task: asking for its next task marks it as
  executed in the store and returns nothing.
\<close>

theorem deploy_and_verification_are_marked:
  assumes "ts_find S st (tx_hash cur) = Inr (Some tx)" and "tx_payload tx = tx_payload cur"
    and "(\<exists>n p v. tx_payload cur = Deploy n p v) \<or> (\<exists>p v b fs. tx_payload cur = Verification p v b fs)"
    and "ts_mark S (tx_hash cur) st = (Inr (), st')"
  shows "next_task c S uid cur st = Some (Done None, st')"
proof -
  have "workflow_for_transaction c (ts_find S st) (tx_hash cur) = Some (Inr None)"
    using assms(1-3) by (subst workflow_for_transaction.simps) auto
  with assms(3,4) show ?thesis by (auto simp: next_task_def)
qed

theorem deploy_and_verification_are_marked_witness:
  "next_task sample_crates sample_store ''id'' (snd (sample_vtx (sample_deploy 3 11 12))) [sample_vtx (sample_deploy 3 11 12)]
   = Some (Done None, [(sample_hash 3, (snd (sample_vtx (sample_deploy 3 11 12)))\<lparr> tx_executed := True \<rparr>)])"
  by (rule deploy_and_verification_are_marked [where tx = "snd (sample_vtx (sample_deploy 3 11 12))"])
     (simp_all add: sample_store_def sample_vtx_def sample_deploy_def)

end
