(* ===== verification/Qemu.thy ===== *)
theory Qemu
  imports Files
begin

text \<open>
  \<open>vmm/qemu.rs\<close> and \<open>vmm/mod.rs\<close>: the provider that starts and stops virtual machines. The state is
  the counter and the set of context identifiers (CIDs) and the registry of machines; what the
  operating system and QEMU do is the record \<open>vm_world\<close>. The search for a free identifier is a
  \<open>partial_function\<close>, since it does not end when all identifiers are taken.
\<close>

section \<open>State\<close>

record qemu_config =
  qc_data_directory :: path
  qc_log_directory :: path
  qc_gpu_devices :: "string option"

record qemu_vm_handle =
  qh_child :: bool
  qh_cid :: u32
  qh_tx_hash :: hash
  qh_program_id :: hash
  qh_workspace_volume_label :: string

record qemu =
  next_cid :: u32
  cid_allocations :: "u32 set"
  vm_registry :: "(u32, qemu_vm_handle) hmap"

record vm_handle =
  vh_start_time :: nat
  vh_vm_id :: u32

definition qemu_new :: qemu where
  "qemu_new = \<lparr> next_cid = 4, cid_allocations = {}, vm_registry = hm_empty \<rparr>"

definition vm_id_eq :: "u32 \<Rightarrow> u32 \<Rightarrow> bool" where
  "vm_id_eq a b \<longleftrightarrow> a = b"

definition vm_run_time :: "nat \<Rightarrow> vm_handle \<Rightarrow> nat" where
  "vm_run_time now h = now - vh_start_time h"

section \<open>Context identifiers\<close>

partial_function (option) allocate_cid :: "qemu \<Rightarrow> (u32 \<times> qemu) option" where
  "allocate_cid q =
     (let cid = next_cid q; q1 = q\<lparr> next_cid := cid + 1 \<rparr>
      in if cid < 3 then allocate_cid q1
         else if cid \<in> cid_allocations q1 then allocate_cid q1
         else Some (cid, q1\<lparr> cid_allocations := insert cid (cid_allocations q1) \<rparr>))"

definition release_cid :: "u32 \<Rightarrow> qemu \<Rightarrow> qemu" where
  "release_cid cid q =
     (if cid \<in> cid_allocations q
      then q\<lparr> cid_allocations := cid_allocations q - {cid},
              vm_registry := hm_remove cid (vm_registry q) \<rparr>
      else q)"

text \<open>
  The identification of a connection: \<open>None\<close> outside is a request without connection information,
  on which the source unwraps; \<open>Some None\<close> is a peer without address.
\<close>

definition find_by_req ::
  "u32 option option \<Rightarrow> qemu \<Rightarrow> ('e, (hash \<times> hash \<times> u32) option) outcome" where
  "find_by_req conn q =
     obind (expect ''unwrap'' conn)
       (\<lambda>addr. Done (case addr of
          None \<Rightarrow> None
        | Some cid \<Rightarrow>
            map_option (\<lambda>h. (qh_tx_hash h, qh_program_id h, cid)) (hm_get (vm_registry q) cid)))"

section \<open>Starting a machine\<close>

datatype qmp_connect = QmpConnected | QmpRefused | QmpTimeout

record vm_world =
  vw_label :: string
  vw_start_time :: nat
  vw_log_dir_error :: "string option"
  vw_stdout_error :: "string option"
  vw_stderr_error :: "string option"
  vw_spawns :: bool
  vw_connect :: "nat \<Rightarrow> qmp_connect"
  vw_kill_error :: "string option"

definition qmp_port :: "u32 \<Rightarrow> u32" where
  "qmp_port cid = cid mod 64512 + 1024"

fun split_char :: "char \<Rightarrow> string \<Rightarrow> string list" where
  "split_char x [] = [[]]"
| "split_char x (c # s) =
     (if c = x then [] # split_char x s
      else case split_char x s of [] \<Rightarrow> [[c]] | q # qs \<Rightarrow> (c # q) # qs)"

definition parse_gpu_devices_into_qemu_params :: "string \<Rightarrow> string list" where
  "parse_gpu_devices_into_qemu_params arg =
     concat (map (\<lambda>d. [''-device'', ''vfio-pci,rombar=0,host='' @ d]) (split_char (CHR '','') arg))"

definition qemu_args ::
  "crates \<Rightarrow> qemu_config \<Rightarrow> hash \<Rightarrow> program \<Rightarrow> resource_request \<Rightarrow> u32 \<Rightarrow> string list" where
  "qemu_args c cfg h p req cid =
     [''-machine'', ''q35'',
      ''-device'', ''pcie-root-port,port=0x10,chassis=1,id=pci.1,bus=pcie.0,multifunction=on,addr=0x3'',
      ''-device'', ''pcie-root-port,port=0x11,chassis=2,id=pci.2,bus=pcie.0,addr=0x3.0x1'',
      ''-device'', ''pcie-root-port,port=0x12,chassis=3,id=pci.3,bus=pcie.0,addr=0x3.0x2'',
      ''-device'', ''virtio-scsi-pci,bus=pci.2,addr=0x0,id=scsi0'',
      ''-device'', ''scsi-hd,bus=scsi0.0,drive=hd0'',
      ''-vga'', ''none'',
      ''-smp'', show_word (cpus req),
      ''-device'', ''isa-debug-exit'',
      ''-m'', show_word (mem req) @ ''M'',
      ''-device'', ''virtio-rng-pci'',
      ''-machine'', ''accel=kvm:tcg'',
      ''-cpu'', ''max'',
      ''-drive'', ''file='' @
        path_join (path_join (path_join (qc_data_directory cfg) IMAGES_DIR) (hash_display c (prg_hash p)))
          (prg_image_file_name p) @ '',format=raw,if=none,id=hd0,readonly=on'',
      ''-display'', ''none'',
      ''-serial'', ''stdio'',
      ''-virtfs'', ''local,path='' @ get_workspace_path c (qc_data_directory cfg) h @
        '',mount_tag=0,security_model=none,multidevs=remap,id=hd0'',
      ''-device'', ''vhost-vsock-pci,guest-cid='' @ show_word cid,
      ''-qmp'', ''tcp:localhost:'' @ show_word (qmp_port cid) @ '',server''] @
     (case qc_gpu_devices cfg of
        None \<Rightarrow> []
      | Some d \<Rightarrow> if gpus req > 0 then parse_gpu_devices_into_qemu_params d else [])"

datatype connect_result = GotClient | GaveUp | TimedOut

function connect_loop :: "vm_world \<Rightarrow> nat \<Rightarrow> connect_result" where
  "connect_loop w retry_count =
     (if retry_count > 100 then GaveUp
      else case vw_connect w retry_count of
             QmpConnected \<Rightarrow> GotClient
           | QmpRefused \<Rightarrow> connect_loop w (retry_count + 1)
           | QmpTimeout \<Rightarrow> TimedOut)"
  by pat_completeness auto
termination
  by (relation "measure (\<lambda>(w, r). 101 - r)") auto

declare connect_loop.simps [simp del]

text \<open>Killing the child after a failed connection: on success the machine is forgotten.\<close>

definition abandon_vm :: "vm_world \<Rightarrow> u32 \<Rightarrow> string \<Rightarrow> qemu \<Rightarrow> (string, vm_handle) outcome \<times> qemu" where
  "abandon_vm w cid msg q =
     (case vw_kill_error w of
        Some e \<Rightarrow> (Failed e, q)
      | None \<Rightarrow>
          (Failed msg, q\<lparr> vm_registry := hm_remove cid (vm_registry q),
                           cid_allocations := cid_allocations q - {cid} \<rparr>))"

definition start_registered ::
  "vm_world \<Rightarrow> u32 \<Rightarrow> qemu_vm_handle \<Rightarrow> qemu \<Rightarrow> (string, vm_handle) outcome \<times> qemu" where
  "start_registered w cid h q =
     (case vw_log_dir_error w of
        Some e \<Rightarrow> (Failed e, q)
      | None \<Rightarrow>
     (case vw_stdout_error w of
        Some e \<Rightarrow> (Failed e, q)
      | None \<Rightarrow>
     (case vw_stderr_error w of
        Some e \<Rightarrow> (Failed e, q)
      | None \<Rightarrow>
     (if \<not> vw_spawns w then (Panicked ''failed to start VM'', q)
      else
        (let q1 = q\<lparr> vm_registry := hm_insert cid (h\<lparr> qh_child := True \<rparr>) (vm_registry q) \<rparr>
         in case connect_loop w 0 of
              GotClient \<Rightarrow> (Done \<lparr> vh_start_time = vw_start_time w, vh_vm_id = cid \<rparr>, q1)
            | GaveUp \<Rightarrow> abandon_vm w cid ''Failed to start QEMU'' q1
            | TimedOut \<Rightarrow> abandon_vm w cid ''Failed to connect to QEMU QMP'' q1)))))"

definition start_vm ::
  "vm_world \<Rightarrow> hash \<Rightarrow> program \<Rightarrow> resource_request \<Rightarrow> qemu
     \<Rightarrow> ((string, vm_handle) outcome \<times> qemu) option" where
  "start_vm w h p req q =
     (case allocate_cid q of
        None \<Rightarrow> None
      | Some (cid, q1) \<Rightarrow>
          (let handle = \<lparr> qh_child = False, qh_cid = cid, qh_tx_hash = h, qh_program_id = prg_hash p,
                          qh_workspace_volume_label = vw_label w \<rparr>
           in Some (start_registered w cid handle
                (q1\<lparr> vm_registry := hm_insert cid handle (vm_registry q1) \<rparr>))))"

section \<open>Stopping a machine\<close>

definition stop_vm :: "string option \<Rightarrow> vm_handle \<Rightarrow> qemu \<Rightarrow> (string, unit) outcome \<times> qemu" where
  "stop_vm kill_error vm q =
     (case hm_get (vm_registry q) (vh_vm_id vm) of
        None \<Rightarrow> (Panicked ''not yet implemented: create error type for VM NOT FOUND'', q)
      | Some h \<Rightarrow>
          if \<not> qh_child h then (Failed ''No child process defined for this handle'', q)
          else case kill_error of
                 Some e \<Rightarrow> (Failed e, q)
               | None \<Rightarrow>
                   (let q1 = release_cid (qh_cid h) q
                    in (Done (), q1\<lparr> vm_registry := hm_remove (qh_cid h) (vm_registry q1) \<rparr>)))"

section \<open>Invariant\<close>

definition qemu_ok :: "qemu \<Rightarrow> bool" where
  "qemu_ok q \<longleftrightarrow>
     hm_ok (vm_registry q) \<and> (\<forall>cid\<in>cid_allocations q. 3 \<le> cid) \<and>
     (\<forall>cid h. hm_get (vm_registry q) cid = Some h \<longrightarrow> qh_cid h = cid \<and> cid \<in> cid_allocations q)"

lemma qemu_ok_new: "qemu_ok qemu_new"
  by (simp add: qemu_ok_def qemu_new_def)

lemma allocate_cid_fresh:
  assumes "allocate_cid q = Some r"
  shows "\<exists>cid q'. r = (cid, q') \<and> 3 \<le> cid \<and> cid \<notin> cid_allocations q \<and>
           cid_allocations q' = insert cid (cid_allocations q) \<and> vm_registry q' = vm_registry q"
  using assms
proof (rule allocate_cid.raw_induct [rotated])
  fix f q r
  assume IH: "\<And>q r. f q = Some r \<Longrightarrow> \<exists>cid q'. r = (cid, q') \<and> 3 \<le> cid \<and>
      cid \<notin> cid_allocations q \<and> cid_allocations q' = insert cid (cid_allocations q) \<and>
      vm_registry q' = vm_registry q"
    and step: "(let cid = next_cid q; q1 = q\<lparr>next_cid := cid + 1\<rparr>
      in if cid < 3 then f q1 else if cid \<in> cid_allocations q1 then f q1
         else Some (cid, q1\<lparr>cid_allocations := insert cid (cid_allocations q1)\<rparr>)) = Some r"
  show "\<exists>cid q'. r = (cid, q') \<and> 3 \<le> cid \<and> cid \<notin> cid_allocations q \<and>
      cid_allocations q' = insert cid (cid_allocations q) \<and> vm_registry q' = vm_registry q"
    using IH [of "q\<lparr>next_cid := next_cid q + 1\<rparr>" r] step
    by (auto simp: Let_def not_less split: if_splits)
qed

lemma unat_distance:
  assumes "(c :: u32) \<noteq> n"
  shows "unat (c - (n + 1)) < unat (c - n)"
proof -
  have "c - n \<noteq> 0" using assms by simp
  then have "unat (c - n - 1) = unat (c - n) - 1"
    by (metis One_nat_def unat_1 unat_sub word_le_nat_alt word_less_1 linorder_not_le)
  moreover have "0 < unat (c - n)" using \<open>c - n \<noteq> 0\<close> by (simp add: unat_gt_0)
  ultimately show ?thesis by (simp add: algebra_simps diff_diff_eq)
qed

lemma allocate_cid_total:
  assumes "3 \<le> c" and "c \<notin> cid_allocations q"
  shows "\<exists>r. allocate_cid q = Some r"
  using assms(2)
proof (induction "unat (c - next_cid q)" arbitrary: q rule: less_induct)
  case less
  show ?case
  proof (cases "next_cid q = c")
    case True
    with less.prems assms(1) show ?thesis by (subst allocate_cid.simps) (simp add: Let_def not_less [symmetric])
  next
    case False
    let ?q1 = "q\<lparr> next_cid := next_cid q + 1 \<rparr>"
    have "unat (c - next_cid ?q1) < unat (c - next_cid q)"
      using unat_distance [of c "next_cid q"] False by simp
    then obtain r where "allocate_cid ?q1 = Some r" using less by force
    then show ?thesis by (subst allocate_cid.simps) (auto simp: Let_def)
  qed
qed

lemma word_less_three: "(c :: u32) < 3 \<Longrightarrow> c = 0 \<or> c = 1 \<or> c = 2"
proof -
  assume "c < 3"
  then have "unat c < 3" by (simp add: word_less_nat_alt)
  then have "unat c = unat (0 :: u32) \<or> unat c = unat (1 :: u32) \<or> unat c = unat (2 :: u32)" by auto
  then show ?thesis by (simp only: word_unat_eq_iff)
qed

lemma some_cid_free:
  assumes "card (cid_allocations q) < 2 ^ 32 - 3"
  shows "\<exists>c. 3 \<le> c \<and> c \<notin> cid_allocations q"
proof (rule ccontr)
  assume "\<not> ?thesis"
  then have "(UNIV :: u32 set) \<subseteq> cid_allocations q \<union> {0, 1, 2}"
    using word_less_three by (force simp: not_le)
  then have "card (UNIV :: u32 set) \<le> card (cid_allocations q \<union> {0, 1, 2})"
    by (intro card_mono) simp_all
  also have "\<dots> \<le> card (cid_allocations q) + card {0, 1, 2 :: u32}"
    by (rule card_Un_le)
  also have "card {0, 1, 2 :: u32} \<le> 3"
    by (simp add: card_insert_if)
  finally show False using assms by (simp add: card_word)
qed

section \<open>The invariant is kept\<close>

lemma abandon_vm_ok:
  "qemu_ok q \<Longrightarrow> qemu_ok (snd (abandon_vm w cid msg q))"
  by (auto simp: qemu_ok_def abandon_vm_def split: option.split if_splits)

lemma start_registered_ok:
  assumes "qemu_ok q" and "qh_cid h = cid" and "cid \<in> cid_allocations q"
  shows "qemu_ok (snd (start_registered w cid h q))"
proof -
  have "qemu_ok (q\<lparr> vm_registry := hm_insert cid (h\<lparr> qh_child := True \<rparr>) (vm_registry q) \<rparr>)"
    using assms by (auto simp: qemu_ok_def split: if_splits)
  then show ?thesis
    using assms(1)
    by (auto simp: start_registered_def Let_def abandon_vm_ok split: option.split connect_result.split)
qed

theorem start_vm_ok:
  assumes "qemu_ok q" and "start_vm w h p req q = Some (r, q')"
  shows "qemu_ok q'"
proof -
  obtain cid q1 where alloc: "allocate_cid q = Some (cid, q1)"
    using assms(2) by (auto simp: start_vm_def split: option.splits)
  note fresh = allocate_cid_fresh [OF alloc]
  let ?h = "\<lparr> qh_child = False, qh_cid = cid, qh_tx_hash = h, qh_program_id = prg_hash p,
              qh_workspace_volume_label = vw_label w \<rparr>"
  let ?q = "q1\<lparr> vm_registry := hm_insert cid ?h (vm_registry q1) \<rparr>"
  have "qemu_ok ?q" using fresh assms(1) by (auto simp: qemu_ok_def split: if_splits)
  moreover have "q' = snd (start_registered w cid ?h ?q)"
    using assms(2) alloc by (simp add: start_vm_def Let_def)
  ultimately show ?thesis using fresh by (simp add: start_registered_ok)
qed

theorem stop_vm_ok:
  "qemu_ok q \<Longrightarrow> qemu_ok (snd (stop_vm e vm q))"
  by (auto simp: qemu_ok_def stop_vm_def release_cid_def Let_def
      split: option.split if_splits)

section \<open>Starting and stopping\<close>

lemma start_registered_Done:
  assumes "start_registered w cid h q = (Done vm, q')"
  shows "vh_vm_id vm = cid \<and>
         q' = q\<lparr> vm_registry := hm_insert cid (h\<lparr> qh_child := True \<rparr>) (vm_registry q) \<rparr>"
  using assms
  by (auto simp: start_registered_def abandon_vm_def Let_def split: option.splits if_splits
      connect_result.splits)

lemma start_vm_Done:
  assumes "start_vm w h p req q = Some (Done vm, q')"
  shows "3 \<le> vh_vm_id vm \<and> vh_vm_id vm \<notin> cid_allocations q \<and>
         cid_allocations q' = insert (vh_vm_id vm) (cid_allocations q) \<and>
         hm_get (vm_registry q') = (hm_get (vm_registry q)) (vh_vm_id vm \<mapsto>
           \<lparr> qh_child = True, qh_cid = vh_vm_id vm, qh_tx_hash = h, qh_program_id = prg_hash p,
             qh_workspace_volume_label = vw_label w \<rparr>)"
proof -
  obtain cid q1 where alloc: "allocate_cid q = Some (cid, q1)"
    using assms by (auto simp: start_vm_def split: option.splits)
  note fresh = allocate_cid_fresh [OF alloc]
  have "vh_vm_id vm = cid \<and> cid_allocations q' = cid_allocations q1 \<and>
      hm_get (vm_registry q') = (hm_get (vm_registry q1)) (cid \<mapsto>
           \<lparr> qh_child = True, qh_cid = cid, qh_tx_hash = h, qh_program_id = prg_hash p,
             qh_workspace_volume_label = vw_label w \<rparr>)"
    using assms alloc by (auto simp: start_vm_def Let_def fun_eq_iff dest!: start_registered_Done)
  with fresh show ?thesis by auto
qed

text \<open>
  C37: A started machine gets an identifier that no other machine has and that is not reserved. From
  then on a connection from that identifier is recognised as the transaction and the program of the
  start. The other machines stay registered as they were. Stopping it again, when the process can be
  killed, gives the identifier back and leaves exactly the machines of before.
\<close>

theorem vm_start_stop:
  assumes "qemu_ok q" and "start_vm w h p req q = Some (Done vm, q1)"
  shows "3 \<le> vh_vm_id vm \<and> vh_vm_id vm \<notin> cid_allocations q \<and>
         (find_by_req (Some (Some (vh_vm_id vm))) q1
            :: (string, (hash \<times> hash \<times> u32) option) outcome)
           = Done (Some (h, prg_hash p, vh_vm_id vm)) \<and>
         (\<forall>cid. cid \<noteq> vh_vm_id vm \<longrightarrow> hm_get (vm_registry q1) cid = hm_get (vm_registry q) cid) \<and>
         fst (stop_vm None vm q1) = Done () \<and>
         cid_allocations (snd (stop_vm None vm q1)) = cid_allocations q \<and>
         hm_get (vm_registry (snd (stop_vm None vm q1))) = hm_get (vm_registry q)"
proof -
  note started = start_vm_Done [OF assms(2)]
  have "hm_get (vm_registry q) (vh_vm_id vm) = None"
    using started assms(1) by (cases "hm_get (vm_registry q) (vh_vm_id vm)") (auto simp: qemu_ok_def)
  with started show ?thesis
    by (auto simp: find_by_req_def stop_vm_def release_cid_def Let_def fun_eq_iff expect_def)
qed

definition sample_world :: vm_world where
  "sample_world = \<lparr> vw_label = ''label'', vw_start_time = 5, vw_log_dir_error = None,
     vw_stdout_error = None, vw_stderr_error = None, vw_spawns = True,
     vw_connect = (\<lambda>i. if i < 2 then QmpRefused else QmpConnected), vw_kill_error = None \<rparr>"

definition sample_program :: program where
  "sample_program = \<lparr> prg_hash = sample_hash 1, prg_name = ''prover'', prg_image_file_name = ''p.img'',
     prg_image_file_url = ''http://h/p.img'', prg_image_file_checksum = ''00'', prg_limits = None \<rparr>"

lemmas start_eval = start_vm_def start_registered_def abandon_vm_def allocate_cid.simps
  connect_loop.simps sample_world_def sample_program_def qemu_new_def Let_def

theorem vm_start_stop_witness:
  "\<exists>vm q1. start_vm sample_world (sample_hash 2) sample_program resource_request_default qemu_new
      = Some (Done vm, q1) \<and> vh_vm_id vm = 4 \<and>
      cid_allocations (snd (stop_vm None vm q1)) = {}"
proof -
  obtain vm q1 where started: "start_vm sample_world (sample_hash 2) sample_program
      resource_request_default qemu_new = Some (Done vm, q1)" and "vh_vm_id vm = 4"
    by (simp add: start_eval)
  with vm_start_stop [OF qemu_ok_new started] show ?thesis by (auto simp: qemu_new_def)
qed

text \<open>
  A start always comes back as long as some identifier is free: the search for an identifier
  ends although it may wrap around, and the connection to the machine is tried at most 101 times.
\<close>

theorem start_vm_returns:
  assumes "card (cid_allocations q) < 2 ^ 32 - 3"
  shows "\<exists>r q'. start_vm w h p req q = Some (r, q')"
proof -
  obtain r where "allocate_cid q = Some r"
    using some_cid_free [OF assms] allocate_cid_total by blast
  then show ?thesis by (cases r) (auto simp: start_vm_def Let_def)
qed

theorem start_vm_returns_witness:
  "\<exists>r q'. start_vm sample_world (sample_hash 2) sample_program resource_request_default
     (qemu_new\<lparr> next_cid := -1, cid_allocations := {-1, 3} \<rparr>) = Some (r, q')"
  using start_vm_returns [of "qemu_new\<lparr> next_cid := -1, cid_allocations := {-1, 3} \<rparr>"] by simp

lemma start_registered_Failed:
  assumes "start_registered w cid h q = (Failed e, q')"
  shows "q' = (if vw_log_dir_error w = None \<and> vw_stdout_error w = None \<and> vw_stderr_error w = None
     then let q1 = q\<lparr> vm_registry := hm_insert cid (h\<lparr> qh_child := True \<rparr>) (vm_registry q) \<rparr>
          in if vw_kill_error w = None
             then q1\<lparr> vm_registry := hm_remove cid (vm_registry q1),
                      cid_allocations := cid_allocations q1 - {cid} \<rparr>
             else q1
     else q)"
  using assms
  by (auto simp: start_registered_def abandon_vm_def Let_def split: option.splits if_splits
      connect_result.splits)



end
