(* ===== verification/Resource_Manager.thy ===== *)
theory Resource_Manager
  imports Tx_Types
begin

text \<open>
  \<open>scheduler/resource_manager.rs\<close>: the pool of memory, CPUs and GPUs from which programs are
  started. Amounts are 64-bit words with wrap-around addition, as in the compiled code; the lemmas
  show that the balance of the pool keeps every addition below the total, so that nothing wraps.
  The gauges of the metrics are part of the state, read as signed 64-bit numbers.
\<close>

section \<open>Operations\<close>

datatype resource_error = NotEnoughResources string

record resource_gauges =
  cpus_total :: int
  mem_total :: int
  gpus_total :: int
  cpus_available :: int
  mem_available :: int
  gpus_available :: int

record resource_manager =
  available_mem :: u64
  available_cpus :: u64
  available_gpus :: u64
  rm_gauges :: resource_gauges

record resource_allocation =
  al_mem :: u64
  al_cpus :: u64
  al_gpus :: u64

definition resource_manager_new :: "resource_gauges \<Rightarrow> u64 \<Rightarrow> u64 \<Rightarrow> u64 \<Rightarrow> resource_manager" where
  "resource_manager_new g total_mem total_cpus total_gpus =
     \<lparr> available_mem = total_mem, available_cpus = total_cpus, available_gpus = total_gpus,
       rm_gauges = g\<lparr> cpus_total := sint total_cpus, mem_total := sint total_mem,
                      gpus_total := sint total_gpus \<rparr> \<rparr>"

definition update_gauges :: "resource_manager \<Rightarrow> resource_manager" where
  "update_gauges m =
     m\<lparr> rm_gauges := (rm_gauges m)\<lparr> cpus_available := sint (available_cpus m),
                                     mem_available := sint (available_mem m),
                                     gpus_available := sint (available_gpus m) \<rparr> \<rparr>"

definition try_allocate ::
  "resource_request \<Rightarrow> resource_manager \<Rightarrow> resource_error + resource_allocation \<times> resource_manager" where
  "try_allocate r m =
     (if available_mem m < mem r then Inl (NotEnoughResources ''memory'')
      else if available_cpus m < cpus r then Inl (NotEnoughResources ''cpus'')
      else if available_gpus m < gpus r then Inl (NotEnoughResources ''gpus'')
      else Inr (\<lparr> al_mem = mem r, al_cpus = cpus r, al_gpus = gpus r \<rparr>,
                update_gauges (m\<lparr> available_mem := available_mem m - mem r,
                                   available_cpus := available_cpus m - cpus r,
                                   available_gpus := available_gpus m - gpus r \<rparr>)))"

definition resource_free :: "resource_allocation \<Rightarrow> resource_manager \<Rightarrow> resource_manager" where
  "resource_free a m =
     update_gauges (m\<lparr> available_mem := available_mem m + al_mem a,
                        available_cpus := available_cpus m + al_cpus a,
                        available_gpus := available_gpus m + al_gpus a \<rparr>)"

text \<open>Dropping an allocation frees it.\<close>

definition drop_allocation :: "resource_allocation \<Rightarrow> resource_manager \<Rightarrow> resource_manager" where
  "drop_allocation a m = resource_free a m"

text \<open>
  The configured totals: \<open>sys_cpus\<close> and \<open>sys_mem\<close> are what the operating system reports, the latter
  if it can be looked up.
\<close>

record resource_config =
  cfg_gpu_devices :: "string option"
  cfg_num_cpus :: "u64 option"
  cfg_mem_gb :: "u64 option"

definition get_configured_resources ::
  "u64 \<Rightarrow> u64 option \<Rightarrow> resource_config \<Rightarrow> ('e, u64 \<times> u64 \<times> u64) outcome" where
  "get_configured_resources sys_cpus sys_mem cfg =
     (let num_gpus = (if cfg_gpu_devices cfg \<noteq> None then 1 else 0);
          num_cpus = (case cfg_num_cpus cfg of Some n \<Rightarrow> n | None \<Rightarrow> sys_cpus)
      in obind (case cfg_mem_gb cfg of
                  Some gb \<Rightarrow> Done (gb * 1024 * 1024 * 1024)
                | None \<Rightarrow> expect ''failed to lookup available system memory'' sys_mem)
           (\<lambda>m. Done (num_cpus, m, num_gpus)))"

section \<open>Word arithmetic without wrap-around\<close>

lemma unat_sub_le: "b \<le> a \<Longrightarrow> unat (a - b) = unat a - unat (b :: u64)"
  by (simp add: unat_sub word_le_nat_alt)

lemma unat_add_bound:
  fixes a b t :: u64
  assumes "unat a + unat b \<le> unat t"
  shows "unat (a + b) = unat a + unat b"
proof -
  have "unat t < 2 ^ LENGTH(64)" by (rule unsigned_less)
  with assms have "unat a + unat b < 2 ^ LENGTH(64)" by linarith
  then show ?thesis by (simp add: unat_word_ariths)
qed

section \<open>The balance of the pool\<close>

text \<open>For one kind of resource: what is available and what is allocated make up the total.\<close>

definition balanced1 ::
  "u64 \<Rightarrow> (resource_allocation \<Rightarrow> u64) \<Rightarrow> resource_allocation multiset \<Rightarrow> u64 \<Rightarrow> bool" where
  "balanced1 t f A avail \<longleftrightarrow> unat avail + (\<Sum>a\<in>#A. unat (f a)) = unat t"

lemma balanced1_empty [simp]: "balanced1 t f {#} t"
  by (simp add: balanced1_def)

lemma balanced1_alloc:
  "balanced1 t f A v \<Longrightarrow> f a \<le> v \<Longrightarrow> balanced1 t f (add_mset a A) (v - f a)"
  by (simp add: balanced1_def unat_sub_le word_le_nat_alt)

lemma balanced1_free:
  "balanced1 t f (add_mset a A) v \<Longrightarrow> balanced1 t f A (v + f a) \<and> unat (v + f a) = unat v + unat (f a)"
proof -
  assume "balanced1 t f (add_mset a A) v"
  then have sum: "unat v + (unat (f a) + (\<Sum>a\<in>#A. unat (f a))) = unat t"
    by (simp add: balanced1_def)
  then have "unat (v + f a) = unat v + unat (f a)" by (intro unat_add_bound [of _ _ t]) linarith
  with sum show ?thesis by (simp add: balanced1_def)
qed

definition rm_balanced ::
  "u64 \<times> u64 \<times> u64 \<Rightarrow> resource_allocation multiset \<Rightarrow> resource_manager \<Rightarrow> bool" where
  "rm_balanced t A m \<longleftrightarrow>
     (case t of (tm, tc, tg) \<Rightarrow>
        balanced1 tm al_mem A (available_mem m) \<and> balanced1 tc al_cpus A (available_cpus m) \<and>
        balanced1 tg al_gpus A (available_gpus m))"

lemma available_update_gauges [simp]:
  "available_mem (update_gauges m) = available_mem m"
  "available_cpus (update_gauges m) = available_cpus m"
  "available_gpus (update_gauges m) = available_gpus m"
  by (simp_all add: update_gauges_def)

lemma rm_balanced_new: "rm_balanced (tm, tc, tg) {#} (resource_manager_new g tm tc tg)"
  by (simp add: rm_balanced_def resource_manager_new_def)

lemma try_allocate_Inr:
  assumes "try_allocate r m = Inr (a, m')"
  shows "al_mem a \<le> available_mem m" "al_cpus a \<le> available_cpus m" "al_gpus a \<le> available_gpus m"
    and "available_mem m' = available_mem m - al_mem a"
    and "available_cpus m' = available_cpus m - al_cpus a"
    and "available_gpus m' = available_gpus m - al_gpus a"
    and "a = \<lparr> al_mem = mem r, al_cpus = cpus r, al_gpus = gpus r \<rparr>"
  using assms by (auto simp: try_allocate_def not_less split: if_splits)

lemma try_allocate_balanced:
  assumes "rm_balanced t A m" and "try_allocate r m = Inr (a, m')"
  shows "rm_balanced t (add_mset a A) m'"
  using assms(1) try_allocate_Inr(1-6) [OF assms(2)]
  by (auto simp: rm_balanced_def intro: balanced1_alloc)

lemma resource_free_balanced:
  "rm_balanced t (add_mset a A) m \<Longrightarrow> rm_balanced t A (resource_free a m)"
  by (auto simp: resource_free_def rm_balanced_def dest: balanced1_free)

section \<open>The contract towards the program manager\<close>

text \<open>
  A pool hands out allocations and takes them back, and stays balanced with the allocations that
  are out. \<open>pool_run\<close> is any history of requests and returns; \<open>held\<close> are the allocations that are
  out.
\<close>

locale resource_pool =
  fixes alloc :: "'r \<Rightarrow> 'm \<Rightarrow> 'x + 'a \<times> 'm"
    and free :: "'a \<Rightarrow> 'm \<Rightarrow> 'm"
    and balanced :: "'a multiset \<Rightarrow> 'm \<Rightarrow> bool"
  assumes alloc_balanced: "balanced A m \<Longrightarrow> alloc r m = Inr (a, m') \<Longrightarrow> balanced (add_mset a A) m'"
    and free_balanced: "balanced (add_mset a A) m \<Longrightarrow> balanced A (free a m)"
begin

inductive pool_run :: "'m \<Rightarrow> 'a multiset \<Rightarrow> 'm \<Rightarrow> bool" for m0 where
  start: "pool_run m0 {#} m0"
| taken: "pool_run m0 A m \<Longrightarrow> alloc r m = Inr (a, m') \<Longrightarrow> pool_run m0 (add_mset a A) m'"
| refused: "pool_run m0 A m \<Longrightarrow> alloc r m = Inl x \<Longrightarrow> pool_run m0 A m"
| returned: "pool_run m0 (add_mset a A) m \<Longrightarrow> pool_run m0 A (free a m)"

lemma pool_run_balanced: "pool_run m0 A m \<Longrightarrow> balanced {#} m0 \<Longrightarrow> balanced A m"
  by (induction rule: pool_run.induct) (auto intro: alloc_balanced free_balanced)

lemma failed_start_restores:
  assumes "balanced A m" and "alloc r m = Inr (a, m')"
  shows "balanced A (free a m')"
  using alloc_balanced [OF assms] by (rule free_balanced)

end

interpretation rm: resource_pool try_allocate resource_free "rm_balanced t" for t
  by unfold_locales (auto intro: try_allocate_balanced resource_free_balanced)

section \<open>Properties\<close>

text \<open>
  after any history of allocations and releases on a fresh manager, what is available together
  with the allocations that are out is the configured total, for memory, CPUs and GPUs, as numbers
  without wrap-around; so the programs that run never hold more than the total.
\<close>

theorem resources_conserved:
  assumes "rm.pool_run (resource_manager_new g tm tc tg) A m"
  shows "unat (available_mem m) + (\<Sum>a\<in>#A. unat (al_mem a)) = unat tm \<and>
         unat (available_cpus m) + (\<Sum>a\<in>#A. unat (al_cpus a)) = unat tc \<and>
         unat (available_gpus m) + (\<Sum>a\<in>#A. unat (al_gpus a)) = unat tg"
  using rm.pool_run_balanced [OF assms rm_balanced_new]
  by (simp add: rm_balanced_def balanced1_def)

definition zero_gauges :: resource_gauges where
  "zero_gauges =
     \<lparr> cpus_total = 0, mem_total = 0, gpus_total = 0, cpus_available = 0, mem_available = 0,
       gpus_available = 0 \<rparr>"

theorem resources_conserved_witness:
  "\<exists>a m. try_allocate resource_request_default (resource_manager_new zero_gauges 8192 8 0) = Inr (a, m) \<and>
         unat (available_mem m) + unat (al_mem a) = unat (8192 :: u64)"
proof -
  let ?m0 = "resource_manager_new zero_gauges 8192 8 0"
  obtain a m where a: "try_allocate resource_request_default ?m0 = Inr (a, m)"
    by (simp add: try_allocate_def resource_manager_new_def resource_request_default_def)
  have "rm.pool_run ?m0 (add_mset a {#}) m"
    by (rule rm.pool_run.taken [OF rm.pool_run.start a])
  from resources_conserved [OF this] a show ?thesis by auto
qed

text \<open>
  an allocation succeeds exactly when no kind of resource is short, and freeing it again gives
  back the amounts that were available before.
\<close>

theorem allocate_then_free:
  "(\<exists>a m'. try_allocate r m = Inr (a, m') \<and>
      available_mem (resource_free a m') = available_mem m \<and>
      available_cpus (resource_free a m') = available_cpus m \<and>
      available_gpus (resource_free a m') = available_gpus m) \<longleftrightarrow>
   mem r \<le> available_mem m \<and> cpus r \<le> available_cpus m \<and> gpus r \<le> available_gpus m"
  by (auto simp: try_allocate_def resource_free_def not_less split: if_splits)

end
