(* ===== verification/Program_Manager.thy ===== *)
theory Program_Manager
  imports Qemu Resource_Manager
begin

text \<open>
  \<open>scheduler/program_manager.rs\<close>: a program is started by looking it up, allocating its resources and
  starting a machine. The allocation is a value that frees itself when it is dropped, which the model
  writes out at every place where a handle goes out of scope.
\<close>

section \<open>Model\<close>

datatype program_error = ProgramNotFound string

text \<open>The errors of \<open>start_program\<close>, told apart by the scheduler through \<open>downcast_ref\<close>.\<close>

datatype start_error =
    StorageFailed string
  | ProgramFailed program_error
  | ResourceFailed resource_error
  | VmFailed string

record program_handle =
  ph_allocation :: resource_allocation
  ph_vm_handle :: vm_handle

record program_manager =
  pmg_resources :: resource_manager
  pmg_provider :: qemu

definition program_manager_new :: "qemu \<Rightarrow> resource_manager \<Rightarrow> program_manager" where
  "program_manager_new q r = \<lparr> pmg_resources = r, pmg_provider = q \<rparr>"

type_synonym find_program = "hash \<Rightarrow> string + program option"

definition start_program ::
  "crates \<Rightarrow> find_program \<Rightarrow> vm_world \<Rightarrow> hash \<Rightarrow> hash \<Rightarrow> resource_request option \<Rightarrow> program_manager
     \<Rightarrow> ((start_error, program_handle) outcome \<times> program_manager) option" where
  "start_program c fp w h program_id limits m =
     (case fp program_id of
        Inl e \<Rightarrow> Some (Failed (StorageFailed e), m)
      | Inr None \<Rightarrow> Some (Failed (ProgramFailed (ProgramNotFound (hash_display c program_id))), m)
      | Inr (Some p) \<Rightarrow>
          (let req = (case limits of
                        Some r \<Rightarrow> r
                      | None \<Rightarrow> (case prg_limits p of Some r \<Rightarrow> r | None \<Rightarrow> resource_request_default))
           in case try_allocate req (pmg_resources m) of
                Inl e \<Rightarrow> Some (Failed (ResourceFailed e), m)
              | Inr (a, res) \<Rightarrow>
                  (case start_vm w h p req (pmg_provider m) of
                     None \<Rightarrow> None
                   | Some (r, q) \<Rightarrow>
                       Some (case r of
                          Done vm \<Rightarrow>
                            (Done \<lparr> ph_allocation = a, ph_vm_handle = vm \<rparr>,
                             m\<lparr> pmg_resources := res, pmg_provider := q \<rparr>)
                        | Failed e \<Rightarrow>
                            (Failed (VmFailed e),
                             m\<lparr> pmg_resources := drop_allocation a res, pmg_provider := q \<rparr>)
                        | Panicked msg \<Rightarrow>
                            (Panicked msg,
                             m\<lparr> pmg_resources := drop_allocation a res, pmg_provider := q \<rparr>)))))"

definition stop_program ::
  "string option \<Rightarrow> program_handle \<Rightarrow> program_manager \<Rightarrow> (string, unit) outcome \<times> program_manager" where
  "stop_program kill_error ph m =
     (case stop_vm kill_error (ph_vm_handle ph) (pmg_provider m) of
        (r, q) \<Rightarrow>
          (r, m\<lparr> pmg_provider := q,
                 pmg_resources := drop_allocation (ph_allocation ph) (pmg_resources m) \<rparr>))"

section \<open>Resources and machines\<close>

text \<open>
  \<open>runs_for q h ph\<close>: the machine of the handle is registered for the transaction \<open>h\<close> and has a
  process.
\<close>

definition runs_for :: "qemu \<Rightarrow> hash \<Rightarrow> program_handle \<Rightarrow> bool" where
  "runs_for q h ph \<longleftrightarrow>
     (case hm_get (vm_registry q) (vh_vm_id (ph_vm_handle ph)) of
        None \<Rightarrow> False
      | Some v \<Rightarrow> qh_child v \<and> qh_tx_hash v = h)"

lemma drop_allocation_balanced:
  "rm_balanced t (add_mset a A) m \<Longrightarrow> rm_balanced t A (drop_allocation a m)"
  unfolding drop_allocation_def by (rule rm.free_balanced)

lemma start_program_cases:
  assumes "start_program c fp w h pid limits m = Some (r, m')"
  obtains (refused) e where "r = Failed e" and "m' = m"
  | (started) p req a res v q where "try_allocate req (pmg_resources m) = Inr (a, res)"
      and "start_vm w h p req (pmg_provider m) = Some (v, q)"
      and "case v of
             Done vm \<Rightarrow> r = Done \<lparr> ph_allocation = a, ph_vm_handle = vm \<rparr> \<and>
                        m' = m\<lparr> pmg_resources := res, pmg_provider := q \<rparr>
           | _ \<Rightarrow> (\<forall>ph. r \<noteq> Done ph) \<and>
                  m' = m\<lparr> pmg_resources := drop_allocation a res, pmg_provider := q \<rparr>"
  using assms
  by (cases "fp pid") (auto simp: start_program_def Let_def
      split: sum.splits option.splits outcome.splits)

lemma start_program_balanced:
  assumes "rm_balanced t A (pmg_resources m)"
    and "start_program c fp w h pid limits m = Some (r, m')"
  shows "rm_balanced t (case r of Done ph \<Rightarrow> add_mset (ph_allocation ph) A | _ \<Rightarrow> A) (pmg_resources m')"
  using assms(2)
proof (cases rule: start_program_cases)
  case (started p req a res v q)
  note alloc = rm.alloc_balanced [OF assms(1) started(1)]
  show ?thesis
    using started(3) alloc drop_allocation_balanced [OF alloc]
    by (auto split: outcome.splits)
qed (simp add: assms(1))

lemma stop_program_balanced:
  "rm_balanced t (add_mset (ph_allocation ph) A) (pmg_resources m) \<Longrightarrow>
   rm_balanced t A (pmg_resources (snd (stop_program e ph m)))"
  by (simp add: stop_program_def drop_allocation_balanced split: prod.split)

lemma start_registered_keeps:
  assumes "start_registered w cid h q = (r, q')" and "k \<noteq> cid"
  shows "hm_get (vm_registry q') k = hm_get (vm_registry q) k"
  using assms
  by (auto simp: start_registered_def abandon_vm_def Let_def split: option.splits if_splits
      connect_result.splits)

lemma start_vm_keeps:
  assumes "qemu_ok q" and "start_vm w h p req q = Some (r, q')"
    and "hm_get (vm_registry q) k = Some v"
  shows "hm_get (vm_registry q') k = Some v"
proof -
  obtain cid q1 where alloc: "allocate_cid q = Some (cid, q1)"
    using assms by (auto simp: start_vm_def split: option.splits)
  note fresh = allocate_cid_fresh [OF alloc]
  have "k \<noteq> cid" using fresh assms(1,3) by (auto simp: qemu_ok_def)
  then show ?thesis
    using assms(2,3) alloc fresh by (auto simp: start_vm_def Let_def dest!: start_registered_keeps)
qed

lemma start_program_provider:
  assumes "qemu_ok (pmg_provider m)" and "start_program c fp w h pid limits m = Some (r, m')"
  shows "qemu_ok (pmg_provider m')"
    and "runs_for (pmg_provider m) h' ph' \<Longrightarrow> runs_for (pmg_provider m') h' ph'"
    and "r = Done ph \<Longrightarrow> runs_for (pmg_provider m') h ph"
proof -
  have "qemu_ok (pmg_provider m') \<and>
        (runs_for (pmg_provider m) h' ph' \<longrightarrow> runs_for (pmg_provider m') h' ph') \<and>
        (r = Done ph \<longrightarrow> runs_for (pmg_provider m') h ph)"
    using assms(2)
  proof (cases rule: start_program_cases)
    case (started p req a res v q)
    have q: "pmg_provider m' = q" using started(3) by (cases v) auto
    have keep: "runs_for (pmg_provider m) h' ph' \<Longrightarrow> runs_for q h' ph'"
      using start_vm_keeps [OF assms(1) started(2)] by (auto simp: runs_for_def split: option.splits)
    have new: "runs_for q h ph" if "r = Done ph"
      using started(3) that start_vm_Done [of w h p req "pmg_provider m"] started(2)
      by (cases v) (auto simp: runs_for_def)
    show ?thesis using start_vm_ok [OF assms(1) started(2)] keep new by (simp add: q)
  qed (simp add: assms(1))
  then show "qemu_ok (pmg_provider m')"
    and "runs_for (pmg_provider m) h' ph' \<Longrightarrow> runs_for (pmg_provider m') h' ph'"
    and "r = Done ph \<Longrightarrow> runs_for (pmg_provider m') h ph" by blast+
qed

lemma stop_program_provider:
  assumes "qemu_ok (pmg_provider m)"
  shows "qemu_ok (pmg_provider (snd (stop_program e ph m)))"
    and "runs_for (pmg_provider m) h ph \<Longrightarrow> runs_for (pmg_provider m) h' ph' \<Longrightarrow> h' \<noteq> h \<Longrightarrow>
         runs_for (pmg_provider (snd (stop_program e ph m))) h' ph'"
    and "runs_for (pmg_provider m) h ph \<Longrightarrow>
         fst (stop_program e ph m) = (case e of None \<Rightarrow> Done () | Some x \<Rightarrow> Failed x)"
proof -
  show "qemu_ok (pmg_provider (snd (stop_program e ph m)))"
    using stop_vm_ok [OF assms] by (simp add: stop_program_def split: prod.split) (metis snd_conv)
  show "runs_for (pmg_provider m) h ph \<Longrightarrow> runs_for (pmg_provider m) h' ph' \<Longrightarrow> h' \<noteq> h \<Longrightarrow>
         runs_for (pmg_provider (snd (stop_program e ph m))) h' ph'"
    using assms by (auto simp: runs_for_def stop_program_def stop_vm_def release_cid_def Let_def
        qemu_ok_def split: option.splits)
  show "runs_for (pmg_provider m) h ph \<Longrightarrow>
         fst (stop_program e ph m) = (case e of None \<Rightarrow> Done () | Some x \<Rightarrow> Failed x)"
    by (auto simp: runs_for_def stop_program_def stop_vm_def Let_def split: option.splits)
qed

end
