(* ===== verification/Watchdog.thy ===== *)
theory Watchdog
  imports Prelude
begin

text \<open>
  \<open>watchdog/mod.rs\<close>: the health check that watches the signals of the scheduler and answers HTTP
  requests with the state it derived. The loop of \<open>run_healthcheck\<close> is a step function over what
  its \<open>select!\<close> can wake up on; any sequence of wake-ups is a run.
\<close>

section \<open>Model\<close>

datatype health_signal = SchedulerLoopOk | SchedulerMempoolLen nat

datatype watchdog_state = Alive | Graceful | Critical

record healthcheck_state =
  scheduler_alive :: bool
  scheduler_mempool_empty :: bool
  scheduler_signal_valid :: bool

definition healthcheck_default :: healthcheck_state where
  "healthcheck_default =
     \<lparr> scheduler_alive = True, scheduler_mempool_empty = True, scheduler_signal_valid = True \<rparr>"

definition GRACEFULL_SIGNAL_COUNTER_LIMIT :: nat where
  "GRACEFULL_SIGNAL_COUNTER_LIMIT = 20"

definition status_of_state :: "watchdog_state \<Rightarrow> nat" where
  "status_of_state s = (case s of Alive \<Rightarrow> 200 | Graceful \<Rightarrow> 204 | Critical \<Rightarrow> 503)"

text \<open>The local variables of the loop and the shared state that the HTTP server reads.\<close>

record healthcheck =
  hc_state :: healthcheck_state
  hc_see_loop_ok :: bool
  hc_timeout_counter :: nat
  hc_published :: watchdog_state

definition healthcheck_init :: healthcheck where
  "healthcheck_init =
     \<lparr> hc_state = healthcheck_default, hc_see_loop_ok = True, hc_timeout_counter = 0,
       hc_published = Alive \<rparr>"

text \<open>
  What wakes the loop: the timer, a message, the closed channel, or the timeout of the
  receive. Once the channel is closed the sender of its replacement is dropped in the same statement,
  so that later receives report a closed channel again.
\<close>

datatype wakeup = Tick | Signal health_signal | ChannelClosed | SignalTimeout

definition classify :: "healthcheck_state \<Rightarrow> watchdog_state" where
  "classify s =
     (if \<not> scheduler_alive s \<or> \<not> scheduler_mempool_empty s then Critical
      else if \<not> scheduler_signal_valid s then Graceful
      else Alive)"

definition select_wakeup :: "nat \<Rightarrow> wakeup \<Rightarrow> healthcheck \<Rightarrow> healthcheck_state \<times> healthcheck" where
  "select_wakeup limit w h =
     (let new_state = hc_state h
      in case w of
           Tick \<Rightarrow>
             (if \<not> hc_see_loop_ok h then new_state\<lparr> scheduler_alive := False \<rparr> else new_state,
              h\<lparr> hc_see_loop_ok := False \<rparr>)
         | Signal SchedulerLoopOk \<Rightarrow>
             (new_state\<lparr> scheduler_signal_valid := True, scheduler_alive := True \<rparr>,
              h\<lparr> hc_timeout_counter := 0, hc_see_loop_ok := True \<rparr>)
         | Signal (SchedulerMempoolLen len) \<Rightarrow>
             (new_state\<lparr> scheduler_signal_valid := True, scheduler_mempool_empty := (len = 0) \<rparr>,
              h\<lparr> hc_timeout_counter := 0 \<rparr>)
         | ChannelClosed \<Rightarrow>
             (new_state\<lparr> scheduler_signal_valid := False \<rparr>,
              h\<lparr> hc_timeout_counter := 0 \<rparr>)
         | SignalTimeout \<Rightarrow>
             (if hc_timeout_counter h + 1 \<ge> limit
              then new_state\<lparr> scheduler_signal_valid := False \<rparr> else new_state,
              h\<lparr> hc_timeout_counter := hc_timeout_counter h + 1 \<rparr>))"

definition run_healthcheck_step :: "nat \<Rightarrow> wakeup \<Rightarrow> healthcheck \<Rightarrow> healthcheck" where
  "run_healthcheck_step limit w h =
     (case select_wakeup limit w h of
        (new_state, h1) \<Rightarrow>
          (let state_changed = (new_state \<noteq> hc_state h); h2 = h1\<lparr> hc_state := new_state \<rparr>
           in if state_changed then h2\<lparr> hc_published := classify new_state \<rparr> else h2))"

definition run_healthcheck :: "nat \<Rightarrow> wakeup list \<Rightarrow> healthcheck" where
  "run_healthcheck limit ws = fold (run_healthcheck_step limit) ws healthcheck_init"

definition serve_request :: "string \<Rightarrow> string \<Rightarrow> healthcheck \<Rightarrow> nat" where
  "serve_request method path h =
     (if method \<in> {''GET'', ''HEAD''} \<and> path = ''/healthz'' then status_of_state (hc_published h)
      else if method \<in> {''GET'', ''HEAD''} \<and> path = ''/ready'' then 204
      else 200)"

section \<open>The state in terms of the history\<close>

text \<open>
  The history is read backwards. The scheduler counts as alive until the timer ticked twice since its
  last loop signal; the mempool counts as empty by its last reported length; the signal counts as
  valid by the last thing received and the timeouts since.
\<close>

definition loop_seen :: "wakeup list \<Rightarrow> bool" where
  "loop_seen ws \<longleftrightarrow>
     count_list (takeWhile (\<lambda>w. w \<noteq> Signal SchedulerLoopOk) (rev ws)) Tick < 2"

fun last_len :: "wakeup list \<Rightarrow> nat" where
  "last_len [] = 0"
| "last_len (Signal (SchedulerMempoolLen n) # ws) = n"
| "last_len (w # ws) = last_len ws"

definition recent_timeouts :: "wakeup list \<Rightarrow> nat" where
  "recent_timeouts ws = length (takeWhile (\<lambda>w. w = SignalTimeout) (filter (\<lambda>w. w \<noteq> Tick) (rev ws)))"

definition last_received_closed :: "wakeup list \<Rightarrow> bool" where
  "last_received_closed ws \<longleftrightarrow>
     take 1 (dropWhile (\<lambda>w. w = SignalTimeout) (filter (\<lambda>w. w \<noteq> Tick) (rev ws))) = [ChannelClosed]"

definition signal_ok :: "nat \<Rightarrow> wakeup list \<Rightarrow> bool" where
  "signal_ok limit ws \<longleftrightarrow> recent_timeouts ws < limit \<and> \<not> last_received_closed ws"

definition matches_history :: "nat \<Rightarrow> wakeup list \<Rightarrow> healthcheck \<Rightarrow> bool" where
  "matches_history limit ws h \<longleftrightarrow>
     hc_see_loop_ok h = (count_list (takeWhile (\<lambda>w. w \<noteq> Signal SchedulerLoopOk) (rev ws)) Tick = 0) \<and>
     hc_timeout_counter h = recent_timeouts ws \<and>
     hc_state h = \<lparr> scheduler_alive = loop_seen ws, scheduler_mempool_empty = (last_len (rev ws) = 0),
                    scheduler_signal_valid = signal_ok limit ws \<rparr> \<and>
     hc_published h = classify (hc_state h)"

lemma matches_history_init: "0 < limit \<Longrightarrow> matches_history limit [] healthcheck_init"
  by (simp add: matches_history_def healthcheck_init_def healthcheck_default_def classify_def
      loop_seen_def signal_ok_def recent_timeouts_def last_received_closed_def)

lemma matches_history_step:
  assumes "0 < limit" and "matches_history limit ws h"
  shows "matches_history limit (ws @ [w]) (run_healthcheck_step limit w h)"
proof (cases w)
  case (Signal s)
  then show ?thesis
    using assms by (cases s) (auto simp: matches_history_def run_healthcheck_step_def
        select_wakeup_def Let_def classify_def loop_seen_def signal_ok_def recent_timeouts_def
        last_received_closed_def)
qed (use assms in \<open>auto simp: matches_history_def run_healthcheck_step_def select_wakeup_def Let_def
       classify_def loop_seen_def signal_ok_def recent_timeouts_def last_received_closed_def\<close>)

lemma run_matches_history: "0 < limit \<Longrightarrow> matches_history limit ws (run_healthcheck limit ws)"
proof (induction ws rule: rev_induct)
  case Nil
  then show ?case by (simp add: run_healthcheck_def matches_history_init)
next
  case (snoc w ws)
  then show ?case by (simp add: run_healthcheck_def matches_history_step)
qed

section \<open>Properties\<close>

text \<open>
  C39: The answer to a health request is determined by the history of wake-ups alone, however they
  interleave: 503 exactly when the timer ticked twice without a loop signal since, or the last
  reported mempool length was not zero; otherwise 204 exactly when the last receive found the
  channel closed or twenty receives timed out in a row; otherwise 200.
\<close>

theorem healthz_status:
  "serve_request ''GET'' ''/healthz'' (run_healthcheck GRACEFULL_SIGNAL_COUNTER_LIMIT ws) =
     (if loop_seen ws \<and> last_len (rev ws) = 0
      then if recent_timeouts ws \<ge> 20 \<or> last_received_closed ws then 204 else 200
      else 503)"
proof -
  have "matches_history 20 ws (run_healthcheck GRACEFULL_SIGNAL_COUNTER_LIMIT ws)"
    by (simp add: GRACEFULL_SIGNAL_COUNTER_LIMIT_def run_matches_history)
  then show ?thesis
    by (auto simp: matches_history_def serve_request_def status_of_state_def classify_def signal_ok_def)
qed

end
