(* ===== verification/Scheduler.thy ===== *)
theory Scheduler
  imports Mempool Workflow_Engine Program_Manager Watchdog
begin

text \<open>
  \<open>scheduler/mod.rs\<close>: the loop that turns transactions of the mempool into running machines, and the
  task interface that the machines call. One iteration of \<open>run\<close> is the function
  \<open>run_iteration\<close>; the operations hold the lock on the state, so that any interleaving is a sequence
  of them. Operations return the state also when they fail or panic, and \<open>None\<close> when they never
  come back. Times are in nanoseconds.
\<close>

section \<open>State\<close>

definition MAX_VM_IDLE_RUN_TIME :: nat where
  "MAX_VM_IDLE_RUN_TIME = 60 * 1000000000"

definition MAX_VM_RUN_TIME :: nat where
  "MAX_VM_RUN_TIME = 1800 * 1000000000"

record running_task =
  rt_task :: task
  rt_scheduled :: nat
  rt_started :: nat

text \<open>
  The state behind the lock, together with what its operations change outside: the disk, the counter
  of rescheduled transactions, the signals to the watchdog and the channel of the validation loop.
  The storage of the mempool is the database that the scheduler and the workflow engine share.
\<close>

record 's scheduler =
  ss_mempool :: "'s mempool"
  ss_program_manager :: program_manager
  ss_pending_programs :: "(hash \<times> hash) list"
  ss_running_tasks :: "(hash, running_task) hmap"
  ss_running_vms :: "(hash, program_handle) hmap"
  ss_task_queue :: "(hash, (task \<times> nat) list) hmap"
  ss_disk :: disk
  ss_requeued :: nat
  ss_health :: "health_signal list"
  ss_channel :: tx_channel

definition scheduler_new :: "'s mempool \<Rightarrow> program_manager \<Rightarrow> disk \<Rightarrow> tx_channel \<Rightarrow> 's scheduler" where
  "scheduler_new mp m d ch =
     \<lparr> ss_mempool = mp, ss_program_manager = m, ss_pending_programs = [], ss_running_tasks = hm_empty,
       ss_running_vms = hm_empty, ss_task_queue = hm_empty, ss_disk = d, ss_requeued = 0,
       ss_health = [], ss_channel = ch \<rparr>"

text \<open>
  The configuration, the storage operations, and what the outside world does during one operation:
  the clock, the answers of the machines, the outcome of starting the machine with the given next
  identifier and of killing one, the errors of the file system, the fresh task identifier, and the
  answer of the validation loop to a submitted result.
\<close>

record 's sched_env =
  se_crates :: crates
  se_store :: "'s tx_store"
  se_find_program :: "'s \<Rightarrow> find_program"
  se_node_key :: secret_key
  se_data_directory :: path
  se_http_download_host :: string
  se_now :: nat
  se_is_alive :: "u32 \<Rightarrow> string + bool"
  se_vm :: "u32 \<Rightarrow> vm_world"
  se_kill_error :: "u32 \<Rightarrow> string option"
  se_io :: io_errors
  se_uid :: task_id
  se_health_open :: bool
  se_callback :: callback
  se_answer :: "(mempool_error + unit) option"

definition storage_of :: "'s scheduler \<Rightarrow> 's" where
  "storage_of s = mp_storage (ss_mempool s)"

definition set_storage :: "'s \<Rightarrow> 's scheduler \<Rightarrow> 's scheduler" where
  "set_storage st s = s\<lparr> ss_mempool := (ss_mempool s)\<lparr> mp_storage := st \<rparr> \<rparr>"

definition health_send :: "'s sched_env \<Rightarrow> health_signal \<Rightarrow> 's scheduler \<Rightarrow> 's scheduler" where
  "health_send E m s =
     (if se_health_open E then s\<lparr> ss_health := ss_health s @ [m] \<rparr> else s)"

text \<open>\<open>running_vms.insert\<close>: a handle that is replaced is dropped, which frees its resources.\<close>

definition insert_vm :: "hash \<Rightarrow> program_handle \<Rightarrow> 's scheduler \<Rightarrow> 's scheduler" where
  "insert_vm h ph s =
     (let m = ss_program_manager s;
          m1 = (case hm_get (ss_running_vms s) h of
                  None \<Rightarrow> m
                | Some old \<Rightarrow> m\<lparr> pmg_resources := drop_allocation (ph_allocation old) (pmg_resources m) \<rparr>)
      in s\<lparr> ss_program_manager := m1, ss_running_vms := hm_insert h ph (ss_running_vms s) \<rparr>)"

section \<open>Stopping machines\<close>

definition sched_stop ::
  "'s sched_env \<Rightarrow> program_handle \<Rightarrow> 's scheduler \<Rightarrow> (string, unit) outcome \<times> 's scheduler" where
  "sched_stop E ph s =
     (case stop_program (se_kill_error E (vh_vm_id (ph_vm_handle ph))) ph (ss_program_manager s) of
        (r, m) \<Rightarrow> (r, s\<lparr> ss_program_manager := m \<rparr>))"

text \<open>
  Taking a machine out of the table and stopping it. \<open>Done\<close> carries whether there was one; the
  callers decide what an error means.
\<close>

definition remove_and_stop ::
  "'s sched_env \<Rightarrow> hash \<Rightarrow> 's scheduler \<Rightarrow> (string, bool) outcome \<times> 's scheduler" where
  "remove_and_stop E h s =
     (case hm_get (ss_running_vms s) h of
        None \<Rightarrow> (Done False, s)
      | Some ph \<Rightarrow>
          (case sched_stop E ph (s\<lparr> ss_running_vms := hm_remove h (ss_running_vms s) \<rparr>) of
             (r, s1) \<Rightarrow> (obind r (\<lambda>_. Done True), s1)))"

definition is_zombie :: "'s sched_env \<Rightarrow> 's scheduler \<Rightarrow> running_task \<Rightarrow> bool" where
  "is_zombie E s t =
     (case hm_get (ss_running_vms s) (task_tx (rt_task t)) of
        None \<Rightarrow> True
      | Some ph \<Rightarrow>
          (case se_is_alive E (vh_vm_id (ph_vm_handle ph)) of
             Inr True \<Rightarrow> se_now E - rt_started t > MAX_VM_RUN_TIME
           | Inr False \<Rightarrow> True
           | Inl _ \<Rightarrow> True))"

text \<open>The two reaping loops; errors are logged, a panic of \<open>stop_vm\<close> ends the loop.\<close>

fun reap_tasks :: "'s sched_env \<Rightarrow> hash list \<Rightarrow> 's scheduler \<Rightarrow> (string, unit) outcome \<times> 's scheduler" where
  "reap_tasks E [] s = (Done (), s)"
| "reap_tasks E (h # hs) s =
     (case remove_and_stop E h s of
        (Panicked m, s1) \<Rightarrow> (Panicked m, s1)
      | (_, s1) \<Rightarrow> reap_tasks E hs (s1\<lparr> ss_running_tasks := hm_remove h (ss_running_tasks s1) \<rparr>))"

fun reap_idle :: "'s sched_env \<Rightarrow> hash list \<Rightarrow> 's scheduler \<Rightarrow> (string, unit) outcome \<times> 's scheduler" where
  "reap_idle E [] s = (Done (), s)"
| "reap_idle E (h # hs) s =
     (case remove_and_stop E h s of
        (Panicked m, s1) \<Rightarrow> (Panicked m, s1)
      | (_, s1) \<Rightarrow> reap_idle E hs s1)"

definition idle_vms :: "'s sched_env \<Rightarrow> 's scheduler \<Rightarrow> hash list" where
  "idle_vms E s =
     map fst (filter (\<lambda>(h, ph). hm_get (ss_running_tasks s) h = None \<and>
                        vm_run_time (se_now E) (ph_vm_handle ph) > MAX_VM_IDLE_RUN_TIME)
                     (ss_running_vms s))"

definition reap_zombies :: "'s sched_env \<Rightarrow> 's scheduler \<Rightarrow> (string, unit) outcome \<times> 's scheduler" where
  "reap_zombies E s =
     (let zombies = map (\<lambda>t. task_tx (rt_task t)) (filter (is_zombie E s) (map snd (ss_running_tasks s)))
      in case reap_tasks E (rev zombies) s of
           (Done _, s1) \<Rightarrow> reap_idle E (rev (idle_vms E s1)) s1
         | (r, s1) \<Rightarrow> (r, s1))"

section \<open>Starting programs\<close>

definition sched_start ::
  "'s sched_env \<Rightarrow> hash \<Rightarrow> hash \<Rightarrow> 's scheduler
     \<Rightarrow> ((start_error, program_handle) outcome \<times> 's scheduler) option" where
  "sched_start E h p s =
     (case start_program (se_crates E) (se_find_program E (storage_of s))
             (se_vm E (next_cid (pmg_provider (ss_program_manager s)))) h p None (ss_program_manager s) of
        None \<Rightarrow> None
      | Some (r, m) \<Rightarrow> Some (r, s\<lparr> ss_program_manager := m \<rparr>))"

definition requeue :: "hash \<Rightarrow> hash \<Rightarrow> 's scheduler \<Rightarrow> 's scheduler" where
  "requeue h p s =
     s\<lparr> ss_pending_programs := ss_pending_programs s @ [(h, p)], ss_requeued := ss_requeued s + 1 \<rparr>"

text \<open>
  The pending programs, over the local copy of the queue. \<open>Done True\<close> goes on with the iteration,
  \<open>Done False\<close> starts the next one.
\<close>

fun start_pending ::
  "'s sched_env \<Rightarrow> (hash \<times> hash) list \<Rightarrow> 's scheduler
     \<Rightarrow> ((start_error, bool) outcome \<times> 's scheduler) option" where
  "start_pending E [] s = Some (Done True, s)"
| "start_pending E ((h, p) # rest) s =
     (case sched_start E h p (s\<lparr> ss_pending_programs := tl (ss_pending_programs s) \<rparr>) of
        None \<Rightarrow> None
      | Some (Done ph, s1) \<Rightarrow> start_pending E rest (insert_vm h ph s1)
      | Some (Failed e, s1) \<Rightarrow> Some (Done False, requeue h p s1)
      | Some (Panicked m, s1) \<Rightarrow> Some (Panicked m, s1))"

definition pick_task ::
  "'s sched_env \<Rightarrow> 's scheduler \<Rightarrow> ((start_error, task option \<times> nat) outcome \<times> 's scheduler) option" where
  "pick_task E s =
     (case mempool_next (ss_mempool s) of
        (None, mp) \<Rightarrow> Some (Done (None, mempool_size mp), s\<lparr> ss_mempool := mp \<rparr>)
      | (Some tx, mp) \<Rightarrow>
          (let s1 = s\<lparr> ss_mempool := mp \<rparr>
           in case next_task (se_crates E) (se_store E) (se_uid E) tx (storage_of s1) of
                None \<Rightarrow> None
              | Some (r, st) \<Rightarrow>
                  Some (case r of
                     Done res \<Rightarrow> Done (res, mempool_size mp)
                   | Failed e \<Rightarrow> Done (None, mempool_size mp)
                   | Panicked m \<Rightarrow> Panicked m, set_storage st s1)))"

text \<open>
  Copying the files of a task: on an error the transaction is marked as executed, and the inner
  \<open>continue\<close> goes on with the next file.
\<close>

definition copy_task_file :: "'s sched_env \<Rightarrow> hash \<Rightarrow> vm_input task_vm_file \<Rightarrow> 's scheduler \<Rightarrow> 's scheduler" where
  "copy_task_file E h f s =
     (case copy_file_for_vm_exe (se_crates E) (se_io E) f (se_data_directory E) h (ss_disk s) of
        Inr d \<Rightarrow> s\<lparr> ss_disk := d \<rparr>
      | Inl e \<Rightarrow> set_storage (snd (ts_mark (se_store E) h (storage_of s))) s)"

definition copy_task_files :: "'s sched_env \<Rightarrow> task \<Rightarrow> 's scheduler \<Rightarrow> 's scheduler" where
  "copy_task_files E t s = fold (copy_task_file E (task_tx t)) (task_files t) s"

definition enqueue_task :: "nat \<Rightarrow> task \<Rightarrow> 's scheduler \<Rightarrow> 's scheduler" where
  "enqueue_task now t s =
     s\<lparr> ss_task_queue :=
          (case hm_get (ss_task_queue s) (task_tx t) of
             Some q \<Rightarrow> hm_insert (task_tx t) (q @ [(t, now)]) (ss_task_queue s)
           | None \<Rightarrow> hm_insert (task_tx t) [(t, now)] (ss_task_queue s)) \<rparr>"

definition start_task ::
  "'s sched_env \<Rightarrow> task \<Rightarrow> 's scheduler \<Rightarrow> ((start_error, unit) outcome \<times> 's scheduler) option" where
  "start_task E t s =
     (case sched_start E (task_tx t) (task_program_id t) s of
        None \<Rightarrow> None
      | Some (Done ph, s1) \<Rightarrow> Some (Done (), insert_vm (task_tx t) ph s1)
      | Some (Failed e, s1) \<Rightarrow>
          (let s2 = (case e of
                       ProgramFailed _ \<Rightarrow>
                         s1\<lparr> ss_task_queue := hm_remove (task_tx t) (ss_task_queue s1) \<rparr>
                     | _ \<Rightarrow> s1)
           in Some (Done (), requeue (task_tx t) (task_program_id t) s2))
      | Some (Panicked m, s1) \<Rightarrow> Some (Panicked m, s1))"

section \<open>One iteration of the loop\<close>

definition schedule_task ::
  "'s sched_env \<Rightarrow> 's scheduler \<Rightarrow> ((start_error, unit) outcome \<times> 's scheduler) option" where
  "schedule_task E s =
     (case pick_task E (health_send E SchedulerLoopOk s) of
        None \<Rightarrow> None
      | Some (Done (None, n), s1) \<Rightarrow> Some (Done (), health_send E (SchedulerMempoolLen n) s1)
      | Some (Done (Some t, n), s1) \<Rightarrow>
          start_task E t (enqueue_task (se_now E) t
            (health_send E (SchedulerMempoolLen n) (copy_task_files E t s1)))
      | Some (Failed e, s1) \<Rightarrow> Some (Failed e, s1)
      | Some (Panicked m, s1) \<Rightarrow> Some (Panicked m, s1))"

definition run_iteration ::
  "'s sched_env \<Rightarrow> 's scheduler \<Rightarrow> ((start_error, unit) outcome \<times> 's scheduler) option" where
  "run_iteration E s =
     (case reap_zombies E s of
        (Panicked m, s1) \<Rightarrow> Some (Panicked m, s1)
      | (_, s1) \<Rightarrow>
          (case start_pending E (ss_pending_programs s1) s1 of
             None \<Rightarrow> None
           | Some (Done True, s2) \<Rightarrow> schedule_task E s2
           | Some (Done False, s2) \<Rightarrow> Some (Done (), s2)
           | Some (Failed e, s2) \<Rightarrow> Some (Failed e, s2)
           | Some (Panicked m, s2) \<Rightarrow> Some (Panicked m, s2)))"

section \<open>The interface of the machines\<close>

definition get_running_task :: "hash \<Rightarrow> 's scheduler \<Rightarrow> task option" where
  "get_running_task h s = map_option rt_task (hm_get (ss_running_tasks s) h)"

definition get_pending_task ::
  "'s sched_env \<Rightarrow> hash \<Rightarrow> 's scheduler \<Rightarrow> (string, task option) outcome \<times> 's scheduler" where
  "get_pending_task E h s =
     (case hm_get (ss_running_tasks s) h of
        Some _ \<Rightarrow>
          (case remove_and_stop E h s of
             (Panicked m, s1) \<Rightarrow> (Panicked m, s1)
           | (_, s1) \<Rightarrow> (Done None, s1))
      | None \<Rightarrow>
          (case hm_get (ss_task_queue s) h of
             Some ((t, scheduled) # q) \<Rightarrow>
               (Done (Some t),
                s\<lparr> ss_task_queue := hm_insert h q (ss_task_queue s),
                   ss_running_tasks := hm_insert (task_tx t)
                     \<lparr> rt_task = t, rt_scheduled = scheduled, rt_started = se_now E \<rparr>
                     (ss_running_tasks s) \<rparr>)
           | _ \<Rightarrow> (Done None, s)))"

record grpc_file =
  gf_path :: string
  gf_checksum :: "byte list"

record grpc_task_result =
  gr_data :: "byte list"
  gr_files :: "grpc_file list"

datatype task_error = Unavailable | TaskFailed

datatype task_result_kind = ResultTask grpc_task_result | ResultError task_error

fun executed_files ::
  "string \<Rightarrow> hash \<Rightarrow> grpc_file list
     \<Rightarrow> (string, (vm_output task_vm_file \<times> file_output tx_file) list) outcome" where
  "executed_files host h [] = Done []"
| "executed_files host h (f # fs) =
     obind (hash_from_slice (gf_checksum f)) (\<lambda>ck.
     obind (executed_files host h fs) (\<lambda>rest.
     Done ((vm_output_new (gf_path f) h, tx_file_new (gf_path f) host ck) # rest)))"

definition result_payload ::
  "running_task \<Rightarrow> hash \<Rightarrow> byte list \<Rightarrow> file_output tx_file list \<Rightarrow> (string, payload) outcome" where
  "result_payload rt program data files =
     (case task_kind_of (rt_task rt) of
        KindProof \<Rightarrow> Done (Proof (task_tx (rt_task rt)) program data files)
      | KindVerification \<Rightarrow> Done (Verification (task_tx (rt_task rt)) program data files)
      | KindPoW \<Rightarrow> Panicked ''not yet implemented: proof of work tasks not implemented yet''
      | KindNop \<Rightarrow> Panicked ''impossible to receive result from a task'')"

text \<open>The error of a failed move is only formatted, so that its text stands for all of them.\<close>

fun move_files ::
  "'s sched_env \<Rightarrow> hash \<Rightarrow> (vm_output task_vm_file \<times> file_output tx_file) list \<Rightarrow> disk
     \<Rightarrow> (string, unit) outcome \<times> disk" where
  "move_files E h [] d = (Done (), d)"
| "move_files E h ((src, dest) # fs) d =
     (case move_vmfile (se_crates E) (se_io E) src dest (se_data_directory E) h d of
        Done d1 \<Rightarrow> move_files E h fs d1
      | Failed e \<Rightarrow> (Failed ''failed to move excution file'', d)
      | Panicked m \<Rightarrow> (Panicked m, d))"

definition send_result ::
  "'s sched_env \<Rightarrow> created transaction \<Rightarrow> 's scheduler \<Rightarrow> (string, unit) outcome \<times> 's scheduler" where
  "send_result E tx s =
     (case result_send_tx (se_callback E) tx (ss_channel s) of
        (Inl e, ch) \<Rightarrow> (Failed ''failed to send Tx result to validation process'', s\<lparr> ss_channel := ch \<rparr>)
      | (Inr _, ch) \<Rightarrow>
          (case await_callback (se_answer E) of
             Inl e \<Rightarrow> Failed ''failed to send Tx result to validation process''
           | Inr _ \<Rightarrow> Done (), s\<lparr> ss_channel := ch \<rparr>))"

definition submit_task_result ::
  "'s sched_env \<Rightarrow> hash \<Rightarrow> hash \<Rightarrow> running_task \<Rightarrow> grpc_task_result \<Rightarrow> 's scheduler
     \<Rightarrow> (string, unit) outcome \<times> 's scheduler" where
  "submit_task_result E h program rt res s =
     (case obind (executed_files (se_http_download_host E) h (gr_files res)) (\<lambda>files.
           obind (result_payload rt program (gr_data res) (map snd files)) (\<lambda>p.
           obind (omap_err (\<lambda>_. ''transaction'') (transaction_new (se_crates E) p (se_node_key E))) (\<lambda>tx.
           Done (files, tx)))) of
        Failed e \<Rightarrow> (Failed e, s)
      | Panicked m \<Rightarrow> (Panicked m, s)
      | Done (files, tx) \<Rightarrow>
          (case move_files E (tx_hash tx) files (ss_disk s) of
             (Done _, d) \<Rightarrow> send_result E tx (s\<lparr> ss_disk := d \<rparr>)
           | (r, d) \<Rightarrow> (r, s\<lparr> ss_disk := d \<rparr>)))"

definition submit_result ::
  "'s sched_env \<Rightarrow> hash \<Rightarrow> hash \<Rightarrow> task_result_kind \<Rightarrow> 's scheduler
     \<Rightarrow> (string, unit) outcome \<times> 's scheduler" where
  "submit_result E h program result s =
     (case hm_get (ss_running_tasks s) h of
        None \<Rightarrow> (Failed ''submit_result task not found.'', s)
      | Some rt \<Rightarrow>
          (let s1 = s\<lparr> ss_running_tasks := hm_remove h (ss_running_tasks s) \<rparr>;
               s2 = set_storage (snd (ts_mark (se_store E) (task_tx (rt_task rt)) (storage_of s1))) s1
           in case (case result of
                      ResultTask res \<Rightarrow> submit_task_result E h program rt res s2
                    | ResultError e \<Rightarrow> (Done (), s2)) of
                (Done _, s3) \<Rightarrow>
                  (case remove_and_stop E h s3 of (r, s4) \<Rightarrow> (obind r (\<lambda>_. Done ()), s4))
              | (r, s3) \<Rightarrow> (r, s3)))"

section \<open>Invariant\<close>

text \<open>
  The resources that are not available are exactly those of the machines in the table, and each of
  these machines is registered for its transaction with a process that can be stopped.
\<close>

definition allocations :: "(hash, program_handle) hmap \<Rightarrow> resource_allocation multiset" where
  "allocations V = image_mset (\<lambda>(h, ph). ph_allocation ph) (mset V)"

definition vms_ok ::
  "u64 \<times> u64 \<times> u64 \<Rightarrow> (hash, program_handle) hmap \<Rightarrow> program_manager \<Rightarrow> bool" where
  "vms_ok t V m \<longleftrightarrow>
     hm_ok V \<and> rm_balanced t (allocations V) (pmg_resources m) \<and> qemu_ok (pmg_provider m) \<and>
     (\<forall>h ph. hm_get V h = Some ph \<longrightarrow> runs_for (pmg_provider m) h ph)"

definition tasks_ok :: "(hash, running_task) hmap \<Rightarrow> (hash, (task \<times> nat) list) hmap \<Rightarrow> bool" where
  "tasks_ok T Q \<longleftrightarrow>
     hm_ok T \<and> hm_ok Q \<and> (\<forall>h rt. hm_get T h = Some rt \<longrightarrow> task_tx (rt_task rt) = h) \<and>
     (\<forall>h q. hm_get Q h = Some q \<longrightarrow> (\<forall>e\<in>set q. task_tx (fst e) = h))"

definition scheduler_ok :: "u64 \<times> u64 \<times> u64 \<Rightarrow> 's scheduler \<Rightarrow> bool" where
  "scheduler_ok t s \<longleftrightarrow>
     vms_ok t (ss_running_vms s) (ss_program_manager s) \<and> tasks_ok (ss_running_tasks s) (ss_task_queue s)"

lemma allocations_remove:
  "hm_ok V \<Longrightarrow> hm_get V h = Some ph \<Longrightarrow>
   allocations V = add_mset (ph_allocation ph) (allocations (hm_remove h V))"
  by (simp add: allocations_def hm.entries_remove [of V h ph])

lemma allocations_insert:
  "hm_ok V \<Longrightarrow>
   allocations (hm_insert h ph V) = add_mset (ph_allocation ph) (allocations (hm_remove h V))"
  by (cases "hm_get V h")
    (simp_all add: allocations_def hm.entries_insert hm.entries_insert_new hm.get_None)

lemma vms_ok_start:
  assumes "vms_ok t V m" and "start_program c fp w h pid limits m = Some (r, m')"
    and "\<And>ph. r \<noteq> Done ph"
  shows "vms_ok t V m'"
  using assms start_program_balanced [OF _ assms(2), of t "allocations V"]
    start_program_provider [OF _ assms(2)]
  by (cases r) (auto simp: vms_ok_def)

lemma vms_ok_insert:
  assumes "vms_ok t (ss_running_vms s) (ss_program_manager s)"
    and "sched_start E h p s = Some (Done ph, s')"
  shows "vms_ok t (ss_running_vms (insert_vm h ph s')) (ss_program_manager (insert_vm h ph s'))"
proof -
  let ?V = "ss_running_vms s"
  obtain w m' where start: "start_program (se_crates E) (se_find_program E (storage_of s)) w h p None
      (ss_program_manager s) = Some (Done ph, m')" and s': "s' = s\<lparr> ss_program_manager := m' \<rparr>"
    using assms(2) by (auto simp: sched_start_def split: option.splits)
  have V: "hm_ok ?V" and bal: "rm_balanced t (allocations ?V) (pmg_resources (ss_program_manager s))"
    and q: "qemu_ok (pmg_provider (ss_program_manager s))"
    using assms(1) by (auto simp: vms_ok_def)
  have "rm_balanced t (add_mset (ph_allocation ph) (allocations ?V)) (pmg_resources m')"
    using start_program_balanced [OF bal start] by simp
  then have "rm_balanced t (allocations (hm_insert h ph ?V))
      (pmg_resources (ss_program_manager (insert_vm h ph s')))"
    using V allocations_remove [OF V]
    by (cases "hm_get ?V h") (auto simp: s' insert_vm_def Let_def allocations_insert hm.get_None
        add_mset_commute intro!: drop_allocation_balanced)
  then show ?thesis
    using assms(1) start_program_provider [OF q start]
    by (auto simp: vms_ok_def s' insert_vm_def Let_def split: option.split)
qed

lemma remove_and_stop_frame:
  "ss_running_tasks (snd (remove_and_stop E h s)) = ss_running_tasks s"
  "ss_task_queue (snd (remove_and_stop E h s)) = ss_task_queue s"
  "ss_pending_programs (snd (remove_and_stop E h s)) = ss_pending_programs s"
  "ss_mempool (snd (remove_and_stop E h s)) = ss_mempool s"
  "ss_channel (snd (remove_and_stop E h s)) = ss_channel s"
  "ss_disk (snd (remove_and_stop E h s)) = ss_disk s"
  "ss_health (snd (remove_and_stop E h s)) = ss_health s"
  by (auto simp: remove_and_stop_def sched_stop_def split: option.split prod.split)

lemma remove_and_stop_ok:
  assumes "vms_ok t (ss_running_vms s) (ss_program_manager s)"
  shows "vms_ok t (ss_running_vms (snd (remove_and_stop E h s)))
           (ss_program_manager (snd (remove_and_stop E h s)))"
    and "\<And>m. fst (remove_and_stop E h s) \<noteq> Panicked m"
    and "hm_get (ss_running_vms (snd (remove_and_stop E h s))) h' =
         (if h' = h then None else hm_get (ss_running_vms s) h')"
proof -
  let ?V = "ss_running_vms s" and ?m = "ss_program_manager s"
  have V: "hm_ok ?V" and q: "qemu_ok (pmg_provider ?m)"
    and bal: "rm_balanced t (allocations ?V) (pmg_resources ?m)"
    and runs: "\<And>h ph. hm_get ?V h = Some ph \<Longrightarrow> runs_for (pmg_provider ?m) h ph"
    using assms by (auto simp: vms_ok_def)
  show "hm_get (ss_running_vms (snd (remove_and_stop E h s))) h' =
         (if h' = h then None else hm_get (ss_running_vms s) h')"
    by (auto simp: remove_and_stop_def sched_stop_def split: option.split prod.split)
  show "\<And>m. fst (remove_and_stop E h s) \<noteq> Panicked m"
    using runs [of h] stop_program_provider(3) [OF q, of h]
    by (auto simp: remove_and_stop_def sched_stop_def split: option.split prod.split)
      (metis fst_conv outcome.distinct(5) outcome.distinct(3) option.exhaust option.simps(4,5)
        obind.simps(1,2))
  show "vms_ok t (ss_running_vms (snd (remove_and_stop E h s)))
           (ss_program_manager (snd (remove_and_stop E h s)))"
  proof (cases "hm_get ?V h")
    case (Some ph)
    let ?e = "se_kill_error E (vh_vm_id (ph_vm_handle ph))"
    have "rm_balanced t (allocations (hm_remove h ?V)) (pmg_resources (snd (stop_program ?e ph ?m)))"
      using bal by (intro stop_program_balanced) (simp add: allocations_remove [OF V Some])
    moreover have "runs_for (pmg_provider (snd (stop_program ?e ph ?m))) h' ph'"
      if "hm_get (hm_remove h ?V) h' = Some ph'" for h' ph'
      using that runs [OF Some] runs stop_program_provider(2) [OF q, of h ph h' ph' ?e]
      by (auto split: if_splits)
    ultimately show ?thesis
      using V stop_program_provider(1) [OF q, of ?e ph]
      by (auto simp: vms_ok_def remove_and_stop_def Some sched_stop_def split: prod.split)
  qed (use assms in \<open>simp add: remove_and_stop_def\<close>)
qed

section \<open>Every operation keeps the invariant\<close>

lemma tasks_ok_remove [intro]: "tasks_ok T Q \<Longrightarrow> tasks_ok (hm_remove h T) Q"
  by (auto simp: tasks_ok_def split: if_splits)

lemma tasks_ok_drop_queue [intro]: "tasks_ok T Q \<Longrightarrow> tasks_ok T (hm_remove h Q)"
  by (auto simp: tasks_ok_def split: if_splits)

lemma remove_and_stop_scheduler_ok:
  "scheduler_ok t s \<Longrightarrow> scheduler_ok t (snd (remove_and_stop E h s))"
  by (simp add: scheduler_ok_def remove_and_stop_ok(1) remove_and_stop_frame)

lemma scheduler_ok_forget_task:
  "scheduler_ok t s \<Longrightarrow> scheduler_ok t (s\<lparr> ss_running_tasks := hm_remove h (ss_running_tasks s) \<rparr>)"
  by (auto simp: scheduler_ok_def)

lemma remove_and_stop_no_panic:
  "scheduler_ok t s \<Longrightarrow> \<forall>m. fst (remove_and_stop E h s) \<noteq> Panicked m"
  unfolding scheduler_ok_def by (intro allI remove_and_stop_ok(2)) blast

lemma reap_tasks_ok:
  assumes "scheduler_ok t s"
  shows "scheduler_ok t (snd (reap_tasks E hs s)) \<and> fst (reap_tasks E hs s) = Done ()"
  using assms
proof (induction hs arbitrary: s)
  case (Cons h hs)
  obtain r s1 where step: "remove_and_stop E h s = (r, s1)" by (rule prod.exhaust)
  have "scheduler_ok t s1"
    using remove_and_stop_scheduler_ok [OF Cons.prems, of E h] by (simp add: step)
  then show ?case
    using Cons.IH [OF scheduler_ok_forget_task] remove_and_stop_no_panic [OF Cons.prems, of E h]
    by (cases r) (simp_all add: step)
qed simp

lemma reap_idle_ok:
  assumes "scheduler_ok t s"
  shows "scheduler_ok t (snd (reap_idle E hs s)) \<and> fst (reap_idle E hs s) = Done ()"
  using assms
proof (induction hs arbitrary: s)
  case (Cons h hs)
  obtain r s1 where step: "remove_and_stop E h s = (r, s1)" by (rule prod.exhaust)
  have "scheduler_ok t s1"
    using remove_and_stop_scheduler_ok [OF Cons.prems, of E h] by (simp add: step)
  then show ?case
    using Cons.IH remove_and_stop_no_panic [OF Cons.prems, of E h]
    by (cases r) (simp_all add: step)
qed simp

lemma reap_zombies_ok:
  assumes "scheduler_ok t s"
  shows "scheduler_ok t (snd (reap_zombies E s)) \<and> fst (reap_zombies E s) = Done ()"
proof -
  let ?zs = "rev (map (\<lambda>t. task_tx (rt_task t)) (filter (is_zombie E s) (map snd (ss_running_tasks s))))"
  obtain s1 where "reap_tasks E ?zs s = (Done (), s1)" and "scheduler_ok t s1"
    using reap_tasks_ok [OF assms, of E ?zs] by (cases "reap_tasks E ?zs s") auto
  then show ?thesis using reap_idle_ok [of t s1 E] by (simp add: reap_zombies_def)
qed

lemma sched_start_fields:
  "sched_start E h p s = Some (r, s') \<Longrightarrow> \<exists>m. s' = s\<lparr> ss_program_manager := m \<rparr>"
  by (auto simp: sched_start_def split: option.splits)

lemma sched_start_ok:
  assumes "scheduler_ok t s" and "sched_start E h p s = Some (r, s')"
  shows "case r of Done ph \<Rightarrow> scheduler_ok t (insert_vm h ph s') | _ \<Rightarrow> scheduler_ok t s'"
proof (cases r)
  case (Done ph)
  then show ?thesis
    using assms vms_ok_insert [of t s E h p ph s'] sched_start_fields [OF assms(2)]
    by (auto simp: scheduler_ok_def insert_vm_def Let_def)
qed (use assms in \<open>auto simp: scheduler_ok_def sched_start_def split: option.splits
       intro: vms_ok_start\<close>)

lemma scheduler_ok_simps [simp]:
  "scheduler_ok t (s\<lparr> ss_pending_programs := x \<rparr>) = scheduler_ok t s"
  "scheduler_ok t (s\<lparr> ss_mempool := mp \<rparr>) = scheduler_ok t s"
  "scheduler_ok t (s\<lparr> ss_disk := d \<rparr>) = scheduler_ok t s"
  "scheduler_ok t (s\<lparr> ss_channel := ch \<rparr>) = scheduler_ok t s"
  "scheduler_ok t (requeue h p s) = scheduler_ok t s"
  "scheduler_ok t (set_storage st s) = scheduler_ok t s"
  "scheduler_ok t (health_send E hs s) = scheduler_ok t s"
  by (simp_all add: scheduler_ok_def requeue_def set_storage_def health_send_def)

lemma start_pending_ok:
  assumes "scheduler_ok t s" and "start_pending E ps s = Some (r, s')"
  shows "scheduler_ok t s'"
  using assms
proof (induction ps arbitrary: s)
  case (Cons hp ps)
  obtain h p where hp: "hp = (h, p)" by (cases hp)
  let ?s = "s\<lparr> ss_pending_programs := tl (ss_pending_programs s) \<rparr>"
  obtain x s1 where start: "sched_start E h p ?s = Some (x, s1)"
    using Cons.prems(2) by (cases "sched_start E h p ?s") (auto simp: hp)
  have "scheduler_ok t ?s" using Cons.prems(1) by simp
  note ok = sched_start_ok [OF this start]
  show ?case
    using Cons.prems(2) ok Cons.IH by (cases x) (auto simp: hp start)
qed simp

lemma copy_task_files_ok: "scheduler_ok t (copy_task_files E k s) = scheduler_ok t s"
proof -
  have "scheduler_ok t (fold (copy_task_file E h) fs s) = scheduler_ok t s" for h fs
    by (induction fs arbitrary: s) (simp_all add: copy_task_file_def split: sum.split)
  then show ?thesis by (simp add: copy_task_files_def)
qed

lemma enqueue_task_ok: "scheduler_ok t s \<Longrightarrow> scheduler_ok t (enqueue_task now k s)"
  by (auto simp: scheduler_ok_def tasks_ok_def enqueue_task_def split: option.splits if_splits)

lemma scheduler_ok_drop_queue:
  "scheduler_ok t s \<Longrightarrow> scheduler_ok t (s\<lparr> ss_task_queue := hm_remove h (ss_task_queue s) \<rparr>)"
  by (auto simp: scheduler_ok_def)

lemma start_task_ok:
  assumes "scheduler_ok t s" and "start_task E k s = Some (r, s')"
  shows "scheduler_ok t s'"
proof -
  obtain x s1 where start: "sched_start E (task_tx k) (task_program_id k) s = Some (x, s1)"
    using assms(2) by (auto simp: start_task_def split: option.splits)
  note ok = sched_start_ok [OF assms(1) start]
  show ?thesis
  proof (cases x)
    case (Failed e)
    then show ?thesis
      using assms(2) ok scheduler_ok_drop_queue [of t s1 "task_tx k"]
      by (auto simp: start_task_def start Let_def split: start_error.splits)
  qed (use assms(2) ok in \<open>auto simp: start_task_def start\<close>)
qed

lemma pick_task_ok:
  "pick_task E s = Some (r, s') \<Longrightarrow> scheduler_ok t s' = scheduler_ok t s"
  by (auto simp: pick_task_def Let_def split: prod.splits option.splits)

lemma schedule_task_ok:
  assumes "scheduler_ok t s" and "schedule_task E s = Some (r, s')"
  shows "scheduler_ok t s'"
proof -
  obtain x s1 where pick: "pick_task E (health_send E SchedulerLoopOk s) = Some (x, s1)"
    using assms(2) by (auto simp: schedule_task_def split: option.splits)
  have ok: "scheduler_ok t s1" using pick_task_ok [OF pick, of t] assms(1) by simp
  show ?thesis
    using assms(2) ok
    by (auto simp: schedule_task_def pick copy_task_files_ok enqueue_task_ok
        split: outcome.splits prod.splits option.splits elim!: start_task_ok [rotated])
qed

lemma run_iteration_ok:
  assumes "scheduler_ok t s" and "run_iteration E s = Some (r, s')"
  shows "scheduler_ok t s'"
proof -
  obtain s1 where reap: "reap_zombies E s = (Done (), s1)" and ok: "scheduler_ok t s1"
    using reap_zombies_ok [OF assms(1), of E] by (cases "reap_zombies E s") auto
  obtain x s2 where pending: "start_pending E (ss_pending_programs s1) s1 = Some (x, s2)"
    using assms(2) by (auto simp: run_iteration_def reap split: option.splits)
  note ok2 = start_pending_ok [OF ok pending]
  show ?thesis
    using assms(2) ok2 schedule_task_ok [OF ok2]
    by (auto simp: run_iteration_def reap pending split: outcome.splits bool.splits)
qed

lemma get_pending_task_ok:
  assumes "scheduler_ok t s"
  shows "scheduler_ok t (snd (get_pending_task E h s))"
proof (cases "hm_get (ss_running_tasks s) h")
  case (Some rt)
  then show ?thesis
    using remove_and_stop_scheduler_ok [OF assms, of E h]
    by (auto simp: get_pending_task_def split: prod.splits outcome.splits)
next
  case None
  then show ?thesis
    using assms by (auto simp: get_pending_task_def scheduler_ok_def tasks_ok_def
        split: option.splits list.splits if_splits)
qed

lemma send_result_ok [simp]: "scheduler_ok t (snd (send_result E tx s)) = scheduler_ok t s"
  by (auto simp: send_result_def split: prod.split sum.split)

lemma submit_task_result_ok:
  "scheduler_ok t s \<Longrightarrow> scheduler_ok t (snd (submit_task_result E h program rt res s))"
  by (auto simp: submit_task_result_def split: prod.split outcome.split)

lemma submit_result_ok:
  assumes "scheduler_ok t s"
  shows "scheduler_ok t (snd (submit_result E h program result s))"
proof (cases "hm_get (ss_running_tasks s) h")
  case (Some rt)
  let ?s1 = "s\<lparr> ss_running_tasks := hm_remove h (ss_running_tasks s) \<rparr>"
  let ?s2 = "set_storage (snd (ts_mark (se_store E) (task_tx (rt_task rt)) (storage_of ?s1))) ?s1"
  obtain r s3 where step: "(case result of ResultTask res \<Rightarrow> submit_task_result E h program rt res ?s2
      | ResultError e \<Rightarrow> (Done (), ?s2)) = (r, s3)" by (rule prod.exhaust)
  have "scheduler_ok t ?s2" using scheduler_ok_forget_task [OF assms] by simp
  then have ok: "scheduler_ok t s3"
    using step submit_task_result_ok [of t ?s2 E h program rt]
    by (cases result) (auto, metis snd_conv)
  show ?thesis
    using ok remove_and_stop_scheduler_ok [OF ok, of E h]
    by (cases r) (auto simp: submit_result_def Let_def Some step split: prod.split)
qed (simp add: submit_result_def assms)

section \<open>Interleavings\<close>

text \<open>
  The operations in any order, each in its own environment, together with the changes that the
  validation loop, the downloads and the other senders make to the mempool, the disk and the channel
  in between.
\<close>

inductive sched_step :: "'s scheduler \<Rightarrow> 's scheduler \<Rightarrow> bool" where
  iteration: "run_iteration E s = Some (r, s') \<Longrightarrow> sched_step s s'"
| asked: "get_pending_task E h s = (r, s') \<Longrightarrow> sched_step s s'"
| submitted: "submit_result E h p res s = (r, s') \<Longrightarrow> sched_step s s'"
| outside: "sched_step s (s\<lparr> ss_mempool := mp, ss_disk := d, ss_channel := ch \<rparr>)"

lemma sched_step_ok: "sched_step s s' \<Longrightarrow> scheduler_ok t s \<Longrightarrow> scheduler_ok t s'"
proof (induction rule: sched_step.induct)
  case (asked E h s r s')
  then show ?case using get_pending_task_ok [of t s E h] by simp
next
  case (submitted E h p res s r s')
  then show ?case using submit_result_ok [of t s E h p res] by simp
qed (auto intro: run_iteration_ok)

lemma sched_steps_ok: "sched_step\<^sup>*\<^sup>* s s' \<Longrightarrow> scheduler_ok t s \<Longrightarrow> scheduler_ok t s'"
  by (induction rule: rtranclp_induct) (auto intro: sched_step_ok)

lemma scheduler_ok_new:
  "scheduler_ok (tm, tc, tg)
     (scheduler_new mp (program_manager_new qemu_new (resource_manager_new g tm tc tg)) d ch)"
  by (simp add: scheduler_ok_def scheduler_new_def program_manager_new_def vms_ok_def tasks_ok_def
      qemu_ok_new allocations_def hm.entries_empty rm_balanced_new)

text \<open>What the invariant says about the resources, as sums over the table of machines.\<close>

lemma scheduler_ok_sums:
  assumes "scheduler_ok (tm, tc, tg) s"
  shows "unat (available_mem (pmg_resources (ss_program_manager s))) +
           (\<Sum>(h, ph)\<in>#mset (ss_running_vms s). unat (al_mem (ph_allocation ph))) = unat tm"
    and "unat (available_cpus (pmg_resources (ss_program_manager s))) +
           (\<Sum>(h, ph)\<in>#mset (ss_running_vms s). unat (al_cpus (ph_allocation ph))) = unat tc"
    and "unat (available_gpus (pmg_resources (ss_program_manager s))) +
           (\<Sum>(h, ph)\<in>#mset (ss_running_vms s). unat (al_gpus (ph_allocation ph))) = unat tg"
proof -
  have "rm_balanced (tm, tc, tg) (allocations (ss_running_vms s)) (pmg_resources (ss_program_manager s))"
    using assms by (simp add: scheduler_ok_def vms_ok_def)
  note sums = this [unfolded rm_balanced_def balanced1_def allocations_def image_mset.compositionality comp_def
      case_prod_unfold, simplified]
  show "unat (available_mem (pmg_resources (ss_program_manager s))) +
      (\<Sum>(h, ph)\<in>#mset (ss_running_vms s). unat (al_mem (ph_allocation ph))) = unat tm"
    "unat (available_cpus (pmg_resources (ss_program_manager s))) +
      (\<Sum>(h, ph)\<in>#mset (ss_running_vms s). unat (al_cpus (ph_allocation ph))) = unat tc"
    "unat (available_gpus (pmg_resources (ss_program_manager s))) +
      (\<Sum>(h, ph)\<in>#mset (ss_running_vms s). unat (al_gpus (ph_allocation ph))) = unat tg"
    using sums by (simp_all add: case_prod_unfold)
qed

section \<open>Properties\<close>

text \<open>
  C4: In every state that a freshly started scheduler can reach, whatever the order of its own
  iterations, of the requests of the machines and of the changes around it, the resources that are
  available and those of the machines in its table add up to the configured total, for memory, CPUs
  and GPUs, as numbers without wrap-around. Failed starts, replaced handles and machines that could
  not be killed all give their share back.
\<close>

theorem scheduler_conserves_resources:
  assumes "sched_step\<^sup>*\<^sup>*
      (scheduler_new mp (program_manager_new qemu_new (resource_manager_new g tm tc tg)) d ch) s"
  shows "unat (available_mem (pmg_resources (ss_program_manager s))) +
           (\<Sum>(h, ph)\<in>#mset (ss_running_vms s). unat (al_mem (ph_allocation ph))) = unat tm \<and>
         unat (available_cpus (pmg_resources (ss_program_manager s))) +
           (\<Sum>(h, ph)\<in>#mset (ss_running_vms s). unat (al_cpus (ph_allocation ph))) = unat tc \<and>
         unat (available_gpus (pmg_resources (ss_program_manager s))) +
           (\<Sum>(h, ph)\<in>#mset (ss_running_vms s). unat (al_gpus (ph_allocation ph))) = unat tg"
  using scheduler_ok_sums [OF sched_steps_ok [OF assms scheduler_ok_new]] by blast

definition sample_env :: "nat \<Rightarrow> (hash \<times> validated transaction) list sched_env" where
  "sample_env now =
     \<lparr> se_crates = sample_crates, se_store = sample_store,
       se_find_program = (\<lambda>_ _. Inr (Some sample_program)), se_node_key = SecretKey 4,
       se_data_directory = ''/data'', se_http_download_host = ''http://h'', se_now = now,
       se_is_alive = (\<lambda>_. Inr True), se_vm = (\<lambda>_. sample_world), se_kill_error = (\<lambda>_. None),
       se_io = (\<lambda>_. None), se_uid = ''id'', se_health_open = True, se_callback = 0,
       se_answer = Some (Inr ()) \<rparr>"

definition sample_tx :: "validated transaction" where
  "sample_tx = snd (sample_vtx (sample_run 1 [11, 12]))"

definition sample_task :: task where
  "sample_task =
     \<lparr> task_uid = ''id'', task_tx = sample_hash 1,
       task_name = ''id-'' @ hash_display sample_crates (sample_hash 11), task_kind_of = KindProof,
       task_program_id = sample_hash 11, task_args = [], task_files = [], task_serial = 0,
       task_state_of = StateNew \<rparr>"

definition sample_scheduler :: "(hash \<times> validated transaction) list scheduler" where
  "sample_scheduler =
     scheduler_new \<lparr> mp_storage = [(sample_hash 1, sample_tx)], mp_deque = [sample_tx] \<rparr>
       (program_manager_new qemu_new (resource_manager_new zero_gauges 8192 8 0)) []
       \<lparr> ch_open = True, ch_queue = [] \<rparr>"

lemma sample_next_task:
  "next_task sample_crates sample_store ''id'' sample_tx [(sample_hash 1, sample_tx)]
   = Some (Done (Some sample_task), [(sample_hash 1, sample_tx)])"
proof -
  let ?step = "\<lambda>b. \<lparr> ws_program = sample_hash b, ws_args = [], ws_inputs = [] \<rparr>"
  have h: "tx_hash sample_tx = sample_hash 1"
    and p: "tx_payload sample_tx = Run \<lparr> steps = [?step 11, ?step 12] \<rparr>"
    by (simp_all add: sample_tx_def sample_vtx_def sample_run_def)
  have "leads_to (ts_find sample_store [(sample_hash 1, sample_tx)]) (sample_hash 1)
      \<lparr> steps = [?step 11, ?step 12] \<rparr>"
    by (rule leads_to.at_run [where tx = sample_tx]) (simp_all add: sample_store_def p)
  from leads_to_finds [OF this] show ?thesis
    by (simp add: next_task_def h p workflow_step_to_task_def sample_task_def of_sum_def)
qed

lemma sample_fields [simp]:
  "task_tx sample_task = sample_hash 1" "task_program_id sample_task = sample_hash 11"
  "task_files sample_task = []" "task_kind_of sample_task = KindProof" "se_now (sample_env now) = now"
  "prg_limits sample_program = None"
  by (simp_all add: sample_task_def sample_env_def sample_program_def)

lemma sample_start:
  "start_vm sample_world h sample_program req qemu_new =
     Some (Done \<lparr> vh_start_time = 5, vh_vm_id = 4 \<rparr>,
       \<lparr> next_cid = 5, cid_allocations = {4},
         vm_registry = [(4, \<lparr> qh_child = True, qh_cid = 4, qh_tx_hash = h,
           qh_program_id = sample_hash 1, qh_workspace_volume_label = ''label'' \<rparr>)] \<rparr>)"
  by (simp add: start_eval hmap_eval)

lemma sample_sched_start:
  assumes "ss_program_manager s =
      program_manager_new qemu_new (resource_manager_new zero_gauges 8192 8 0)"
  shows "\<exists>ph m. sched_start (sample_env now) h p s = Some (Done ph, s\<lparr> ss_program_manager := m \<rparr>)"
  by (simp add: assms sched_start_def start_program_def sample_env_def program_manager_new_def
      sample_start try_allocate_def resource_manager_new_def resource_request_default_def)
    (rule exI, rule refl)

lemma sample_iteration:
  "\<exists>s. run_iteration (sample_env 9) sample_scheduler = Some (Done (), s) \<and>
       hm_get (ss_running_vms s) (sample_hash 1) \<noteq> None \<and>
       hm_get (ss_task_queue s) (sample_hash 1) = Some [(sample_task, 9)] \<and>
       ss_running_tasks s = hm_empty \<and> ss_channel s = \<lparr> ch_open = True, ch_queue = [] \<rparr>"
proof -
  let ?s = "enqueue_task 9 sample_task (health_send (sample_env 9) (SchedulerMempoolLen 0)
     (health_send (sample_env 9) SchedulerLoopOk sample_scheduler
        \<lparr> ss_mempool := \<lparr> mp_storage = [(sample_hash 1, sample_tx)], mp_deque = [] \<rparr> \<rparr>))"
  have "ss_program_manager ?s = program_manager_new qemu_new (resource_manager_new zero_gauges 8192 8 0)"
    by (simp add: enqueue_task_def health_send_def sample_scheduler_def scheduler_new_def)
  then obtain ph m where start: "sched_start (sample_env 9) (sample_hash 1) (sample_hash 11) ?s
      = Some (Done ph, ?s\<lparr> ss_program_manager := m \<rparr>)"
    using sample_sched_start by blast
  have pick: "pick_task (sample_env 9) (health_send (sample_env 9) SchedulerLoopOk sample_scheduler)
     = Some (Done (Some sample_task, 0), health_send (sample_env 9) SchedulerLoopOk sample_scheduler
        \<lparr> ss_mempool := \<lparr> mp_storage = [(sample_hash 1, sample_tx)], mp_deque = [] \<rparr> \<rparr>)"
    by (simp add: pick_task_def mempool_next_def mempool_size_def health_send_def sample_env_def
        sample_scheduler_def scheduler_new_def storage_of_def set_storage_def sample_next_task)
  have reap: "reap_zombies (sample_env 9) sample_scheduler = (Done (), sample_scheduler)"
    and none: "ss_pending_programs sample_scheduler = []"
    by (simp_all add: reap_zombies_def idle_vms_def sample_scheduler_def scheduler_new_def hm_empty_def)
  have "hm_get (ss_task_queue ?s) (sample_hash 1) = Some [(sample_task, 9)] \<and>
      ss_running_tasks ?s = hm_empty \<and> ss_channel ?s = \<lparr> ch_open = True, ch_queue = [] \<rparr>"
    by (simp add: enqueue_task_def sample_task_def health_send_def sample_scheduler_def
        scheduler_new_def)
  moreover have "run_iteration (sample_env 9) sample_scheduler =
      Some (Done (), insert_vm (sample_hash 1) ph (?s\<lparr> ss_program_manager := m \<rparr>))"
    using start by (simp add: run_iteration_def reap none schedule_task_def pick start_task_def
        copy_task_files_def)
  ultimately show ?thesis by (simp add: insert_vm_def Let_def)
qed

theorem scheduler_conserves_resources_witness:
  "\<exists>s. run_iteration (sample_env 9) sample_scheduler = Some (Done (), s) \<and>
       hm_get (ss_running_vms s) (sample_hash 1) \<noteq> None \<and>
       unat (available_mem (pmg_resources (ss_program_manager s))) +
         (\<Sum>(h, ph)\<in>#mset (ss_running_vms s). unat (al_mem (ph_allocation ph))) = 8192"
proof -
  obtain s where run: "run_iteration (sample_env 9) sample_scheduler = Some (Done (), s)"
    and vm: "hm_get (ss_running_vms s) (sample_hash 1) \<noteq> None"
    using sample_iteration by blast
  have "sched_step\<^sup>*\<^sup>* sample_scheduler s" by (rule r_into_rtranclp) (rule sched_step.iteration [OF run])
  from scheduler_conserves_resources [OF this [unfolded sample_scheduler_def]] run vm
  show ?thesis by auto
qed

text \<open>
  C36: The scheduler never runs into the unfinished error path of the machine provider: in a reachable
  state reaping always completes, and asking for a task and submitting an error never panic, because
  every machine in the table is known to the provider.
\<close>

theorem stopping_never_panics:
  assumes "sched_step\<^sup>*\<^sup>*
      (scheduler_new mp (program_manager_new qemu_new (resource_manager_new g tm tc tg)) d ch) s"
  shows "fst (reap_zombies E s) = Done () \<and>
         (\<forall>m. fst (get_pending_task E h s) \<noteq> Panicked m) \<and>
         (\<forall>m. fst (submit_result E h p (ResultError e) s) \<noteq> Panicked m)"
proof -
  have ok: "scheduler_ok (tm, tc, tg) s" by (rule sched_steps_ok [OF assms scheduler_ok_new])
  have "fst (get_pending_task E h s) \<noteq> Panicked m" for m
    using remove_and_stop_no_panic [OF ok, of E h]
    by (auto simp: get_pending_task_def split: option.splits list.splits prod.splits outcome.splits)
  moreover have "fst (submit_result E h p (ResultError e) s) \<noteq> Panicked m" for m
  proof (cases "hm_get (ss_running_tasks s) h")
    case (Some rt)
    let ?s1 = "s\<lparr> ss_running_tasks := hm_remove h (ss_running_tasks s) \<rparr>"
    let ?s2 = "set_storage (snd (ts_mark (se_store E) (task_tx (rt_task rt)) (storage_of ?s1))) ?s1"
    have "scheduler_ok (tm, tc, tg) ?s2" using scheduler_ok_forget_task [OF ok] by simp
    from remove_and_stop_no_panic [OF this, of E h] show ?thesis
      by (cases "fst (remove_and_stop E h ?s2)")
        (auto simp: submit_result_def Some Let_def split: prod.splits)
  qed (simp add: submit_result_def)
  ultimately show ?thesis using reap_zombies_ok [OF ok] by blast
qed

theorem stopping_never_panics_witness:
  "\<exists>s. run_iteration (sample_env 9) sample_scheduler = Some (Done (), s) \<and>
       fst (reap_zombies (sample_env 99) s) = Done ()"
proof -
  obtain s where run: "run_iteration (sample_env 9) sample_scheduler = Some (Done (), s)"
    using sample_iteration by blast
  have "sched_step\<^sup>*\<^sup>* sample_scheduler s" by (rule r_into_rtranclp) (rule sched_step.iteration [OF run])
  from stopping_never_panics [OF this [unfolded sample_scheduler_def]] run show ?thesis by blast
qed

text \<open>
  A machine is only ever given the task of the transaction it was started for, the oldest one in
  the queue, and only while it runs none; the task then counts as running.
\<close>

theorem machine_gets_its_own_task:
  assumes "sched_step\<^sup>*\<^sup>*
      (scheduler_new mp (program_manager_new qemu_new (resource_manager_new g tm tc tg)) d ch) s"
    and "get_pending_task E h s = (Done (Some k), s')"
  shows "task_tx k = h \<and> get_running_task h s = None \<and> get_running_task h s' = Some k \<and>
         (\<exists>since q. hm_get (ss_task_queue s) h = Some ((k, since) # q) \<and>
            hm_get (ss_task_queue s') h = Some q)"
proof -
  have ok: "tasks_ok (ss_running_tasks s) (ss_task_queue s)"
    using sched_steps_ok [OF assms(1) scheduler_ok_new] by (simp add: scheduler_ok_def)
  obtain since q where Q: "hm_get (ss_task_queue s) h = Some ((k, since) # q)"
    and T: "hm_get (ss_running_tasks s) h = None"
    and s': "s' = s\<lparr> ss_task_queue := hm_insert h q (ss_task_queue s),
                   ss_running_tasks := hm_insert (task_tx k)
                     \<lparr> rt_task = k, rt_scheduled = since, rt_started = se_now E \<rparr>
                     (ss_running_tasks s) \<rparr>"
    using assms(2) by (auto simp: get_pending_task_def split: option.splits list.splits prod.splits
        outcome.splits)
  have "task_tx k = h" using ok Q by (fastforce simp: tasks_ok_def)
  then show ?thesis by (simp add: Q T s' get_running_task_def)
qed

theorem machine_gets_its_own_task_witness:
  "\<exists>s k s'. run_iteration (sample_env 9) sample_scheduler = Some (Done (), s) \<and>
       get_pending_task (sample_env 10) (sample_hash 1) s = (Done (Some k), s') \<and>
       task_tx k = sample_hash 1 \<and> get_running_task (sample_hash 1) s' = Some k"
proof -
  obtain s where run: "run_iteration (sample_env 9) sample_scheduler = Some (Done (), s)"
    and q: "hm_get (ss_task_queue s) (sample_hash 1) = Some [(sample_task, 9)]"
    and r: "ss_running_tasks s = hm_empty"
    using sample_iteration by blast
  have reach: "sched_step\<^sup>*\<^sup>* sample_scheduler s"
    by (rule r_into_rtranclp) (rule sched_step.iteration [OF run])
  obtain s' where get: "get_pending_task (sample_env 10) (sample_hash 1) s = (Done (Some sample_task), s')"
    by (simp add: get_pending_task_def q r)
  from machine_gets_its_own_task [OF reach [unfolded sample_scheduler_def] get] run get
  show ?thesis by blast
qed

text \<open>
  When a machine asks for a task although it still runs one, it gets none and is stopped, and
  its table entry goes. But the running task stays in its table and the transaction is not marked
  as executed, so that a result can still be submitted for it.
\<close>

theorem second_request_keeps_task:
  assumes "sched_step\<^sup>*\<^sup>*
      (scheduler_new mp (program_manager_new qemu_new (resource_manager_new g tm tc tg)) d ch) s"
    and "get_running_task h s = Some k"
  shows "\<exists>s'. get_pending_task E h s = (Done None, s') \<and> hm_get (ss_running_vms s') h = None \<and>
             get_running_task h s' = Some k \<and> storage_of s' = storage_of s \<and>
             ss_task_queue s' = ss_task_queue s"
proof -
  have ok: "scheduler_ok (tm, tc, tg) s" by (rule sched_steps_ok [OF assms(1) scheduler_ok_new])
  obtain r s1 where stop: "remove_and_stop E h s = (r, s1)" by (rule prod.exhaust)
  have "get_pending_task E h s = (Done None, s1)"
    using assms(2) remove_and_stop_no_panic [OF ok, of E h]
    by (cases r) (auto simp: get_pending_task_def get_running_task_def stop)
  moreover have "hm_get (ss_running_vms s1) h = None"
    using remove_and_stop_ok(3) [of "(tm, tc, tg)" s E h h] ok by (simp add: stop scheduler_ok_def)
  ultimately show ?thesis
    using remove_and_stop_frame [of E h s] assms(2)
    by (simp add: stop get_running_task_def storage_of_def)
qed

lemma sample_asked:
  "\<exists>s s'. run_iteration (sample_env 9) sample_scheduler = Some (Done (), s) \<and>
       get_pending_task (sample_env 10) (sample_hash 1) s = (Done (Some sample_task), s') \<and>
       hm_get (ss_running_tasks s') (sample_hash 1)
         = Some \<lparr> rt_task = sample_task, rt_scheduled = 9, rt_started = 10 \<rparr> \<and>
       ss_channel s' = \<lparr> ch_open = True, ch_queue = [] \<rparr> \<and> sched_step\<^sup>*\<^sup>* sample_scheduler s'"
proof -
  obtain s where run: "run_iteration (sample_env 9) sample_scheduler = Some (Done (), s)"
    and q: "hm_get (ss_task_queue s) (sample_hash 1) = Some [(sample_task, 9)]"
    and r: "ss_running_tasks s = hm_empty" and ch: "ss_channel s = \<lparr> ch_open = True, ch_queue = [] \<rparr>"
    using sample_iteration by blast
  obtain s' where get: "get_pending_task (sample_env 10) (sample_hash 1) s = (Done (Some sample_task), s')"
    and rt: "hm_get (ss_running_tasks s') (sample_hash 1)
        = Some \<lparr> rt_task = sample_task, rt_scheduled = 9, rt_started = 10 \<rparr>"
    and ch': "ss_channel s' = ss_channel s"
    by (simp add: get_pending_task_def q r)
  have "sched_step\<^sup>*\<^sup>* sample_scheduler s'"
    using sched_step.iteration [OF run] sched_step.asked [OF get]
    by (meson converse_rtranclp_into_rtranclp r_into_rtranclp)
  with run get rt ch ch' show ?thesis by auto
qed

theorem second_request_keeps_task_witness:
  "\<exists>s s' s''. run_iteration (sample_env 9) sample_scheduler = Some (Done (), s) \<and>
       get_pending_task (sample_env 10) (sample_hash 1) s = (Done (Some sample_task), s') \<and>
       get_pending_task (sample_env 11) (sample_hash 1) s' = (Done None, s'') \<and>
       get_running_task (sample_hash 1) s'' = Some sample_task"
proof -
  obtain s s' where run: "run_iteration (sample_env 9) sample_scheduler = Some (Done (), s)"
    and get: "get_pending_task (sample_env 10) (sample_hash 1) s = (Done (Some sample_task), s')"
    and rt: "hm_get (ss_running_tasks s') (sample_hash 1)
         = Some \<lparr> rt_task = sample_task, rt_scheduled = 9, rt_started = 10 \<rparr>"
    and reach: "sched_step\<^sup>*\<^sup>* sample_scheduler s'"
    using sample_asked by blast
  have "get_running_task (sample_hash 1) s' = Some sample_task"
    by (simp add: get_running_task_def rt)
  from second_request_keeps_task [OF reach [unfolded sample_scheduler_def] this, of "sample_env 11"]
    run get show ?thesis by blast
qed

lemma executed_files_names:
  "executed_files host h fs = Done xs \<Longrightarrow> map (tf_name \<circ> snd) xs = map gf_path fs"
  by (induction fs arbitrary: xs)
    (auto simp: outcome_simps tx_file_new_def tx_file_build_def)

lemma submit_task_result_sends:
  assumes "ecdsa_ok (se_crates E)" and "bincode_ok (se_crates E)" and "sha3_len_ok (se_crates E)"
    and "submit_task_result E h program rt res s = (Done (), s')"
  shows "\<exists>tx files. ss_channel s' = (ss_channel s)\<lparr> ch_queue :=
             ch_queue (ss_channel s) @ [(into_received tx TXRESULT, Some (se_callback E))] \<rparr> \<and>
           result_payload rt program (gr_data res) files = Done (tx_payload tx) \<and>
           map tf_name files = map gf_path (gr_files res) \<and>
           transaction_validate (se_crates E) (into_received tx TXRESULT) = Done () \<and>
           ss_running_tasks s' = ss_running_tasks s \<and> storage_of s' = storage_of s"
proof -
  let ?c = "se_crates E"
  obtain fs p tx where fs: "executed_files (se_http_download_host E) h (gr_files res) = Done fs"
    and p: "result_payload rt program (gr_data res) (map snd fs) = Done p"
    and tx: "transaction_new ?c p (se_node_key E) = Done tx"
    and send: "\<exists>d. send_result E tx (s\<lparr> ss_disk := d \<rparr>) = (Done (), s')"
    using assms(4) by (auto simp: submit_task_result_def outcome_simps split: outcome.splits prod.splits)
  have "get_run_programs_dep p = []"
    using p by (auto simp: result_payload_def split: task_kind.splits)
  then have "tx_payload tx = p" "transaction_validate ?c (into_received tx TXRESULT) = Done ()"
    using new_transaction_ok [OF assms(1-3), of p "se_node_key E" TXRESULT] tx by auto
  moreover have "ss_channel s' = (ss_channel s)\<lparr> ch_queue :=
       ch_queue (ss_channel s) @ [(into_received tx TXRESULT, Some (se_callback E))] \<rparr> \<and>
       ss_running_tasks s' = ss_running_tasks s \<and> storage_of s' = storage_of s"
    using send by (auto simp: send_result_def result_send_tx_def channel_send_def storage_of_def
        split: if_splits sum.splits)
  ultimately show ?thesis
    using p executed_files_names [OF fs] by (metis list.map_comp)
qed

text \<open>
  C5: A result that is accepted ends the life of its task in one piece. Exactly one transaction goes to
  the validation loop, with the result of the machine under the transaction of the task and the files
  that the machine named, and it is one that validation accepts; the transaction of the task is marked
  as executed; the task and the machine are gone from their tables.
\<close>

theorem accepted_result_becomes_transaction:
  assumes "ecdsa_ok (se_crates E)" and "bincode_ok (se_crates E)" and "sha3_len_ok (se_crates E)"
    and "hm_get (ss_running_tasks s) h = Some rt"
    and "submit_result E h program (ResultTask res) s = (Done (), s')"
  shows "\<exists>tx files. ch_queue (ss_channel s') =
             ch_queue (ss_channel s) @ [(into_received tx TXRESULT, Some (se_callback E))] \<and>
           tx_payload tx \<in> {Proof (task_tx (rt_task rt)) program (gr_data res) files,
                            Verification (task_tx (rt_task rt)) program (gr_data res) files} \<and>
           map tf_name files = map gf_path (gr_files res) \<and>
           transaction_validate (se_crates E) (into_received tx TXRESULT) = Done () \<and>
           storage_of s' = snd (ts_mark (se_store E) (task_tx (rt_task rt)) (storage_of s)) \<and>
           get_running_task h s' = None \<and> hm_get (ss_running_vms s') h = None"
proof -
  let ?s1 = "s\<lparr> ss_running_tasks := hm_remove h (ss_running_tasks s) \<rparr>"
  let ?s2 = "set_storage (snd (ts_mark (se_store E) (task_tx (rt_task rt)) (storage_of ?s1))) ?s1"
  obtain s3 r where sub: "submit_task_result E h program rt res ?s2 = (Done (), s3)"
    and stop: "remove_and_stop E h s3 = (r, s')"
    using assms(5) by (auto simp: submit_result_def assms(4) Let_def split: prod.splits outcome.splits)
  have "result_payload rt program (gr_data res) files = Done p \<Longrightarrow>
      p \<in> {Proof (task_tx (rt_task rt)) program (gr_data res) files,
           Verification (task_tx (rt_task rt)) program (gr_data res) files}" for p files
    by (auto simp: result_payload_def split: task_kind.splits)
  moreover have "hm_get (ss_running_vms s') h = None"
    using stop by (auto simp: remove_and_stop_def sched_stop_def split: option.splits prod.splits)
  ultimately show ?thesis
    using submit_task_result_sends [OF assms(1-3) sub] remove_and_stop_frame [of E h s3]
    by (fastforce simp: stop get_running_task_def storage_of_def set_storage_def)
qed

lemma remove_and_stop_Done:
  assumes "scheduler_ok t s" and "se_kill_error E = (\<lambda>_. None)"
  shows "\<exists>b s'. remove_and_stop E h s = (Done b, s')"
proof (cases "hm_get (ss_running_vms s) h")
  case (Some ph)
  have "runs_for (pmg_provider (ss_program_manager s)) h ph"
    and "qemu_ok (pmg_provider (ss_program_manager s))"
    using assms(1) Some by (auto simp: scheduler_ok_def vms_ok_def)
  then show ?thesis
    using stop_program_provider(3) [of "ss_program_manager s" h ph None]
    by (auto simp: remove_and_stop_def Some sched_stop_def assms(2) split: prod.split)
qed (auto simp: remove_and_stop_def)

definition sample_result :: grpc_task_result where
  "sample_result = \<lparr> gr_data = [7], gr_files = [] \<rparr>"

lemma sample_submit:
  assumes "scheduler_ok t s" and "ch_open (ss_channel s)" and "rt_task rt = sample_task"
    and "hm_get (ss_running_tasks s) (sample_hash 1) = Some rt"
  shows "\<exists>s'. submit_result (sample_env now) (sample_hash 1) (sample_hash 11)
      (ResultTask sample_result) s = (Done (), s')"
proof -
  let ?E = "sample_env now"
  let ?s1 = "s\<lparr> ss_running_tasks := hm_remove (sample_hash 1) (ss_running_tasks s) \<rparr>"
  let ?s2 = "set_storage (snd (ts_mark (se_store ?E) (sample_hash 1) (storage_of ?s1))) ?s1"
  obtain tx where "transaction_new sample_crates (Proof (sample_hash 1) (sample_hash 11) [7] [])
      (SecretKey 4) = Done tx"
    using new_transaction_ok [of sample_crates "Proof (sample_hash 1) (sample_hash 11) [7] []"
        "SecretKey 4" TXRESULT] by auto
  then obtain s3 where sub: "submit_task_result ?E (sample_hash 1) (sample_hash 11) rt sample_result ?s2
      = (Done (), s3)"
    using assms(2,3) by (simp add: submit_task_result_def result_payload_def sample_env_def
        send_result_def result_send_tx_def channel_send_def await_callback_def set_storage_def
        sample_result_def)
  have "scheduler_ok t ?s2" using scheduler_ok_forget_task [OF assms(1)] by simp
  from submit_task_result_ok [OF this, of ?E "sample_hash 1" "sample_hash 11" rt sample_result]
  have "scheduler_ok t s3" by (simp add: sub)
  then obtain b s' where "remove_and_stop ?E (sample_hash 1) s3 = (Done b, s')"
    using remove_and_stop_Done by (fastforce simp: sample_env_def)
  with sub show ?thesis by (simp add: submit_result_def assms(3,4))
qed

theorem accepted_result_becomes_transaction_witness:
  "\<exists>s s' s'' tx. run_iteration (sample_env 9) sample_scheduler = Some (Done (), s) \<and>
       get_pending_task (sample_env 10) (sample_hash 1) s = (Done (Some sample_task), s') \<and>
       submit_result (sample_env 11) (sample_hash 1) (sample_hash 11)
         (ResultTask sample_result) s' = (Done (), s'') \<and>
       ch_queue (ss_channel s'') = [(into_received tx TXRESULT, Some 0)] \<and>
       transaction_validate sample_crates (into_received tx TXRESULT) = Done ()"
proof -
  obtain s s' where run: "run_iteration (sample_env 9) sample_scheduler = Some (Done (), s)"
    and get: "get_pending_task (sample_env 10) (sample_hash 1) s = (Done (Some sample_task), s')"
    and rt: "hm_get (ss_running_tasks s') (sample_hash 1)
         = Some \<lparr> rt_task = sample_task, rt_scheduled = 9, rt_started = 10 \<rparr>"
    and ch: "ss_channel s' = \<lparr> ch_open = True, ch_queue = [] \<rparr>"
    and reach: "sched_step\<^sup>*\<^sup>* sample_scheduler s'"
    using sample_asked by blast
  have "scheduler_ok (8192, 8, 0) s'"
    using sched_steps_ok [OF reach [unfolded sample_scheduler_def] scheduler_ok_new] .
  from sample_submit [OF this _ _ rt, of 11] ch obtain s'' where
    sub: "submit_result (sample_env 11) (sample_hash 1) (sample_hash 11) (ResultTask sample_result) s'
      = (Done (), s'')" by auto
  have "se_crates (sample_env 11) = sample_crates" "se_callback (sample_env 11) = 0"
    by (simp_all add: sample_env_def)
  then show ?thesis
    using accepted_result_becomes_transaction [OF _ _ _ rt sub] run get sub ch by auto
qed

section \<open>A pending program that is not there\<close>

fun run_iterations ::
  "'s sched_env list \<Rightarrow> 's scheduler \<Rightarrow> ((start_error, unit) outcome \<times> 's scheduler) option" where
  "run_iterations [] s = Some (Done (), s)"
| "run_iterations (E # Es) s =
     (case run_iteration E s of
        Some (Done _, s1) \<Rightarrow> run_iterations Es s1
      | r \<Rightarrow> r)"

text \<open>What the reaping leaves alone.\<close>

definition same_work :: "'s scheduler \<Rightarrow> 's scheduler \<Rightarrow> bool" where
  "same_work s s' \<longleftrightarrow> ss_mempool s' = ss_mempool s \<and> ss_health s' = ss_health s \<and>
     ss_task_queue s' = ss_task_queue s"

lemma remove_and_stop_work:
  "remove_and_stop E h s = (r, s') \<Longrightarrow>
   same_work s s' \<and> ss_pending_programs s' = ss_pending_programs s"
  using remove_and_stop_frame [of E h s] by (simp add: same_work_def)

lemma reap_tasks_work:
  "same_work s (snd (reap_tasks E hs s)) \<and>
   ss_pending_programs (snd (reap_tasks E hs s)) = ss_pending_programs s"
proof (induction hs arbitrary: s)
  case (Cons h hs)
  obtain r s1 where step: "remove_and_stop E h s = (r, s1)" by (rule prod.exhaust)
  show ?case
    using Cons.IH [of "s1\<lparr> ss_running_tasks := hm_remove h (ss_running_tasks s1) \<rparr>"]
      remove_and_stop_work [OF step]
    by (cases r) (auto simp: step same_work_def)
qed (simp add: same_work_def)

lemma reap_idle_work:
  "same_work s (snd (reap_idle E hs s)) \<and>
   ss_pending_programs (snd (reap_idle E hs s)) = ss_pending_programs s"
proof (induction hs arbitrary: s)
  case (Cons h hs)
  obtain r s1 where step: "remove_and_stop E h s = (r, s1)" by (rule prod.exhaust)
  show ?case
    using Cons.IH [of s1] remove_and_stop_work [OF step] by (cases r) (auto simp: step same_work_def)
qed (simp add: same_work_def)

lemma reap_zombies_work:
  "same_work s (snd (reap_zombies E s)) \<and>
   ss_pending_programs (snd (reap_zombies E s)) = ss_pending_programs s"
proof -
  let ?zs = "rev (map (\<lambda>t. task_tx (rt_task t)) (filter (is_zombie E s) (map snd (ss_running_tasks s))))"
  obtain r s1 where reap: "reap_tasks E ?zs s = (r, s1)" by (rule prod.exhaust)
  show ?thesis
    using reap_tasks_work [of s E ?zs] reap_idle_work [of s1 E "rev (idle_vms E s1)"]
    by (cases r) (auto simp: reap_zombies_def reap same_work_def)
qed

lemma blocked_iteration:
  assumes "scheduler_ok t s" and "ss_pending_programs s = (h, p) # rest"
    and "se_find_program E (storage_of s) p = Inr None"
  shows "\<exists>s'. run_iteration E s = Some (Done (), s') \<and> scheduler_ok t s' \<and> same_work s s' \<and>
             ss_pending_programs s' = rest @ [(h, p)]"
proof -
  obtain s1 where reap: "reap_zombies E s = (Done (), s1)"
    using reap_zombies_ok [OF assms(1), of E] by (cases "reap_zombies E s") auto
  have same: "same_work s s1" and pend: "ss_pending_programs s1 = (h, p) # rest"
    using reap_zombies_work [of s E] assms(2) by (simp_all add: reap)
  then have "storage_of s1 = storage_of s" by (simp add: same_work_def storage_of_def)
  with assms(3) have "run_iteration E s =
      Some (Done (), requeue h p (s1\<lparr> ss_pending_programs := rest \<rparr>))"
    by (simp add: run_iteration_def reap pend sched_start_def start_program_def storage_of_def)
  with run_iteration_ok [OF assms(1) this] same show ?thesis
    by (simp add: requeue_def same_work_def)
qed

text \<open>
  Pending programs are tried before anything else, and one that cannot be started goes back to
  the queue and restarts the loop. If the pending programs are all unknown to the database, the
  scheduler does nothing else any more: over any number of iterations no transaction leaves the
  mempool, no task is queued and no signal reaches the watchdog.
\<close>

theorem unknown_pending_programs_block:
  assumes "sched_step\<^sup>*\<^sup>*
      (scheduler_new mp (program_manager_new qemu_new (resource_manager_new g tm tc tg)) d ch) s"
    and "ss_pending_programs s \<noteq> []"
    and "\<forall>E\<in>set Es. \<forall>(h, p)\<in>set (ss_pending_programs s). se_find_program E (storage_of s) p = Inr None"
  shows "\<exists>s'. run_iterations Es s = Some (Done (), s') \<and> ss_mempool s' = ss_mempool s \<and>
             ss_task_queue s' = ss_task_queue s \<and> ss_health s' = ss_health s \<and>
             mset (ss_pending_programs s') = mset (ss_pending_programs s)"
proof -
  have "scheduler_ok (tm, tc, tg) s" by (rule sched_steps_ok [OF assms(1) scheduler_ok_new])
  then show ?thesis
    using assms(2,3)
  proof (induction Es arbitrary: s)
    case (Cons E Es)
    obtain h p rest where pend: "ss_pending_programs s = (h, p) # rest"
      using Cons.prems(2) by (cases "ss_pending_programs s") auto
    obtain s1 where run: "run_iteration E s = Some (Done (), s1)" and ok: "scheduler_ok (tm, tc, tg) s1"
      and same: "same_work s s1" and pend1: "ss_pending_programs s1 = rest @ [(h, p)]"
      using blocked_iteration [OF Cons.prems(1) pend, of E] Cons.prems(3) pend by auto
    have "storage_of s1 = storage_of s" using same by (simp add: same_work_def storage_of_def)
    with Cons.IH [OF ok] Cons.prems(3) pend pend1 same show ?case
      by (auto simp: run same_work_def)
  qed simp
qed

definition sample_lost_env :: "nat \<Rightarrow> (hash \<times> validated transaction) list sched_env" where
  "sample_lost_env now = (sample_env now)\<lparr> se_find_program := \<lambda>_ _. Inr None \<rparr>"

lemma sample_lost_fields:
  "se_find_program (sample_lost_env now) st p = Inr None" "se_health_open (sample_lost_env now)"
  by (simp_all add: sample_lost_env_def sample_env_def)

lemma sample_lost_iteration:
  "\<exists>s. run_iteration (sample_lost_env 9) sample_scheduler = Some (Done (), s) \<and>
       ss_pending_programs s = [(sample_hash 1, sample_hash 11)] \<and> ss_health s \<noteq> []"
proof -
  let ?E = "sample_lost_env 9"
  let ?s = "health_send ?E SchedulerLoopOk sample_scheduler
        \<lparr> ss_mempool := \<lparr> mp_storage = [(sample_hash 1, sample_tx)], mp_deque = [] \<rparr> \<rparr>"
  have pick: "pick_task ?E (health_send ?E SchedulerLoopOk sample_scheduler)
     = Some (Done (Some sample_task, 0), ?s)"
    by (simp add: pick_task_def mempool_next_def mempool_size_def health_send_def sample_env_def
        sample_lost_env_def sample_scheduler_def scheduler_new_def storage_of_def set_storage_def
        sample_next_task)
  have "reap_zombies ?E sample_scheduler = (Done (), sample_scheduler)"
    and "ss_pending_programs sample_scheduler = []"
    by (simp_all add: reap_zombies_def idle_vms_def sample_scheduler_def scheduler_new_def hm_empty_def)
  moreover have "ss_pending_programs ?s = []" by (simp add: health_send_def calculation)
  ultimately show ?thesis
    by (simp add: run_iteration_def schedule_task_def pick copy_task_files_def start_task_def
        sched_start_def start_program_def sample_lost_fields requeue_def enqueue_task_def)
      (simp add: health_send_def sample_lost_fields)
qed

theorem unknown_pending_programs_block_witness:
  "\<exists>s s'. run_iteration (sample_lost_env 9) sample_scheduler = Some (Done (), s) \<and>
       ss_pending_programs s \<noteq> [] \<and>
       run_iterations [sample_lost_env 10, sample_lost_env 11, sample_lost_env 12] s
         = Some (Done (), s') \<and> ss_health s' = ss_health s"
proof -
  obtain s where run: "run_iteration (sample_lost_env 9) sample_scheduler = Some (Done (), s)"
    and pend: "ss_pending_programs s = [(sample_hash 1, sample_hash 11)]"
    using sample_lost_iteration by blast
  have reach: "sched_step\<^sup>*\<^sup>* sample_scheduler s"
    by (rule r_into_rtranclp) (rule sched_step.iteration [OF run])
  have "ss_pending_programs s \<noteq> []" by (simp add: pend)
  moreover have "\<forall>E\<in>set [sample_lost_env 10, sample_lost_env 11, sample_lost_env 12].
      \<forall>(h, p)\<in>set (ss_pending_programs s). se_find_program E (storage_of s) p = Inr None"
    by (simp add: sample_lost_env_def)
  ultimately show ?thesis
    using unknown_pending_programs_block [OF reach [unfolded sample_scheduler_def]] run by blast
qed

end
