(* ===== verification/Vm_Server.thy ===== *)
theory Vm_Server
  imports Scheduler
begin

text \<open>
  \<open>vmm/vm_server.rs\<close>: the service that the programs inside the machines call. It finds out which
  machine sent a request from the connection, hands out the task of the transaction that this machine
  was started for, and takes its result. The registry is locked only for the look-up, so that the
  registry that a request sees is an argument of its own beside the state that the scheduler has when
  the rest of the handler runs.
\<close>

section \<open>Messages\<close>

record grpc_task =
  gt_tx_hash :: string
  gt_name :: string
  gt_args :: "string list"
  gt_files :: "string list"

datatype task_response = ResponseTask grpc_task | ResponseError task_error

record task_result_request =
  trr_tx_hash :: string
  trr_result :: "task_result_kind option"

record task_result_response =
  trs_continue :: bool

text \<open>The connection of a request: whether there is one, and the machine's address if it has one.\<close>

type_synonym connection = "u32 option option"

section \<open>Handlers\<close>

definition unknown_vm :: "string \<Rightarrow> string" where
  "unknown_vm remote = ''unknown VM address: '' @ remote"

definition grpc_of_task :: "crates \<Rightarrow> task \<Rightarrow> grpc_task" where
  "grpc_of_task c t =
     \<lparr> gt_tx_hash = hash_display c (task_tx t), gt_name = task_name t, gt_args = task_args t,
       gt_files = map vm_file_path (task_files t) \<rparr>"

definition vm_get_task ::
  "'s sched_env \<Rightarrow> connection \<Rightarrow> string \<Rightarrow> qemu \<Rightarrow> 's scheduler
     \<Rightarrow> (string, task_response) outcome \<times> 's scheduler" where
  "vm_get_task E conn remote q s =
     (case find_by_req conn q of
        Panicked m \<Rightarrow> (Panicked m, s)
      | Failed e \<Rightarrow> (Failed e, s)
      | Done None \<Rightarrow> (Failed (unknown_vm remote), s)
      | Done (Some (h, program, vm)) \<Rightarrow>
          (case get_pending_task E h s of
             (r, s1) \<Rightarrow>
               (obind r (\<lambda>t. Done (case t of
                  Some t \<Rightarrow> ResponseTask (grpc_of_task (se_crates E) t)
                | None \<Rightarrow> ResponseError Unavailable)), s1)))"

text \<open>
  \<open>std::fs::remove_dir_all\<close>: everything below the directory goes; when it fails, some of it may be
  left, which \<open>kept\<close> says.
\<close>

definition fs_remove_dir_all ::
  "io_errors \<Rightarrow> (component list \<Rightarrow> bool) \<Rightarrow> disk \<Rightarrow> path \<Rightarrow> (string + unit) \<times> disk" where
  "fs_remove_dir_all io kept d p =
     (let below = (\<lambda>q. take (length (components p)) q = components p)
      in case io (RemoveDirAll p) of
           None \<Rightarrow> (Inr (), filter (\<lambda>e. \<not> below (fst e)) d)
         | Some e \<Rightarrow> (Inl e, filter (\<lambda>e. below (fst e) \<longrightarrow> kept (fst e)) d))"

text \<open>The error of the removal, as that of the submission, is only logged.\<close>

definition clean_workspace ::
  "'s sched_env \<Rightarrow> (component list \<Rightarrow> bool) \<Rightarrow> hash \<Rightarrow> 's scheduler \<Rightarrow> (string, unit) outcome \<times> 's scheduler" where
  "clean_workspace E kept h s =
     (case path_parent (get_workspace_path (se_crates E) (se_data_directory E) h) of
        None \<Rightarrow> (Panicked ''unwrap'', s)
      | Some p \<Rightarrow> (Done (), s\<lparr> ss_disk := snd (fs_remove_dir_all (se_io E) kept (ss_disk s) p) \<rparr>))"

definition forward_result ::
  "'s sched_env \<Rightarrow> hash \<Rightarrow> hash \<Rightarrow> hash \<Rightarrow> task_result_kind option \<Rightarrow> 's scheduler
     \<Rightarrow> (string, unit) outcome \<times> 's scheduler" where
  "forward_result E h program k result s =
     (if h = k
      then (case result of Some r \<Rightarrow> submit_result E k program r s | None \<Rightarrow> (Done (), s))
      else (Done (), s))"

definition vm_submit_result ::
  "'s sched_env \<Rightarrow> (component list \<Rightarrow> bool) \<Rightarrow> connection \<Rightarrow> string \<Rightarrow> task_result_request \<Rightarrow> qemu
     \<Rightarrow> 's scheduler \<Rightarrow> (string, task_result_response) outcome \<times> 's scheduler" where
  "vm_submit_result E kept conn remote req q s =
     (case find_by_req conn q of
        Panicked m \<Rightarrow> (Panicked m, s)
      | Failed e \<Rightarrow> (Failed e, s)
      | Done None \<Rightarrow> (Failed (unknown_vm remote), s)
      | Done (Some (h, program, vm)) \<Rightarrow>
          (case hash_from_str (se_crates E) (trr_tx_hash req) of
             Panicked m \<Rightarrow> (Panicked m, s)
           | Failed e \<Rightarrow> (Failed e, s)
           | Done k \<Rightarrow>
               (case forward_result E h program k (trr_result req) s of
                  (Panicked m, s1) \<Rightarrow> (Panicked m, s1)
                | (_, s1) \<Rightarrow>
                    (case clean_workspace E kept k s1 of
                       (r, s2) \<Rightarrow> (obind r (\<lambda>_. Done \<lparr> trs_continue = False \<rparr>), s2)))))"

section \<open>The workspace directory\<close>

lemma trim_back_plain: "\<not> skipped h \<Longrightarrow> trim_back rel (qs @ [h]) = qs @ [h]"
  by (simp add: trim_back_def)

lemma plain_not_skipped: "plain_name n \<Longrightarrow> \<not> skipped n"
  by (auto simp: plain_name_def skipped_def)

lemma push_plain_form:
  assumes "r \<noteq> []" and "plain_name h"
  shows "\<exists>r'. path_push r h = r' @ CHR ''/'' # h"
proof (cases "last r = CHR ''/''")
  case True
  then have "path_push r h = butlast r @ CHR ''/'' # h"
    using assms by (simp add: path_push_def) (metis append_butlast_last_id append.assoc append_Cons append_Nil)
  then show ?thesis ..
qed (use assms in \<open>auto simp: path_push_def\<close>)

lemma path_parent_slash:
  assumes "plain_name h" and "plain_name n"
  shows "path_parent (r @ CHR ''/'' # h @ CHR ''/'' # n) = Some (r @ CHR ''/'' # h)"
proof -
  have hn: "split_slash h = [h]" "split_slash n = [n]" "\<not> skipped h" "\<not> skipped n"
    using assms plain_not_skipped by (auto simp: plain_name_def)
  have split: "split_slash (t @ CHR ''/'' # h @ CHR ''/'' # n) = split_slash t @ [h, n]" for t
    by (simp add: hn)
  have trim: "trim_back rel (qs @ [h, n]) = qs @ [h, n]" for rel qs
    using trim_back_plain [OF hn(4), of rel "qs @ [h]"] by simp
  have join: "join_slash (split_slash t @ [h]) = t @ CHR ''/'' # h" for t
    using join_split_slash [of "t @ CHR ''/'' # h"] by (simp add: hn)
  show ?thesis
  proof (cases r)
    case Nil
    have "split_slash (h @ CHR ''/'' # n) = [h] @ [n]" by (simp add: hn)
    then show ?thesis
      using trim [of False "[]"] trim_back_plain [OF hn(3), of False "[]"]
      by (simp add: Nil path_parent_def is_absolute_def)
  next
    case (Cons a t)
    show ?thesis
    proof (cases "a = CHR ''/''")
      case True
      then show ?thesis
        by (simp add: Cons path_parent_def is_absolute_def hn trim butlast_append trim_back_plain join Let_def)
    next
      case False
      then show ?thesis
        using split [of r] join [of r]
        by (simp add: Cons path_parent_def is_absolute_def trim butlast_append trim_back_plain hn Let_def)
    qed
  qed
qed

lemma path_parent_push:
  assumes "r \<noteq> []" and "plain_name h" and "plain_name n"
  shows "path_parent (path_push (path_push r h) n) = Some (path_push r h)"
proof -
  obtain r' where r': "path_push r h = r' @ CHR ''/'' # h" using push_plain_form assms(1,2) by blast
  have "last h \<noteq> CHR ''/''" "h \<noteq> []" using assms(2) by (metis last_in_set plain_name_def)+
  then have "path_push (r' @ CHR ''/'' # h) n = r' @ CHR ''/'' # h @ CHR ''/'' # n"
    using assms(3) by (simp add: path_push_def)
  with path_parent_slash [OF assms(2,3)] show ?thesis by (simp add: r')
qed

lemma workspace_parent:
  assumes "hex_text_ok c" and "hash_wf h" and "dd \<noteq> []"
  shows "path_parent (get_workspace_path c dd h)
      = Some (path_push (path_push dd VM_FILES_DIR) (hash_display c h))"
    and "components (path_push (path_push dd VM_FILES_DIR) (hash_display c h))
      = components dd @ [Normal VM_FILES_DIR, Normal (hash_display c h)]"
proof -
  have "path_join [] dd = dd" by (simp add: path_join_def path_push_def)
  moreover have "plain_name VM_FILES_DIR" "plain_name WORKSPACE_NAME"
    by (simp_all add: plain_name_def VM_FILES_DIR_def WORKSPACE_NAME_def)
  ultimately show "path_parent (get_workspace_path c dd h)
      = Some (path_push (path_push dd VM_FILES_DIR) (hash_display c h))"
    "components (path_push (path_push dd VM_FILES_DIR) (hash_display c h))
      = components dd @ [Normal VM_FILES_DIR, Normal (hash_display c h)]"
    using assms hash_display_plain [OF assms(1,2)]
    by (simp_all add: get_workspace_path_def path_join_def path_parent_push)
qed

lemma hm_get_filter_key: "hm_get (filter (\<lambda>e. P (fst e)) d) q = (if P q then hm_get d q else None)"
  by (induction d) (auto simp: hm_get_def)

lemma remove_dir_all_get:
  "hm_get (snd (fs_remove_dir_all io kept d p)) q =
     (if take (length (components p)) q = components p \<and> (io (RemoveDirAll p) = None \<or> \<not> kept q)
      then None else hm_get d q)"
  using hm_get_filter_key [of "\<lambda>q. take (length (components p)) q \<noteq> components p" d q]
    hm_get_filter_key [of "\<lambda>q. take (length (components p)) q = components p \<longrightarrow> kept q" d q]
  by (simp add: fs_remove_dir_all_def Let_def split: option.split)

lemma clean_workspace_Done:
  assumes "hex_text_ok (se_crates E)" and "hash_wf h" and "se_data_directory E \<noteq> []"
  shows "\<exists>d. clean_workspace E kept h s = (Done (), s\<lparr> ss_disk := d \<rparr>) \<and>
    (\<forall>q. hm_get d q \<noteq> hm_get (ss_disk s) q \<longrightarrow>
       (\<exists>cs. q = components (se_data_directory E) @ Normal VM_FILES_DIR #
                 Normal (hash_display (se_crates E) h) # cs) \<and> hm_get d q = None)"
proof -
  let ?p = "path_push (path_push (se_data_directory E) VM_FILES_DIR) (hash_display (se_crates E) h)"
  let ?cs = "components (se_data_directory E) @ [Normal VM_FILES_DIR, Normal (hash_display (se_crates E) h)]"
  have c: "components ?p = ?cs" by (rule workspace_parent [OF assms])
  have "\<exists>cs. q = components (se_data_directory E) @ Normal VM_FILES_DIR #
      Normal (hash_display (se_crates E) h) # cs" if "take (length ?cs) q = ?cs" for q
  proof -
    have "q = take (length ?cs) q @ drop (length ?cs) q" by simp
    then show ?thesis unfolding that by (simp only: append.assoc append_Cons append_Nil) blast
  qed
  then show ?thesis
    by (auto simp: clean_workspace_def workspace_parent [OF assms] remove_dir_all_get c simp del: length_append
        split: if_splits)
qed

section \<open>Requests as steps of the scheduler\<close>

lemma outside_disk: "sched_step s (s\<lparr> ss_disk := d \<rparr>)"
  using sched_step.outside [where s = s and mp = "ss_mempool s" and d = d and ch = "ss_channel s"] by simp

lemma vm_get_task_steps: "sched_step\<^sup>*\<^sup>* s (snd (vm_get_task E conn remote q s))"
  by (auto simp: vm_get_task_def split: outcome.splits option.splits prod.splits intro: sched_step.asked)

lemma clean_workspace_steps: "sched_step\<^sup>*\<^sup>* s (snd (clean_workspace E kept k s))"
  by (auto simp: clean_workspace_def split: option.splits intro: outside_disk)

lemma submit_result_steps: "sched_step\<^sup>*\<^sup>* s (snd (submit_result E k p r s))"
  by (metis prod.collapse r_into_rtranclp sched_step.submitted)

lemma forward_result_steps: "sched_step\<^sup>*\<^sup>* s (snd (forward_result E h p k r s))"
  by (simp add: forward_result_def submit_result_steps split: option.split)

lemma vm_submit_result_cases:
  "snd (vm_submit_result E kept conn remote req q s) = s \<or>
   (\<exists>h p k. snd (vm_submit_result E kept conn remote req q s)
      \<in> {snd (forward_result E h p k (trr_result req) s),
         snd (clean_workspace E kept k (snd (forward_result E h p k (trr_result req) s)))})"
proof (cases "find_by_req conn q :: (string, (hash \<times> hash \<times> u32) option) outcome")
  case (Done found)
  show ?thesis
  proof (cases found)
    case (Some x)
    obtain h p vm where x: "x = (h, p, vm)" by (cases x) auto
    show ?thesis
    proof (cases "hash_from_str (se_crates E) (trr_tx_hash req) :: (string, hash) outcome")
      case (Done k)
      obtain r s1 where f: "forward_result E h p k (trr_result req) s = (r, s1)" by (rule prod.exhaust)
      obtain r2 s2 where c: "clean_workspace E kept k s1 = (r2, s2)" by (rule prod.exhaust)
      have "snd (vm_submit_result E kept conn remote req q s) = (case r of Panicked m \<Rightarrow> s1 | _ \<Rightarrow> s2)"
        by (simp add: vm_submit_result_def Done Some x \<open>find_by_req conn q = Done found\<close> f c
            split: outcome.split)
      then show ?thesis
        by (intro disjI2 exI [of _ h] exI [of _ p] exI [of _ k]) (simp add: f c split: outcome.split)
    qed (simp_all add: vm_submit_result_def Done Some x)
  qed (simp add: vm_submit_result_def Done)
qed (simp_all add: vm_submit_result_def)

lemma vm_submit_result_steps: "sched_step\<^sup>*\<^sup>* s (snd (vm_submit_result E kept conn remote req q s))"
  using vm_submit_result_cases [of E kept conn remote req q s]
proof (elim disjE exE)
  fix h p k
  assume "snd (vm_submit_result E kept conn remote req q s)
      \<in> {snd (forward_result E h p k (trr_result req) s),
         snd (clean_workspace E kept k (snd (forward_result E h p k (trr_result req) s)))}"
  then show ?thesis
    using forward_result_steps [of s E h p k "trr_result req"]
      clean_workspace_steps [of "snd (forward_result E h p k (trr_result req) s)" E kept k]
    by auto
qed simp

section \<open>Properties\<close>


text \<open>
  A registered machine that asks for work is always answered: with a task of the transaction that
  it is registered for, which then counts as running, or with the error that there is none. A machine
  that is not registered gets an error and changes nothing.
\<close>

theorem machine_request_answered:
  assumes "sched_step\<^sup>*\<^sup>*
      (scheduler_new mp (program_manager_new qemu_new (resource_manager_new g tm tc tg)) d ch) s"
    and "(find_by_req conn q :: (string, _) outcome) = Done found"
  shows "case found of
      None \<Rightarrow> vm_get_task E conn remote q s = (Failed (unknown_vm remote), s)
    | Some (h, p, vm) \<Rightarrow>
        (\<exists>k s'. vm_get_task E conn remote q s = (Done (ResponseTask (grpc_of_task (se_crates E) k)), s') \<and>
                task_tx k = h \<and> get_running_task h s' = Some k \<and> get_running_task h s = None) \<or>
        (\<exists>s'. vm_get_task E conn remote q s = (Done (ResponseError Unavailable), s'))"
proof (cases found)
  case (Some x)
  obtain h p vm where x: "x = (h, p, vm)" by (cases x) auto
  have ok: "scheduler_ok (tm, tc, tg) s" by (rule sched_steps_ok [OF assms(1) scheduler_ok_new])
  then have own: "task_tx (fst e) = h" if "hm_get (ss_task_queue s) h = Some q'" "e \<in> set q'" for e q'
    using that by (auto simp: scheduler_ok_def tasks_ok_def)
  obtain r s1 where stop: "remove_and_stop E h s = (r, s1)" by (rule prod.exhaust)
  have no: "r \<noteq> Panicked m" for m using remove_and_stop_no_panic [OF ok, of E h] by (simp add: stop)
  have req: "vm_get_task E conn remote q s = (obind (fst (get_pending_task E h s)) (\<lambda>t. Done (case t of
      Some t \<Rightarrow> ResponseTask (grpc_of_task (se_crates E) t) | None \<Rightarrow> ResponseError Unavailable)),
      snd (get_pending_task E h s))"
    using assms(2) by (simp add: vm_get_task_def Some x split: prod.split)
  have "get_pending_task E h s = (Done None, s1)" if "hm_get (ss_running_tasks s) h \<noteq> None"
    using that no by (cases r) (auto simp: get_pending_task_def stop)
  moreover have "get_pending_task E h s = (Done None, s)"
    if "hm_get (ss_running_tasks s) h = None" "\<nexists>e q'. hm_get (ss_task_queue s) h = Some (e # q')"
    using that by (simp add: get_pending_task_def split: option.splits list.splits)
  ultimately consider "get_pending_task E h s = (Done None, s1)" | "get_pending_task E h s = (Done None, s)"
    | k since q' where "hm_get (ss_running_tasks s) h = None"
      "hm_get (ss_task_queue s) h = Some ((k, since) # q')"
    by (metis surj_pair)
  then show ?thesis
  proof cases
    case (3 k since q')
    then have "task_tx k = h" using own [of "(k, since) # q'" "(k, since)"] by simp
    with 3 req obtain s' where
      "vm_get_task E conn remote q s = (Done (ResponseTask (grpc_of_task (se_crates E) k)), s')"
      "task_tx k = h" "get_running_task h s' = Some k" "get_running_task h s = None"
      by (simp add: get_pending_task_def get_running_task_def)
    then show ?thesis by (auto simp: Some x)
  qed (simp_all add: Some x req)
qed (simp add: vm_get_task_def assms(2))

definition sample_registry :: qemu where
  "sample_registry =
     \<lparr> next_cid = 5, cid_allocations = {4},
       vm_registry = [(4, \<lparr> qh_child = True, qh_cid = 4, qh_tx_hash = sample_hash 1,
         qh_program_id = sample_hash 11, qh_workspace_volume_label = ''label'' \<rparr>)] \<rparr>"

lemma sample_found_vm:
  "find_by_req (Some (Some 4)) sample_registry = Done (Some (sample_hash 1, sample_hash 11, 4))"
  by (simp add: find_by_req_def sample_registry_def expect_def hm_get_def)

theorem machine_request_answered_witness:
  "\<exists>s s'. run_iteration (sample_env 9) sample_scheduler = Some (Done (), s) \<and>
       vm_get_task (sample_env 10) (Some (Some 4)) ''vsock'' sample_registry s
         = (Done (ResponseTask (grpc_of_task sample_crates sample_task)), s') \<and>
       get_running_task (sample_hash 1) s' = Some sample_task"
proof -
  obtain s where run: "run_iteration (sample_env 9) sample_scheduler = Some (Done (), s)"
    and q: "hm_get (ss_task_queue s) (sample_hash 1) = Some [(sample_task, 9)]"
    and r: "ss_running_tasks s = hm_empty"
    using sample_iteration by blast
  have "sched_step\<^sup>*\<^sup>* sample_scheduler s"
    by (rule r_into_rtranclp) (rule sched_step.iteration [OF run])
  from machine_request_answered [OF this [unfolded sample_scheduler_def] sample_found_vm,
      of "sample_env 10" "''vsock''"] run
  show ?thesis
    by (auto simp: vm_get_task_def sample_found_vm get_pending_task_def q r get_running_task_def sample_env_def)
qed

text \<open>
  C33: A machine cannot submit a result for another transaction than the one it is registered for: the
  scheduler's tables, its machines and the mempool stay as they are, and no transaction is sent. But the
  clean-up at the end of the request goes by the hash that the machine named: it deletes everything in
  the directory of that other transaction's machine, and nothing else.
\<close>

theorem foreign_result_rejected:
  assumes "(find_by_req conn q :: (string, _) outcome) = Done (Some (h, p, vm))"
    and "hash_from_str (se_crates E) (trr_tx_hash req) = (Done k :: (string, _) outcome)" and "k \<noteq> h"
    and "hex_text_ok (se_crates E)" and "se_data_directory E \<noteq> []" and "\<And>f. se_io E (RemoveDirAll f) = None"
  shows "\<exists>d. vm_submit_result E kept conn remote req q s = (Done \<lparr> trs_continue = False \<rparr>, s\<lparr> ss_disk := d \<rparr>) \<and>
    (\<forall>f. hm_get d f = (if \<exists>cs. f = components (se_data_directory E) @ Normal VM_FILES_DIR #
                                  Normal (hash_display (se_crates E) k) # cs
                       then None else hm_get (ss_disk s) f))"
proof -
  let ?p = "path_push (path_push (se_data_directory E) VM_FILES_DIR) (hash_display (se_crates E) k)"
  let ?d = "snd (fs_remove_dir_all (se_io E) kept (ss_disk s) ?p)"
  have wf: "hash_wf k" using assms(2) by (simp add: outcome_simps)
  have "vm_submit_result E kept conn remote req q s = (Done \<lparr> trs_continue = False \<rparr>, s\<lparr> ss_disk := ?d \<rparr>)"
    using assms(3) by (simp add: vm_submit_result_def assms(1,2) forward_result_def clean_workspace_def
        workspace_parent(1) [OF assms(4) wf assms(5)])
  moreover have "hm_get ?d f = (if \<exists>cs. f = components ?p @ cs then None else hm_get (ss_disk s) f)" for f
    by (auto simp: remove_dir_all_get assms(6)) (metis append_take_drop_id)
  ultimately show ?thesis
    by (intro exI [of _ ?d]) (simp add: workspace_parent(2) [OF assms(4) wf assms(5)])
qed

text \<open>
  A result whose transaction hash is not the hexadecimal text of 32 bytes panics the handler,
  where a machine that is not known is answered with an error.
\<close>

theorem malformed_hash_panics:
  assumes "(find_by_req conn q :: (string, _) outcome) = Done (Some (h, p, vm))"
    and "\<And>k. hex_decode (se_crates E) (trr_tx_hash req) = Inr k \<Longrightarrow> length k \<noteq> HASH_SIZE"
  shows "\<exists>m. vm_submit_result E kept conn remote req q s = (Panicked m, s)"
proof -
  have "\<exists>m. hash_from_str (se_crates E) (trr_tx_hash req) = (Panicked m :: (string, hash) outcome)"
    using assms(2) by (cases "hex_decode (se_crates E) (trr_tx_hash req)")
      (auto simp: hash_from_str_def try_into_hash_def expect_def)
  then show ?thesis by (auto simp: vm_submit_result_def assms(1))
qed

theorem malformed_hash_panics_witness:
  "\<exists>m. vm_submit_result (sample_env 1) (\<lambda>_. False) (Some (Some 4)) ''vsock''
      \<lparr> trr_tx_hash = ''0'', trr_result = None \<rparr> sample_registry sample_scheduler = (Panicked m, sample_scheduler)"
proof -
  have "hex_decode (se_crates (sample_env 1)) (trr_tx_hash \<lparr> trr_tx_hash = ''0'', trr_result = None \<rparr>)
      \<noteq> Inr k" for k
    by (simp add: sample_env_def sample_crates_def)
  with malformed_hash_panics [OF sample_found_vm] show ?thesis by blast
qed

definition sample_file :: "component list" where
  "sample_file = components ''/data'' @
     [Normal VM_FILES_DIR, Normal (hash_display sample_crates (sample_hash 2)), Normal ''workspace'', Normal ''a'']"

theorem foreign_result_rejected_witness:
  "\<exists>d. vm_submit_result (sample_env 1) (\<lambda>_. False) (Some (Some 4)) ''vsock''
        \<lparr> trr_tx_hash = hash_display sample_crates (sample_hash 2), trr_result = Some (ResultError TaskFailed) \<rparr>
        sample_registry (sample_scheduler\<lparr> ss_disk := [(sample_file, [7])] \<rparr>)
      = (Done \<lparr> trs_continue = False \<rparr>, sample_scheduler\<lparr> ss_disk := d \<rparr>) \<and> hm_get d sample_file = None"
proof -
  let ?req = "\<lparr> trr_tx_hash = hash_display sample_crates (sample_hash 2), trr_result = Some (ResultError TaskFailed) \<rparr>"
  have "hash_from_str (se_crates (sample_env 1)) (trr_tx_hash ?req) = (Done (sample_hash 2) :: (string, _) outcome)"
    by (simp add: sample_env_def hash_display_parse)
  from foreign_result_rejected [OF sample_found_vm this, of "\<lambda>_. False" "''vsock''"
      "sample_scheduler\<lparr> ss_disk := [(sample_file, [7])] \<rparr>"]
  obtain d where "vm_submit_result (sample_env 1) (\<lambda>_. False) (Some (Some 4)) ''vsock'' ?req sample_registry
        (sample_scheduler\<lparr> ss_disk := [(sample_file, [7])] \<rparr>)
      = (Done \<lparr> trs_continue = False \<rparr>, sample_scheduler\<lparr> ss_disk := d \<rparr>)"
    and "hm_get d sample_file = None"
    by (auto simp: sample_env_def sample_file_def)
  then show ?thesis by blast
qed

end
