(* ===== verification/Shim.thy ===== *)
theory Shim
  imports Vm_Server
begin

text \<open>
  \<open>crates/shim\<close> and \<open>crates/shim-ffi\<close>: the library inside a machine. It waits for the workspace to be
  mounted, asks the node for a task, runs the program's function on it, and submits the result with the
  checksums of its files, until the node tells it to stop. The node's service is a record of two calls
  over a state of its own; \<open>node_service\<close> is the one of \<open>Vm_Server\<close>.
\<close>

section \<open>Tasks and results\<close>

record shim_task =
  st_id :: string
  st_args :: "string list"
  st_files :: "string list"

record shim_result =
  sr_id :: string
  sr_data :: "byte list"
  sr_files :: "string list"

definition task_result :: "shim_task \<Rightarrow> byte list \<Rightarrow> string list \<Rightarrow> (string, shim_result) outcome" where
  "task_result t data files = Done \<lparr> sr_id = st_id t, sr_data = data, sr_files = files \<rparr>"

definition get_task_files_path :: "shim_task \<Rightarrow> string \<Rightarrow> (string \<times> path) list" where
  "get_task_files_path t workspace = map (\<lambda>name. (name, path_join workspace name)) (st_files t)"

section \<open>The client\<close>

definition MOUNT_TIMEOUT :: nat where
  "MOUNT_TIMEOUT = 30000"

definition contains_text :: "string \<Rightarrow> string \<Rightarrow> bool" where
  "contains_text line part \<longleftrightarrow> list_ex (\<lambda>i. take (length part) (drop i line) = part) [0..<Suc (length line)]"

text \<open>\<open>/proc/mounts\<close>: the error of opening it, or its lines, with \<open>None\<close> for one that cannot be read.\<close>

fun scan_mounts :: "string \<Rightarrow> string option list \<Rightarrow> (string, bool) outcome" where
  "scan_mounts mount_point [] = Done False"
| "scan_mounts mount_point (None # ls) = Panicked ''read /proc/mounts''"
| "scan_mounts mount_point (Some l # ls) =
     (if contains_text l mount_point then Done True else scan_mounts mount_point ls)"

definition mount_present :: "string + string option list \<Rightarrow> string \<Rightarrow> (string, bool) outcome" where
  "mount_present mounts mount_point = obind (of_sum mounts) (scan_mounts mount_point)"

text \<open>
  The waiting loop of \<open>GRPCClient::new\<close>: \<open>obs i\<close> is what the i-th pass sees, the milliseconds since the
  beginning and the mounts.
\<close>

partial_function (option) wait_mount ::
  "(nat \<Rightarrow> nat \<times> (string + string option list)) \<Rightarrow> string \<Rightarrow> nat \<Rightarrow> (string, unit) outcome option" where
  "wait_mount obs workspace i =
     (if MOUNT_TIMEOUT < fst (obs i) then Some (Panicked (workspace @ '' mount timeout''))
      else case mount_present (snd (obs i)) workspace of
             Failed e \<Rightarrow> Some (Failed e)
           | Panicked m \<Rightarrow> Some (Panicked m)
           | Done present \<Rightarrow> if present then Some (Done ()) else wait_mount obs workspace (Suc i))"

declare wait_mount.simps [code]

definition grpc_client_new ::
  "string + unit \<Rightarrow> (nat \<Rightarrow> nat \<times> (string + string option list)) \<Rightarrow> string \<Rightarrow> (string, unit) outcome option" where
  "grpc_client_new connected obs workspace =
     (case connected of Inl e \<Rightarrow> Some (Failed e) | Inr _ \<Rightarrow> wait_mount obs workspace 0)"

record 'w vm_service =
  vs_get_task :: "'w \<Rightarrow> (string + task_response option) \<times> 'w"
  vs_submit_result :: "task_result_request \<Rightarrow> 'w \<Rightarrow> (string + task_result_response) \<times> 'w"

fun task_error_code :: "task_error \<Rightarrow> nat" where
  "task_error_code Unavailable = 0"
| "task_error_code TaskFailed = 1"

definition shim_get_task :: "'w vm_service \<Rightarrow> 'w \<Rightarrow> (string + shim_task option) \<times> 'w" where
  "shim_get_task sv w =
     (case vs_get_task sv w of
        (Inl e, w1) \<Rightarrow> (Inl e, w1)
      | (Inr None, w1) \<Rightarrow> (Inr None, w1)
      | (Inr (Some (ResponseTask t)), w1) \<Rightarrow>
          (Inr (Some \<lparr> st_id = gt_tx_hash t, st_args = gt_args t, st_files = gt_files t \<rparr>), w1)
      | (Inr (Some (ResponseError e)), w1) \<Rightarrow>
          (Inl (''get_task() resulted with error code '' @ show_nat (task_error_code e)), w1))"

text \<open>Only the checksum of a file is submitted; its content stays in the workspace.\<close>

definition submit_file :: "(byte list \<Rightarrow> byte list) \<Rightarrow> io_errors \<Rightarrow> disk \<Rightarrow> string \<Rightarrow> (string, byte list) outcome" where
  "submit_file b3 io d p =
     (case fs_open io d p of
        None \<Rightarrow> Failed (''No such file or directory for file:'' @ p)
      | Some bs \<Rightarrow> Done (b3 bs))"

definition submitted_file :: "(byte list \<Rightarrow> byte list) \<Rightarrow> io_errors \<Rightarrow> disk \<Rightarrow> string \<Rightarrow> (string, grpc_file) outcome" where
  "submitted_file b3 io d p =
     obind (submit_file b3 io d p) (\<lambda>k. Done \<lparr> gf_path = p, gf_checksum = k \<rparr>)"

definition result_request ::
  "(byte list \<Rightarrow> byte list) \<Rightarrow> io_errors \<Rightarrow> disk \<Rightarrow> string \<Rightarrow> (string, shim_result) outcome \<Rightarrow> task_result_request" where
  "result_request b3 io d task_id result =
     (case obind result (\<lambda>r.
             obind (collect_outcome (submitted_file b3 io d) (sr_files r)) (\<lambda>files.
             Done \<lparr> trr_tx_hash = sr_id r, trr_result = Some (ResultTask \<lparr> gr_data = sr_data r, gr_files = files \<rparr>) \<rparr>)) of
        Done req \<Rightarrow> req
      | _ \<Rightarrow> \<lparr> trr_tx_hash = task_id, trr_result = Some (ResultError TaskFailed) \<rparr>)"

definition shim_submit_result ::
  "'w vm_service \<Rightarrow> (byte list \<Rightarrow> byte list) \<Rightarrow> io_errors \<Rightarrow> disk \<Rightarrow> string \<Rightarrow> (string, shim_result) outcome \<Rightarrow> 'w
     \<Rightarrow> (string + bool) \<times> 'w" where
  "shim_submit_result sv b3 io d task_id result w =
     (case vs_submit_result sv (result_request b3 io d task_id result) w of
        (Inl e, w1) \<Rightarrow> (Inl e, w1)
      | (Inr resp, w1) \<Rightarrow> (Inr (trs_continue resp), w1))"

section \<open>The main loop\<close>

text \<open>The program's function may write files and may panic.\<close>

type_synonym program_function = "shim_task \<Rightarrow> disk \<Rightarrow> (string, shim_result) outcome \<times> disk"

partial_function (option) shim_loop ::
  "'w vm_service \<Rightarrow> (byte list \<Rightarrow> byte list) \<Rightarrow> io_errors \<Rightarrow> program_function \<Rightarrow> disk \<Rightarrow> 'w
     \<Rightarrow> ((string, unit) outcome \<times> disk \<times> 'w) option" where
  "shim_loop sv b3 io callback d w =
     (case shim_get_task sv w of
        (Inl e, w1) \<Rightarrow> Some (Failed e, d, w1)
      | (Inr None, w1) \<Rightarrow> shim_loop sv b3 io callback d w1
      | (Inr (Some t), w1) \<Rightarrow>
          (let result = fst (callback t d); d1 = snd (callback t d)
           in case result of
                Panicked m \<Rightarrow> Some (Panicked m, d1, w1)
              | _ \<Rightarrow>
                  (case shim_submit_result sv b3 io d1 (st_id t) result w1 of
                     (Inl e, w2) \<Rightarrow> Some (Failed e, d1, w2)
                   | (Inr should_continue, w2) \<Rightarrow>
                       if should_continue then shim_loop sv b3 io callback d1 w2 else Some (Done (), d1, w2))))"

declare shim_loop.simps [code]

definition WORKSPACE_PATH :: path where
  "WORKSPACE_PATH = ''/workspace''"

definition shim_run ::
  "string + unit \<Rightarrow> (nat \<Rightarrow> nat \<times> (string + string option list)) \<Rightarrow> 'w vm_service \<Rightarrow> (byte list \<Rightarrow> byte list)
     \<Rightarrow> io_errors \<Rightarrow> program_function \<Rightarrow> disk \<Rightarrow> 'w \<Rightarrow> ((string, unit) outcome \<times> disk \<times> 'w) option" where
  "shim_run connected obs sv b3 io callback d w =
     (case grpc_client_new connected obs WORKSPACE_PATH of
        None \<Rightarrow> None
      | Some (Done _) \<Rightarrow> shim_loop sv b3 io callback d w
      | Some (Failed e) \<Rightarrow> Some (Failed e, d, w)
      | Some (Panicked m) \<Rightarrow> Some (Panicked m, d, w))"

section \<open>Programs in other languages\<close>

text \<open>
  \<open>shim-ffi\<close>: the strings of a task are handed over with a terminating zero byte, so none may contain one.
  The result is built by calls of the program: its data, and then one file after the other.
\<close>

definition new_task_result :: "byte list option \<Rightarrow> byte list \<times> string list" where
  "new_task_result data = (case data of None \<Rightarrow> [] | Some bs \<Rightarrow> bs, [])"

definition add_file_to_result :: "byte list \<times> string list \<Rightarrow> string \<Rightarrow> byte list \<times> string list" where
  "add_file_to_result r name = (fst r, snd r @ [name])"

definition c_string :: "string \<Rightarrow> string \<Rightarrow> (string, string) outcome" where
  "c_string m s = (if CHR 0x00 \<in> set s then Panicked m else Done s)"

definition ffi_task :: "shim_task \<Rightarrow> (string, shim_task) outcome" where
  "ffi_task t =
     obind (c_string ''task.id'' (st_id t)) (\<lambda>i.
     obind (collect_outcome (c_string ''task.arg'') (st_args t)) (\<lambda>args.
     obind (collect_outcome (c_string ''task.file'') (st_files t)) (\<lambda>files.
     Done \<lparr> st_id = i, st_args = args, st_files = files \<rparr>)))"

definition ffi_callback :: "(shim_task \<Rightarrow> disk \<Rightarrow> (byte list \<times> string list) \<times> disk) \<Rightarrow> program_function" where
  "ffi_callback callback t d =
     (case ffi_task t of
        Done ct \<Rightarrow> (case callback ct d of ((data, files), d1) \<Rightarrow> (task_result t data files, d1))
      | Failed e \<Rightarrow> (Failed e, d)
      | Panicked m \<Rightarrow> (Panicked m, d))"

text \<open>The message about an error unwraps the error.\<close>

definition ffi_run ::
  "((string, unit) outcome \<times> disk \<times> 'w) option \<Rightarrow> ((string, unit) outcome \<times> disk \<times> 'w) option" where
  "ffi_run res =
     (case res of
        None \<Rightarrow> None
      | Some (Failed e, d, w) \<Rightarrow> Some (Panicked e, d, w)
      | Some x \<Rightarrow> Some x)"

section \<open>The node's service\<close>

definition grpc_reply :: "(string, 'a) outcome \<times> 's \<Rightarrow> (string + 'a) \<times> 's" where
  "grpc_reply x =
     (case fst x of Done a \<Rightarrow> Inr a | Failed e \<Rightarrow> Inl e | Panicked m \<Rightarrow> Inl ''transport error'', snd x)"

definition node_service ::
  "'s sched_env \<Rightarrow> (component list \<Rightarrow> bool) \<Rightarrow> connection \<Rightarrow> string \<Rightarrow> qemu \<Rightarrow> ('s scheduler) vm_service" where
  "node_service E kept conn remote q =
     \<lparr> vs_get_task = (\<lambda>s. case grpc_reply (vm_get_task E conn remote q s) of
         (Inl e, s1) \<Rightarrow> (Inl e, s1) | (Inr r, s1) \<Rightarrow> (Inr (Some r), s1)),
       vs_submit_result = (\<lambda>req s. grpc_reply (vm_submit_result E kept conn remote req q s)) \<rparr>"

text \<open>
  The contract of a service that gives out one task per machine: an accepted result is the last one. Then
  the loop that has got a task runs the program on it, submits once and ends.
\<close>

locale one_shot_service =
  fixes sv :: "'w vm_service"
  assumes last_result: "vs_submit_result sv req w = (Inr resp, w1) \<Longrightarrow> \<not> trs_continue resp"
begin

lemma shim_loop_task:
  assumes "shim_get_task sv w = (Inr (Some t), w1)" and "callback t d = (r, d1)" and "\<And>m. r \<noteq> Panicked m"
  shows "shim_loop sv b3 io callback d w =
    (case vs_submit_result sv (result_request b3 io d1 (st_id t) r) w1 of
       (Inl e, w2) \<Rightarrow> Some (Failed e, d1, w2)
     | (Inr _, w2) \<Rightarrow> Some (Done (), d1, w2))"
proof -
  obtain x w2 where sub: "vs_submit_result sv (result_request b3 io d1 (st_id t) r) w1 = (x, w2)" by (rule prod.exhaust)
  have "shim_loop sv b3 io callback d w =
      (case shim_submit_result sv b3 io d1 (st_id t) r w1 of
         (Inl e, w2) \<Rightarrow> Some (Failed e, d1, w2)
       | (Inr go, w2) \<Rightarrow> if go then shim_loop sv b3 io callback d1 w2 else Some (Done (), d1, w2))"
    using assms(3) by (subst shim_loop.simps) (cases r, simp_all add: assms(1,2), blast)
  with sub show ?thesis
    using last_result [of "result_request b3 io d1 (st_id t) r" w1 _ w2]
    by (cases x) (simp_all add: shim_submit_result_def)
qed

end

lemma vm_submit_never_continues: "fst (vm_submit_result E kept conn remote req q s) = Done resp \<Longrightarrow> \<not> trs_continue resp"
  by (auto simp: vm_submit_result_def outcome_simps split: outcome.splits option.splits prod.splits)

interpretation ns: one_shot_service "node_service E kept conn remote q" for E kept conn remote q
proof
  fix req s resp s1
  assume "vs_submit_result (node_service E kept conn remote q) req s = (Inr resp, s1)"
  then have "fst (vm_submit_result E kept conn remote req q s) = Done resp"
    by (auto simp: node_service_def grpc_reply_def split: outcome.splits)
  then show "\<not> trs_continue resp" by (rule vm_submit_never_continues)
qed

section \<open>Waiting\<close>

definition keeps_waiting :: "(nat \<Rightarrow> nat \<times> (string + string option list)) \<Rightarrow> string \<Rightarrow> nat \<Rightarrow> bool" where
  "keeps_waiting obs workspace i \<longleftrightarrow>
     fst (obs i) \<le> MOUNT_TIMEOUT \<and> mount_present (snd (obs i)) workspace = Done False"

lemma wait_mount_skip:
  "(\<And>j. j < n \<Longrightarrow> keeps_waiting obs workspace (i + j)) \<Longrightarrow>
   wait_mount obs workspace i = wait_mount obs workspace (i + n)"
proof (induction n)
  case (Suc n)
  then have "keeps_waiting obs workspace (i + n)" by simp
  then have "wait_mount obs workspace (i + n) = wait_mount obs workspace (Suc (i + n))"
    by (subst wait_mount.simps) (simp add: keeps_waiting_def)
  with Suc show ?case by simp
qed simp

lemma wait_mount_stop:
  "\<not> keeps_waiting obs workspace i \<Longrightarrow>
   \<exists>r. wait_mount obs workspace i = Some r \<and>
     (r = Done () \<longleftrightarrow> fst (obs i) \<le> MOUNT_TIMEOUT \<and> mount_present (snd (obs i)) workspace = Done True)"
  by (subst wait_mount.simps) (auto simp: keeps_waiting_def split: outcome.split)

lemma first_stop:
  assumes "\<not> keeps_waiting obs workspace i"
  obtains k where "\<not> keeps_waiting obs workspace k" and "\<And>j. j < k \<Longrightarrow> keeps_waiting obs workspace j"
  using assms LeastI [of "\<lambda>i. \<not> keeps_waiting obs workspace i" i]
    not_less_Least [of _ "\<lambda>i. \<not> keeps_waiting obs workspace i"] by blast

section \<open>Properties\<close>

text \<open>
  The shim does not wait forever for its workspace, as long as the clock goes on: it ends within the
  timeout, and with success exactly when the mount is seen before it and before any other failure.
\<close>

theorem mount_wait_returns:
  assumes "MOUNT_TIMEOUT < fst (obs n)"
  shows "\<exists>r. grpc_client_new (Inr ()) obs workspace = Some r \<and>
           (r = Done () \<longleftrightarrow>
              (\<exists>k. (\<forall>j<k. keeps_waiting obs workspace j) \<and> fst (obs k) \<le> MOUNT_TIMEOUT \<and>
                   mount_present (snd (obs k)) workspace = Done True))"
proof -
  have "\<not> keeps_waiting obs workspace n" using assms by (simp add: keeps_waiting_def)
  then obtain k where k: "\<not> keeps_waiting obs workspace k" and before: "\<And>j. j < k \<Longrightarrow> keeps_waiting obs workspace j"
    using first_stop by blast
  obtain r where r: "wait_mount obs workspace k = Some r"
    "r = Done () \<longleftrightarrow> fst (obs k) \<le> MOUNT_TIMEOUT \<and> mount_present (snd (obs k)) workspace = Done True"
    using wait_mount_stop [OF k] by blast
  have "wait_mount obs workspace 0 = wait_mount obs workspace k"
    using wait_mount_skip [of k obs workspace 0] before by simp
  moreover have "k' = k" if "\<forall>j<k'. keeps_waiting obs workspace j" "mount_present (snd (obs k')) workspace = Done True" for k'
    using that k before [of k'] by (cases k k' rule: linorder_cases) (auto simp: keeps_waiting_def)
  ultimately show ?thesis using r before by (auto simp: grpc_client_new_def)
qed

lemma submitted_files_ok:
  assumes "\<forall>f\<in>set files. fs_open io d f \<noteq> None"
  shows "collect_outcome (submitted_file b3 io d) files =
    Done (map (\<lambda>f. \<lparr> gf_path = f, gf_checksum = b3 (the (fs_open io d f)) \<rparr>) files)"
  using assms by (induction files) (auto simp: submitted_file_def submit_file_def)

lemma submitted_files_fail:
  assumes "\<not> (\<forall>f\<in>set files. fs_open io d f \<noteq> None)"
  shows "\<exists>e. collect_outcome (submitted_file b3 io d) files = Failed e"
  using assms
proof (induction files)
  case (Cons f files)
  then show ?case by (cases "fs_open io d f") (auto simp: submitted_file_def submit_file_def)
qed simp

definition report_of ::
  "(byte list \<Rightarrow> byte list) \<Rightarrow> io_errors \<Rightarrow> disk \<Rightarrow> string list \<Rightarrow> byte list \<Rightarrow> task_result_kind" where
  "report_of b3 io d files data =
     (if \<forall>f\<in>set files. fs_open io d f \<noteq> None
      then ResultTask \<lparr> gr_data = data,
             gr_files = map (\<lambda>f. \<lparr> gf_path = f, gf_checksum = b3 (the (fs_open io d f)) \<rparr>) files \<rparr>
      else ResultError TaskFailed)"

lemma result_request_of_task:
  "result_request b3 io d (st_id t) (task_result t data files) =
     \<lparr> trr_tx_hash = st_id t, trr_result = Some (report_of b3 io d files data) \<rparr>"
proof (cases "\<forall>f\<in>set files. fs_open io d f \<noteq> None")
  case True
  then show ?thesis
    by (simp add: result_request_def task_result_def report_of_def submitted_files_ok)
next
  case False
  then show ?thesis
    using submitted_files_fail [OF False, of b3] by (auto simp: result_request_def task_result_def report_of_def)
qed

text \<open>
  C26: A machine that the node has given a task runs the program exactly once and stops: what it submits
  always carries the hash of the transaction it was started for, and is the program's data with the
  checksum of every file it names, or, when the program fails or one of the files cannot be read, the
  error that makes the node give up the task. The node's answer is the end of the machine's run.
\<close>

theorem machine_reports_its_task:
  assumes "vm_get_task E conn remote q s = (Done (ResponseTask g), s1)"
    and "callback \<lparr> st_id = gt_tx_hash g, st_args = gt_args g, st_files = gt_files g \<rparr> d = (r, d1)"
    and "r = Failed e \<and> report = ResultError TaskFailed \<or>
         r = task_result \<lparr> st_id = gt_tx_hash g, st_args = gt_args g, st_files = gt_files g \<rparr> data files \<and>
         report = report_of b3 io d1 files data"
  shows "shim_loop (node_service E kept conn remote q) b3 io callback d s =
    (case vm_submit_result E kept conn remote \<lparr> trr_tx_hash = gt_tx_hash g, trr_result = Some report \<rparr> q s1 of
       (Done _, s2) \<Rightarrow> Some (Done (), d1, s2)
     | (Failed e, s2) \<Rightarrow> Some (Failed e, d1, s2)
     | (Panicked _, s2) \<Rightarrow> Some (Failed ''transport error'', d1, s2))"
proof -
  let ?t = "\<lparr> st_id = gt_tx_hash g, st_args = gt_args g, st_files = gt_files g \<rparr>"
  let ?req = "\<lparr> trr_tx_hash = gt_tx_hash g, trr_result = Some report \<rparr>"
  let ?sv = "node_service E kept conn remote q"
  have get: "shim_get_task ?sv s = (Inr (Some ?t), s1)"
    by (simp add: shim_get_task_def node_service_def grpc_reply_def assms(1))
  have req: "result_request b3 io d1 (st_id ?t) r = ?req"
    using assms(3) result_request_of_task [of b3 io d1 ?t data files] by (auto simp: result_request_def)
  have np: "r \<noteq> Panicked m" for m using assms(3) by (auto simp: task_result_def)
  show ?thesis
    unfolding ns.shim_loop_task [where callback = callback, OF get assms(2) np] req
    by (simp add: node_service_def grpc_reply_def split: prod.split outcome.split)
qed

text \<open>The mount appears in the third pass.\<close>

theorem mount_wait_returns_witness:
  "\<exists>r. grpc_client_new (Inr ()) (\<lambda>i. (1000 * i, Inr [Some (if 2 \<le> i then ''tag /workspace 9p'' else ''proc'')]))
         ''/workspace'' = Some r \<and>
     (r = Done () \<longleftrightarrow>
        (\<exists>k. (\<forall>j<k. keeps_waiting (\<lambda>i. (1000 * i, Inr [Some (if 2 \<le> i then ''tag /workspace 9p'' else ''proc'')]))
                  ''/workspace'' j) \<and> fst (1000 * k, ()) \<le> MOUNT_TIMEOUT \<and>
             mount_present (Inr [Some (if 2 \<le> k then ''tag /workspace 9p'' else ''proc'')]) ''/workspace'' = Done True))"
  using mount_wait_returns [of "\<lambda>i. (1000 * i, Inr [Some (if 2 \<le> i then ''tag /workspace 9p'' else ''proc'')])" 31
      "''/workspace''"]
  by (simp add: MOUNT_TIMEOUT_def)

text \<open>The machine of the sample scheduler, with a program that writes a proof into its workspace.\<close>

definition sample_program :: program_function where
  "sample_program t d = (task_result t [1, 2] [''/workspace/proof''], hm_insert (components ''/workspace/proof'') [7] d)"

theorem machine_reports_its_task_witness:
  "\<exists>s s1. vm_get_task (sample_env 10) (Some (Some 4)) ''vsock'' sample_registry s =
           (Done (ResponseTask (grpc_of_task sample_crates sample_task)), s1) \<and>
     shim_loop (node_service (sample_env 10) (\<lambda>_. False) (Some (Some 4)) ''vsock'' sample_registry) id (\<lambda>_. None)
       sample_program [] s =
     (case vm_submit_result (sample_env 10) (\<lambda>_. False) (Some (Some 4)) ''vsock''
             \<lparr> trr_tx_hash = hash_display sample_crates (task_tx sample_task),
               trr_result = Some (ResultTask \<lparr> gr_data = [1, 2],
                 gr_files = [\<lparr> gf_path = ''/workspace/proof'', gf_checksum = [7] \<rparr>] \<rparr>) \<rparr> sample_registry s1 of
        (Done _, s2) \<Rightarrow> Some (Done (), [(components ''/workspace/proof'', [7])], s2)
      | (Failed e, s2) \<Rightarrow> Some (Failed e, [(components ''/workspace/proof'', [7])], s2)
      | (Panicked _, s2) \<Rightarrow> Some (Failed ''transport error'', [(components ''/workspace/proof'', [7])], s2))"
proof -
  obtain s where "run_iteration (sample_env 9) sample_scheduler = Some (Done (), s)"
    and q: "hm_get (ss_task_queue s) (sample_hash 1) = Some [(sample_task, 9)]" and r: "ss_running_tasks s = hm_empty"
    using sample_iteration by blast
  then obtain s1 where get: "vm_get_task (sample_env 10) (Some (Some 4)) ''vsock'' sample_registry s =
      (Done (ResponseTask (grpc_of_task sample_crates sample_task)), s1)"
    by (auto simp: vm_get_task_def sample_found_vm get_pending_task_def q r sample_env_def hm_empty_def hm_get_def)
  have rep: "ResultTask \<lparr> gr_data = [1, 2], gr_files = [\<lparr> gf_path = ''/workspace/proof'', gf_checksum = [7] \<rparr>] \<rparr>
      = report_of id (\<lambda>_. None) [(components ''/workspace/proof'', [7])] [''/workspace/proof''] [1, 2]"
    by (simp add: report_of_def fs_open_def fs_lookup_def hm_get_def)
  show ?thesis
    unfolding rep
    by (intro exI [of _ s] exI [of _ s1] conjI get)
      (subst machine_reports_its_task [OF get, of sample_program, OF _ disjI2 [OF conjI [OF refl refl]]],
       simp_all add: sample_program_def hmap_simps grpc_of_task_def)
qed

end
