(* ===== verification/Db_Tables.thy ===== *)
theory Db_Tables
  imports Workflow_Engine
begin

text \<open>
  The tables of the database, from the scripts in \<open>migrations\<close>, and the statements of
  \<open>storage/database/postgres.rs\<close> that write them. A table is the list of its rows. An insertion checks
  the column lengths, then the conflict clause, then the foreign keys, and fails as a whole. Hashes,
  keys and signatures are stored as the values that their text columns encode. The rows of a \<open>SELECT\<close>
  come in an order that the server is free to choose, and any statement can fail: both are the
  parameter \<open>pg\<close>.
\<close>

section \<open>The server\<close>

record pg =
  pg_fail :: "string \<Rightarrow> nat \<Rightarrow> string option"
  pg_scan :: "string \<Rightarrow> nat \<Rightarrow> nat list"

text \<open>A scan returns every row once.\<close>

definition pg_ok :: "pg \<Rightarrow> bool" where
  "pg_ok P \<longleftrightarrow> (\<forall>table n. mset (pg_scan P table n) = mset [0..<n])"

definition scan :: "pg \<Rightarrow> string \<Rightarrow> 'r list \<Rightarrow> 'r list" where
  "scan P table rows = map (\<lambda>i. rows ! i) (pg_scan P table (length rows))"

section \<open>Rows\<close>

datatype kind =
    KEmpty | KTransfer | KStake | KUnstake | KDeploy | KRun | KProof | KProofKey | KVerification | KCancel

record tx_row =
  tr_author :: public_key
  tr_hash :: hash
  tr_kind :: kind
  tr_nonce :: u64
  tr_signature :: signature
  tr_propagated :: bool
  tr_executed :: bool

record program_row =
  pr_hash :: hash
  pr_name :: string
  pr_image_file_name :: string
  pr_image_file_url :: string
  pr_image_file_checksum :: string

record requirements_row =
  rq_program_hash :: hash
  rq_memory :: int
  rq_cpus :: int
  rq_gpus :: int

record deploy_row =
  dr_tx :: hash
  dr_name :: string
  dr_prover :: hash
  dr_verifier :: hash

record step_row =
  sr_id :: nat
  sr_tx :: hash
  sr_sequence :: nat
  sr_program :: hash
  sr_args :: "string list"

record input_row =
  ir_step :: nat
  ir_file_name :: string
  ir_file_url :: string
  ir_checksum :: string

record output_row =
  or_step :: nat
  or_file_name :: string
  or_source_program :: hash

record result_row =
  rr_tx :: hash
  rr_parent :: hash
  rr_program :: hash
  rr_data :: "byte list"

record key_row =
  kr_tx :: hash
  kr_parent :: hash
  kr_key :: "byte list"

record file_row =
  fr_tx :: hash
  fr_file :: db_file

record database =
  db_transaction :: "tx_row list"
  db_program :: "program_row list"
  db_requirements :: "requirements_row list"
  db_deploy :: "deploy_row list"
  db_workflow_step :: "step_row list"
  db_input :: "input_row list"
  db_output :: "output_row list"
  db_proof :: "result_row list"
  db_verification :: "result_row list"
  db_proof_key :: "key_row list"
  db_txfile :: "file_row list"
  db_acl_whitelist :: "public_key list"
  db_next_step_id :: nat

definition database_empty :: database where
  "database_empty =
     \<lparr> db_transaction = [], db_program = [], db_requirements = [], db_deploy = [],
       db_workflow_step = [], db_input = [], db_output = [], db_proof = [], db_verification = [],
       db_proof_key = [], db_txfile = [], db_acl_whitelist = [], db_next_step_id = 1 \<rparr>"

definition has_tx :: "database \<Rightarrow> hash \<Rightarrow> bool" where
  "has_tx db h \<longleftrightarrow> h \<in> tr_hash ` set (db_transaction db)"

definition has_program :: "database \<Rightarrow> hash \<Rightarrow> bool" where
  "has_program db h \<longleftrightarrow> h \<in> pr_hash ` set (db_program db)"

section \<open>Conversions of the transaction row\<close>

definition kind_of_payload :: "payload \<Rightarrow> kind" where
  "kind_of_payload p =
     (case p of
        Empty \<Rightarrow> KEmpty
      | Transfer _ _ \<Rightarrow> KTransfer
      | Stake _ \<Rightarrow> KStake
      | Unstake _ \<Rightarrow> KUnstake
      | Deploy _ _ _ \<Rightarrow> KDeploy
      | Run _ \<Rightarrow> KRun
      | Proof _ _ _ _ \<Rightarrow> KProof
      | ProofKey _ _ \<Rightarrow> KProofKey
      | Verification _ _ _ _ \<Rightarrow> KVerification
      | Cancel _ \<Rightarrow> KCancel)"

definition row_of_tx :: "validated transaction \<Rightarrow> tx_row" where
  "row_of_tx tx =
     \<lparr> tr_author = tx_author tx, tr_hash = tx_hash tx, tr_kind = kind_of_payload (tx_payload tx),
       tr_nonce = tx_nonce tx, tr_signature = tx_signature tx, tr_propagated = tx_propagated tx,
       tr_executed = tx_executed tx \<rparr>"

definition tx_of_row :: "tx_row \<Rightarrow> validated transaction" where
  "tx_of_row r =
     \<lparr> tx_author = tr_author r, tx_hash = tr_hash r, tx_payload = Empty, tx_nonce = tr_nonce r,
       tx_signature = tr_signature r, tx_propagated = tr_propagated r, tx_executed = tr_executed r,
       tx_state = Validated \<rparr>"

section \<open>Writing statements\<close>

definition fits :: "nat \<Rightarrow> string \<Rightarrow> bool" where
  "fits n s \<longleftrightarrow> length s \<le> n"

text \<open>A statement that the server may refuse, and then one that may violate a constraint.\<close>

definition exec :: "pg \<Rightarrow> string \<Rightarrow> nat \<Rightarrow> (database \<Rightarrow> string + 'a) \<Rightarrow> database \<Rightarrow> string + 'a" where
  "exec P stmt i f db = (case pg_fail P stmt i of Some e \<Rightarrow> Inl e | None \<Rightarrow> f db)"

text \<open>A transaction that is already there only gets its flags updated.\<close>

definition set_flags :: "tx_row \<Rightarrow> tx_row \<Rightarrow> tx_row" where
  "set_flags r q =
     (if tr_hash q = tr_hash r
      then q\<lparr> tr_propagated := tr_propagated r, tr_executed := tr_executed r \<rparr> else q)"

definition insert_transaction :: "tx_row \<Rightarrow> database \<Rightarrow> string + database" where
  "insert_transaction r db =
     Inr (db\<lparr> db_transaction :=
        if has_tx db (tr_hash r) then map (set_flags r) (db_transaction db)
        else db_transaction db @ [r] \<rparr>)"

definition insert_program :: "program \<Rightarrow> database \<Rightarrow> string + database" where
  "insert_program p db =
     (if fits 128 (prg_name p) \<and> fits 256 (prg_image_file_name p) \<and> fits 1024 (prg_image_file_url p) \<and>
         fits 128 (prg_image_file_checksum p)
      then if has_program db (prg_hash p) then Inr db
           else Inr (db\<lparr> db_program := db_program db @
                  [\<lparr> pr_hash = prg_hash p, pr_name = prg_name p,
                     pr_image_file_name = prg_image_file_name p,
                     pr_image_file_url = prg_image_file_url p,
                     pr_image_file_checksum = prg_image_file_checksum p \<rparr>] \<rparr>)
      else Inl ''value too long'')"

definition insert_requirements :: "hash \<Rightarrow> resource_request \<Rightarrow> database \<Rightarrow> string + database" where
  "insert_requirements h r db =
     (if h \<in> rq_program_hash ` set (db_requirements db) then Inr db
      else if \<not> has_program db h then Inl ''fk_program_hash''
      else Inr (db\<lparr> db_requirements := db_requirements db @
             [\<lparr> rq_program_hash = h, rq_memory = sint (mem r), rq_cpus = sint (cpus r),
                rq_gpus = sint (gpus r) \<rparr>] \<rparr>))"

definition insert_deploy :: "hash \<Rightarrow> string \<Rightarrow> hash \<Rightarrow> hash \<Rightarrow> database \<Rightarrow> string + database" where
  "insert_deploy h name prover verifier db =
     (if \<not> fits 256 name then Inl ''value too long''
      else if h \<in> dr_tx ` set (db_deploy db) then Inr db
      else if \<not> has_tx db h then Inl ''fk_transaction''
      else if \<not> has_program db prover then Inl ''fk_prover''
      else if \<not> has_program db verifier then Inl ''fk_verifier''
      else Inr (db\<lparr> db_deploy := db_deploy db @
             [\<lparr> dr_tx = h, dr_name = name, dr_prover = prover, dr_verifier = verifier \<rparr>] \<rparr>))"

text \<open>
  The identifier of a step comes from a sequence that also advances when the row is already there;
  the statement returns the identifier of the row.
\<close>

definition insert_step :: "hash \<Rightarrow> nat \<Rightarrow> hash \<Rightarrow> string list \<Rightarrow> database \<Rightarrow> string + nat \<times> database" where
  "insert_step h sequence prog args db =
     (let i = db_next_step_id db; db1 = db\<lparr> db_next_step_id := i + 1 \<rparr>
      in if \<not> list_all (fits 512) args then Inl ''value too long''
         else case find (\<lambda>r. sr_tx r = h \<and> sr_sequence r = sequence) (db_workflow_step db) of
                Some r \<Rightarrow> Inr (sr_id r, db1)
              | None \<Rightarrow>
                  if \<not> has_tx db h then Inl ''fk_transaction''
                  else if \<not> has_program db prog then Inl ''fk_program''
                  else Inr (i, db1\<lparr> db_workflow_step := db_workflow_step db @
                         [\<lparr> sr_id = i, sr_tx = h, sr_sequence = sequence, sr_program = prog,
                            sr_args = args \<rparr>] \<rparr>))"

definition insert_input :: "nat \<Rightarrow> string \<Rightarrow> string \<Rightarrow> string \<Rightarrow> database \<Rightarrow> string + database" where
  "insert_input sid name url ck db =
     (if \<not> (fits 1024 name \<and> fits 4096 url \<and> fits 512 ck) then Inl ''value too long''
      else if list_ex (\<lambda>r. ir_step r = sid \<and> ir_file_name r = name) (db_input db) then Inr db
      else if sid \<notin> sr_id ` set (db_workflow_step db) then Inl ''fk_workflow_step''
      else Inr (db\<lparr> db_input := db_input db @
             [\<lparr> ir_step = sid, ir_file_name = name, ir_file_url = url, ir_checksum = ck \<rparr>] \<rparr>))"

definition insert_output :: "nat \<Rightarrow> string \<Rightarrow> hash \<Rightarrow> database \<Rightarrow> string + database" where
  "insert_output sid name src db =
     (if \<not> fits 1024 name then Inl ''value too long''
      else if list_ex (\<lambda>r. or_step r = sid \<and> or_file_name r = name) (db_output db) then Inr db
      else if sid \<notin> sr_id ` set (db_workflow_step db) then Inl ''fk_workflow_step''
      else if \<not> has_program db src then Inl ''fk_source_program''
      else Inr (db\<lparr> db_output := db_output db @
             [\<lparr> or_step = sid, or_file_name = name, or_source_program = src \<rparr>] \<rparr>))"

definition insert_proof :: "result_row \<Rightarrow> database \<Rightarrow> string + database" where
  "insert_proof r db =
     (if rr_tx r \<in> rr_tx ` set (db_proof db) then Inr db
      else if \<not> has_tx db (rr_tx r) then Inl ''fk_transaction1''
      else if \<not> has_tx db (rr_parent r) then Inl ''fk_transaction2''
      else if \<not> has_program db (rr_program r) then Inl ''fk_prover''
      else Inr (db\<lparr> db_proof := db_proof db @ [r] \<rparr>))"

definition insert_verification :: "result_row \<Rightarrow> database \<Rightarrow> string + database" where
  "insert_verification r db =
     (if rr_tx r \<in> rr_tx ` set (db_verification db) then Inr db
      else if \<not> has_tx db (rr_tx r) then Inl ''fk_transaction1''
      else if \<not> has_tx db (rr_parent r) then Inl ''fk_transaction2''
      else if \<not> has_program db (rr_program r) then Inl ''fk_verifier''
      else Inr (db\<lparr> db_verification := db_verification db @ [r] \<rparr>))"

definition insert_proof_key :: "key_row \<Rightarrow> database \<Rightarrow> string + database" where
  "insert_proof_key r db =
     (if kr_tx r \<in> kr_tx ` set (db_proof_key db) then Inr db
      else if \<not> has_tx db (kr_tx r) then Inl ''fk_transaction''
      else Inr (db\<lparr> db_proof_key := db_proof_key db @ [r] \<rparr>))"

text \<open>The files of a result, in one statement, without a conflict clause.\<close>

definition insert_files :: "hash \<Rightarrow> file_output tx_file list \<Rightarrow> database \<Rightarrow> string + database" where
  "insert_files h files db =
     (if \<not> list_all (\<lambda>f. fits 256 (tf_name f) \<and> fits 2048 (tf_url f)) files then Inl ''value too long''
      else if \<not> has_tx db h then Inl ''fk_tx''
      else Inr (db\<lparr> db_txfile := db_txfile db @
             map (\<lambda>f. \<lparr> fr_tx = h, fr_file = \<lparr> df_name = tf_name f, df_url = tf_url f,
                                             df_checksum = tf_checksum f \<rparr> \<rparr>) files \<rparr>))"

lemma set_flags_hash [simp]: "tr_hash (set_flags r q) = tr_hash q"
  by (simp add: set_flags_def)

lemma has_tx_update [simp]:
  "has_tx (db\<lparr> db_transaction := map (set_flags r) (db_transaction db) \<rparr>) h = has_tx db h"
  "has_tx (db\<lparr> db_transaction := db_transaction db @ [r] \<rparr>) h \<longleftrightarrow> h = tr_hash r \<or> has_tx db h"
  by (auto simp: has_tx_def image_image)

lemma has_update_simps [simp]:
  "has_tx (db\<lparr> db_program := v1 \<rparr>) = has_tx db"
  "has_tx (db\<lparr> db_requirements := v2 \<rparr>) = has_tx db"
  "has_tx (db\<lparr> db_deploy := v3 \<rparr>) = has_tx db"
  "has_tx (db\<lparr> db_workflow_step := v4 \<rparr>) = has_tx db"
  "has_tx (db\<lparr> db_input := v5 \<rparr>) = has_tx db"
  "has_tx (db\<lparr> db_output := v6 \<rparr>) = has_tx db"
  "has_tx (db\<lparr> db_proof := v7 \<rparr>) = has_tx db"
  "has_tx (db\<lparr> db_verification := v8 \<rparr>) = has_tx db"
  "has_tx (db\<lparr> db_proof_key := v9 \<rparr>) = has_tx db"
  "has_tx (db\<lparr> db_txfile := v10 \<rparr>) = has_tx db"
  "has_tx (db\<lparr> db_next_step_id := v11 \<rparr>) = has_tx db"
  "has_program (db\<lparr> db_transaction := w1 \<rparr>) = has_program db"
  "has_program (db\<lparr> db_requirements := v2 \<rparr>) = has_program db"
  "has_program (db\<lparr> db_deploy := v3 \<rparr>) = has_program db"
  "has_program (db\<lparr> db_workflow_step := v4 \<rparr>) = has_program db"
  "has_program (db\<lparr> db_input := v5 \<rparr>) = has_program db"
  "has_program (db\<lparr> db_output := v6 \<rparr>) = has_program db"
  "has_program (db\<lparr> db_proof := v7 \<rparr>) = has_program db"
  "has_program (db\<lparr> db_verification := v8 \<rparr>) = has_program db"
  "has_program (db\<lparr> db_proof_key := v9 \<rparr>) = has_program db"
  "has_program (db\<lparr> db_txfile := v10 \<rparr>) = has_program db"
  "has_program (db\<lparr> db_next_step_id := v11 \<rparr>) = has_program db"
  by (simp_all add: has_tx_def has_program_def fun_eq_iff)

lemma has_program_append [simp]:
  "has_program (db\<lparr> db_program := db_program db @ [r] \<rparr>) h \<longleftrightarrow> h = pr_hash r \<or> has_program db h"
  by (auto simp: has_program_def)

end
