(* ===== verification/Database.thy ===== *)
theory Database
  imports Db_Tables Mempool
begin

text \<open>
  The operations of \<open>storage/database/postgres.rs\<close>, and the storage traits of \<open>main.rs\<close> that the
  mempool, the validation and the workflow engine use it through. An operation runs in a server
  transaction: it returns the new contents when it commits and the old ones when a statement fails.
  \<open>add_program\<close> runs in a server transaction of its own even when it is called inside another. The
  sequence of step identifiers is part of the contents; a rollback resets it, which no operation can
  tell, since identifiers only need to be fresh.
\<close>

section \<open>Programs\<close>

definition ebind :: "'e + 'a \<Rightarrow> ('a \<Rightarrow> 'e + 'b) \<Rightarrow> 'e + 'b" where
  "ebind r f = (case r of Inl e \<Rightarrow> Inl e | Inr a \<Rightarrow> f a)"

lemma ebind_simps [simp]: "ebind (Inl e) f = Inl e" "ebind (Inr a) f = f a"
  by (simp_all add: ebind_def)

lemma ebind_eq_Inr: "ebind r f = Inr b \<longleftrightarrow> (\<exists>a. r = Inr a \<and> f a = Inr b)"
  by (cases r) simp_all

lemma exec_eq_Inr: "exec P stmt i f db = Inr a \<longleftrightarrow> pg_fail P stmt i = None \<and> f db = Inr a"
  by (simp add: exec_def split: option.split)

definition add_program :: "pg \<Rightarrow> nat \<Rightarrow> program \<Rightarrow> database \<Rightarrow> string + database" where
  "add_program P i p db =
     ebind (exec P ''begin program'' i Inr db) (\<lambda>db.
     ebind (exec P ''insert program'' i (insert_program p) db) (\<lambda>db.
     ebind (case prg_limits p of
              None \<Rightarrow> Inr db
            | Some r \<Rightarrow> exec P ''insert requirements'' i (insert_requirements (prg_hash p) r) db)
       (exec P ''commit program'' i Inr)))"

text \<open>
  Reading the requirements: the columns convert to unsigned numbers, and a missing or negative value
  makes the whole a missing one.
\<close>

definition limits_of_row :: "requirements_row \<Rightarrow> resource_request option" where
  "limits_of_row r =
     (if 0 \<le> rq_memory r \<and> 0 \<le> rq_cpus r \<and> 0 \<le> rq_gpus r
      then Some \<lparr> mem = word_of_int (rq_memory r), cpus = word_of_int (rq_cpus r),
                  gpus = word_of_int (rq_gpus r) \<rparr>
      else None)"

definition program_of_row :: "database \<Rightarrow> program_row \<Rightarrow> program" where
  "program_of_row db r =
     \<lparr> prg_hash = pr_hash r, prg_name = pr_name r, prg_image_file_name = pr_image_file_name r,
       prg_image_file_url = pr_image_file_url r, prg_image_file_checksum = pr_image_file_checksum r,
       prg_limits = (case find (\<lambda>q. rq_program_hash q = pr_hash r) (db_requirements db) of
                       None \<Rightarrow> None
                     | Some q \<Rightarrow> limits_of_row q) \<rparr>"

definition get_program :: "pg \<Rightarrow> hash \<Rightarrow> database \<Rightarrow> string + program" where
  "get_program P h db =
     exec P ''select program'' 0 (\<lambda>db.
       case find (\<lambda>r. pr_hash r = h) (db_program db) of
         None \<Rightarrow> Inl ''no rows returned''
       | Some r \<Rightarrow> Inr (program_of_row db r)) db"

definition find_program :: "pg \<Rightarrow> hash \<Rightarrow> database \<Rightarrow> string + program option" where
  "find_program P h db =
     exec P ''acquire'' 0 (\<lambda>db.
       Inr (case get_program P h db of Inl _ \<Rightarrow> None | Inr p \<Rightarrow> Some p)) db"

definition get_programs :: "pg \<Rightarrow> database \<Rightarrow> string + program list" where
  "get_programs P db =
     exec P ''select programs'' 0 (\<lambda>db. Inr (map (program_of_row db) (scan P ''program'' (db_program db)))) db"

section \<open>Writing a transaction\<close>

definition add_input :: "pg \<Rightarrow> nat \<Rightarrow> nat \<Rightarrow> program_data \<Rightarrow> database \<Rightarrow> string + database" where
  "add_input P sid i d db =
     (case d of
        Input name url ck \<Rightarrow> exec P ''insert input'' i (insert_input sid name url ck) db
      | OutputOf src name \<Rightarrow> exec P ''insert output'' i (insert_output sid name src) db)"

fun add_inputs :: "pg \<Rightarrow> nat \<Rightarrow> nat \<Rightarrow> program_data list \<Rightarrow> database \<Rightarrow> string + database" where
  "add_inputs P sid i [] db = Inr db"
| "add_inputs P sid i (d # ds) db = ebind (add_input P sid i d db) (add_inputs P sid (i + 1) ds)"

fun add_steps :: "pg \<Rightarrow> hash \<Rightarrow> nat \<Rightarrow> workflow_step list \<Rightarrow> database \<Rightarrow> string + database" where
  "add_steps P h sequence [] db = Inr db"
| "add_steps P h sequence (s # ss) db =
     ebind (exec P ''insert step'' sequence (insert_step h sequence (ws_program s) (ws_args s)) db)
       (\<lambda>(sid, db). ebind (add_inputs P sid 0 (ws_inputs s) db) (add_steps P h (sequence + 1) ss))"

definition add_files :: "pg \<Rightarrow> hash \<Rightarrow> file_output tx_file list \<Rightarrow> database \<Rightarrow> string + database" where
  "add_files P h files db =
     (if files = [] then Inr db else exec P ''insert files'' 0 (insert_files h files) db)"

text \<open>
  The payload other than a deployment, inside the server transaction.
\<close>

definition add_payload :: "pg \<Rightarrow> hash \<Rightarrow> payload \<Rightarrow> database \<Rightarrow> string + database" where
  "add_payload P h p db =
     (case p of
        Run w \<Rightarrow> add_steps P h 1 (steps w) db
      | Proof parent prover bs files \<Rightarrow>
          ebind (exec P ''insert proof'' 0 (insert_proof
                   \<lparr> rr_tx = h, rr_parent = parent, rr_program = prover, rr_data = bs \<rparr>) db)
            (add_files P h files)
      | ProofKey parent key \<Rightarrow>
          exec P ''insert proof_key'' 0 (insert_proof_key
            \<lparr> kr_tx = h, kr_parent = parent, kr_key = key \<rparr>) db
      | Verification parent verifier bs files \<Rightarrow>
          ebind (exec P ''insert verification'' 0 (insert_verification
                   \<lparr> rr_tx = h, rr_parent = parent, rr_program = verifier, rr_data = bs \<rparr>) db)
            (add_files P h files)
      | _ \<Rightarrow> Inr db)"

text \<open>
  The programs of a deployment are committed on their own; the surrounding server transaction sees
  them.
\<close>

definition sees_programs :: "database \<Rightarrow> database \<Rightarrow> database" where
  "sees_programs committed db =
     db\<lparr> db_program := db_program committed, db_requirements := db_requirements committed \<rparr>"

definition commit :: "pg \<Rightarrow> database \<Rightarrow> string + database \<Rightarrow> (string + unit) \<times> database" where
  "commit P committed r =
     (case ebind r (exec P ''commit'' 0 Inr) of
        Inl e \<Rightarrow> (Inl e, committed)
      | Inr db \<Rightarrow> (Inr (), db))"

definition add_deploy ::
  "pg \<Rightarrow> hash \<Rightarrow> string \<Rightarrow> program_metadata \<Rightarrow> program_metadata \<Rightarrow> database \<Rightarrow> database
     \<Rightarrow> (string + unit) \<times> database" where
  "add_deploy P h name prover verifier committed db =
     (case add_program P 0 (program_of_metadata prover) committed of
        Inl e \<Rightarrow> (Inl e, committed)
      | Inr committed1 \<Rightarrow>
          (case add_program P 1 (program_of_metadata verifier) committed1 of
             Inl e \<Rightarrow> (Inl e, committed1)
           | Inr committed2 \<Rightarrow>
               commit P committed2
                 (exec P ''insert deploy'' 0 (insert_deploy h name (pm_hash prover) (pm_hash verifier))
                    (sees_programs committed2 db))))"

definition add_transaction ::
  "pg \<Rightarrow> validated transaction \<Rightarrow> database \<Rightarrow> (string + unit) \<times> database" where
  "add_transaction P tx db =
     (case ebind (exec P ''begin'' 0 Inr db)
             (exec P ''insert transaction'' 0 (insert_transaction (row_of_tx tx))) of
        Inl e \<Rightarrow> (Inl e, db)
      | Inr db1 \<Rightarrow>
          (case tx_payload tx of
             Deploy name prover verifier \<Rightarrow> add_deploy P (tx_hash tx) name prover verifier db db1
           | p \<Rightarrow> commit P db (add_payload P (tx_hash tx) p db1)))"

definition mark_tx_executed :: "pg \<Rightarrow> hash \<Rightarrow> database \<Rightarrow> (string + unit) \<times> database" where
  "mark_tx_executed P h db =
     (case pg_fail P ''update transaction'' 0 of
        Some e \<Rightarrow> (Inl e, db)
      | None \<Rightarrow>
          (Inr (), db\<lparr> db_transaction :=
             map (\<lambda>r. if tr_hash r = h then r\<lparr> tr_executed := True \<rparr> else r) (db_transaction db) \<rparr>))"

section \<open>Reading a transaction\<close>

definition find_deploy :: "pg \<Rightarrow> hash \<Rightarrow> database \<Rightarrow> string + payload" where
  "find_deploy P h db =
     ebind (exec P ''select deploy'' 0 (\<lambda>db.
              case find (\<lambda>r. dr_tx r = h) (db_deploy db) of
                None \<Rightarrow> Inl ''no rows returned''
              | Some r \<Rightarrow> Inr r) db) (\<lambda>d.
     ebind (get_program P (dr_prover d) db) (\<lambda>prover.
     ebind (get_program P (dr_verifier d) db) (\<lambda>verifier.
     Inr (Deploy (dr_name d) (metadata_of_program prover) (metadata_of_program verifier)))))"

definition step_of_row :: "input_row list \<Rightarrow> output_row list \<Rightarrow> step_row \<Rightarrow> workflow_step" where
  "step_of_row ins outs s =
     \<lparr> ws_program = sr_program s, ws_args = sr_args s,
       ws_inputs =
         map (\<lambda>r. Input (ir_file_name r) (ir_file_url r) (ir_checksum r))
             (filter (\<lambda>r. ir_step r = sr_id s) ins) @
         map (\<lambda>r. OutputOf (or_source_program r) (or_file_name r))
             (filter (\<lambda>r. or_step r = sr_id s) outs) \<rparr>"

definition find_run :: "pg \<Rightarrow> hash \<Rightarrow> database \<Rightarrow> string + payload" where
  "find_run P h db =
     (let ids = sr_id ` set (filter (\<lambda>r. sr_tx r = h) (db_workflow_step db))
      in ebind (exec P ''select steps'' 0 (\<lambda>db.
              Inr (filter (\<lambda>r. sr_tx r = h) (scan P ''workflow_step'' (db_workflow_step db)))) db) (\<lambda>ss.
         ebind (exec P ''select inputs'' 0 (\<lambda>db.
              Inr (filter (\<lambda>r. ir_step r \<in> ids) (scan P ''program_input_data'' (db_input db)))) db) (\<lambda>ins.
         ebind (exec P ''select outputs'' 0 (\<lambda>db.
              Inr (filter (\<lambda>r. or_step r \<in> ids) (scan P ''program_output_data'' (db_output db)))) db) (\<lambda>outs.
         Inr (Run \<lparr> steps = map (step_of_row ins outs) ss \<rparr>)))))"

definition find_files :: "pg \<Rightarrow> hash \<Rightarrow> database \<Rightarrow> string + file_output tx_file list" where
  "find_files P h db =
     exec P ''select files'' 0 (\<lambda>db.
       Inr (map (tx_file_of_db \<circ> fr_file) (filter (\<lambda>r. fr_tx r = h) (scan P ''txfile'' (db_txfile db))))) db"

definition find_result :: "string \<Rightarrow> pg \<Rightarrow> result_row list \<Rightarrow> hash \<Rightarrow> database \<Rightarrow> string + result_row" where
  "find_result stmt P rows h db =
     exec P stmt 0 (\<lambda>db.
       case find (\<lambda>r. rr_tx r = h) rows of None \<Rightarrow> Inl ''no rows returned'' | Some r \<Rightarrow> Inr r) db"

definition find_payload :: "pg \<Rightarrow> hash \<Rightarrow> kind \<Rightarrow> database \<Rightarrow> string + payload" where
  "find_payload P h k db =
     (case k of
        KDeploy \<Rightarrow> find_deploy P h db
      | KRun \<Rightarrow> find_run P h db
      | KProof \<Rightarrow>
          ebind (find_files P h db) (\<lambda>files.
          ebind (find_result ''select proof'' P (db_proof db) h db) (\<lambda>r.
          Inr (Proof (rr_parent r) (rr_program r) (rr_data r) files)))
      | KProofKey \<Rightarrow>
          exec P ''select proof_key'' 0 (\<lambda>db.
            case find (\<lambda>r. kr_tx r = h) (db_proof_key db) of
              None \<Rightarrow> Inl ''no rows returned''
            | Some r \<Rightarrow> Inr (ProofKey (kr_parent r) (kr_key r))) db
      | KVerification \<Rightarrow>
          ebind (find_files P h db) (\<lambda>files.
          ebind (find_result ''select verification'' P (db_verification db) h db) (\<lambda>r.
          Inr (Verification (rr_parent r) (rr_program r) (rr_data r) files)))
      | _ \<Rightarrow> Inr Empty)"

definition find_transaction :: "pg \<Rightarrow> hash \<Rightarrow> database \<Rightarrow> string + validated transaction option" where
  "find_transaction P h db =
     ebind (exec P ''begin'' 0 Inr db) (\<lambda>db.
     ebind (exec P ''select transaction'' 0 (\<lambda>db.
              Inr (find (\<lambda>r. tr_hash r = h) (db_transaction db))) db) (\<lambda>entity.
     case entity of
       None \<Rightarrow> Inr None
     | Some r \<Rightarrow>
         ebind (find_payload P h (tr_kind r) db) (\<lambda>p.
         Inr (Some ((tx_of_row r)\<lparr> tx_payload := p \<rparr>)))))"

fun find_all :: "pg \<Rightarrow> hash list \<Rightarrow> database \<Rightarrow> string + validated transaction list" where
  "find_all P [] db = Inr []"
| "find_all P (h # hs) db =
     ebind (find_transaction P h db) (\<lambda>tx.
     ebind (find_all P hs db) (\<lambda>txs.
     Inr (case tx of None \<Rightarrow> txs | Some t \<Rightarrow> t # txs)))"

definition get_transactions :: "pg \<Rightarrow> database \<Rightarrow> string + validated transaction list" where
  "get_transactions P db =
     ebind (exec P ''begin'' 0 Inr db) (\<lambda>db.
     ebind (exec P ''select hashes'' 0 (\<lambda>db.
              Inr (map tr_hash (scan P ''transaction'' (db_transaction db)))) db) (\<lambda>refs.
     find_all P refs db))"

definition get_unexecuted_transactions :: "pg \<Rightarrow> database \<Rightarrow> string + validated transaction list" where
  "get_unexecuted_transactions P db =
     ebind (exec P ''begin'' 0 Inr db) (\<lambda>db.
     ebind (exec P ''select unexecuted'' 0 (\<lambda>db.
              Inr (map tr_hash (filter (\<lambda>r. \<not> tr_executed r)
                (scan P ''transaction'' (db_transaction db))))) db) (\<lambda>refs.
     find_all P refs db))"

section \<open>The transaction tree\<close>

definition tree_roots :: "hash \<Rightarrow> database \<Rightarrow> hash list" where
  "tree_roots h db =
     [tr_hash t. t \<leftarrow> db_transaction db, p \<leftarrow> db_proof db, v \<leftarrow> db_verification db,
        tr_hash t = rr_parent p \<and> rr_tx p = rr_parent v \<and> (tr_hash t = h \<or> rr_tx p = h \<or> rr_tx v = h)]"

definition tree_rows :: "hash \<Rightarrow> database \<Rightarrow> (hash \<times> hash option) list" where
  "tree_rows h db =
     (let roots = set (tree_roots h db);
          proofs = rr_tx ` set (filter (\<lambda>p. rr_parent p \<in> roots) (db_proof db))
      in remdups
          (map (\<lambda>r. (r, None)) (tree_roots h db) @
           [(tr_hash t, Some (rr_parent p)). t \<leftarrow> db_transaction db, p \<leftarrow> db_proof db,
              tr_hash t = rr_tx p \<and> rr_parent p \<in> roots] @
           [(tr_hash t, Some (rr_parent v)). t \<leftarrow> db_transaction db, v \<leftarrow> db_verification db,
              tr_hash t = rr_tx v \<and> rr_parent v \<in> proofs]))"

definition get_transaction_tree :: "pg \<Rightarrow> hash \<Rightarrow> database \<Rightarrow> string + (hash \<times> hash option) list" where
  "get_transaction_tree P h db =
     exec P ''select tree'' 0 (\<lambda>db. Inr (scan P ''tree'' (tree_rows h db))) db"

section \<open>The access list\<close>

definition get_acl_whitelist :: "pg \<Rightarrow> database \<Rightarrow> string + public_key list" where
  "get_acl_whitelist P db =
     exec P ''select acl'' 0 (\<lambda>db. Inr (scan P ''acl_whitelist'' (db_acl_whitelist db))) db"

definition acl_whitelist_has :: "pg \<Rightarrow> public_key \<Rightarrow> database \<Rightarrow> string + bool" where
  "acl_whitelist_has P k db = exec P ''select acl key'' 0 (\<lambda>db. Inr (k \<in> set (db_acl_whitelist db))) db"

definition acl_contains :: "pg \<Rightarrow> database \<Rightarrow> acl_whitelist" where
  "acl_contains P db k =
     (case acl_whitelist_has P k db of
        Inl e \<Rightarrow> Inl (AclInternalError (''Fail to query access list: '' @ e))
      | Inr b \<Rightarrow> Inr b)"

definition acl_grant :: "pg \<Rightarrow> nat \<Rightarrow> public_key \<Rightarrow> database \<Rightarrow> (string + unit) \<times> database" where
  "acl_grant P i k db =
     (case pg_fail P ''insert acl'' i of
        Some e \<Rightarrow> (Inl e, db)
      | None \<Rightarrow>
          (Inr (), if k \<in> set (db_acl_whitelist db) then db
                   else db\<lparr> db_acl_whitelist := db_acl_whitelist db @ [k] \<rparr>))"

definition acl_deny :: "pg \<Rightarrow> nat \<Rightarrow> public_key \<Rightarrow> database \<Rightarrow> (string + unit) \<times> database" where
  "acl_deny P i k db =
     (case pg_fail P ''delete acl'' i of
        Some e \<Rightarrow> (Inl e, db)
      | None \<Rightarrow> (Inr (), db\<lparr> db_acl_whitelist := removeAll k (db_acl_whitelist db) \<rparr>))"

section \<open>The storage traits\<close>

definition contains_program :: "pg \<Rightarrow> hash \<Rightarrow> database \<Rightarrow> string + bool" where
  "contains_program P h db = ebind (find_program P h db) (\<lambda>p. Inr (p \<noteq> None))"

definition database_validate_storage :: "pg \<Rightarrow> database \<Rightarrow> validate_storage" where
  "database_validate_storage P db =
     \<lparr> vs_get_tx = (\<lambda>h. find_transaction P h db), vs_contains_program = (\<lambda>h. contains_program P h db) \<rparr>"

definition database_tx_store :: "pg \<Rightarrow> database tx_store" where
  "database_tx_store P =
     \<lparr> ts_find = (\<lambda>db h. find_transaction P h db), ts_mark = mark_tx_executed P \<rparr>"

definition fill_deque ::
  "pg \<Rightarrow> validated transaction list \<Rightarrow> database \<Rightarrow> string + validated transaction list" where
  "fill_deque P deque db = ebind (get_unexecuted_transactions P db) (\<lambda>txs. Inr (deque @ txs))"

section \<open>What the statements change\<close>

lemmas insert_defs = insert_deploy_def insert_step_def insert_input_def insert_output_def
  insert_proof_def insert_verification_def insert_proof_key_def insert_files_def

lemmas written = ebind_eq_Inr exec_eq_Inr

lemma insert_keeps_transactions:
  "insert_deploy h n a b db = Inr db' \<Longrightarrow> db_transaction db' = db_transaction db"
  "insert_step h q a args db = Inr (i, db') \<Longrightarrow> db_transaction db' = db_transaction db"
  "insert_input sid n u k db = Inr db' \<Longrightarrow> db_transaction db' = db_transaction db"
  "insert_output sid n a db = Inr db' \<Longrightarrow> db_transaction db' = db_transaction db"
  "insert_proof r db = Inr db' \<Longrightarrow> db_transaction db' = db_transaction db"
  "insert_verification r db = Inr db' \<Longrightarrow> db_transaction db' = db_transaction db"
  "insert_proof_key kr db = Inr db' \<Longrightarrow> db_transaction db' = db_transaction db"
  "insert_files h fs db = Inr db' \<Longrightarrow> db_transaction db' = db_transaction db"
  by (auto simp: insert_defs Let_def split: if_splits option.splits)

lemma add_inputs_keeps: "add_inputs P sid i ds db = Inr db' \<Longrightarrow> db_transaction db' = db_transaction db"
proof (induction ds arbitrary: i db)
  case (Cons d ds)
  then show ?case
    by (cases d) (auto simp: written add_input_def dest: insert_keeps_transactions)
qed simp

lemma add_steps_keeps: "add_steps P h q ss db = Inr db' \<Longrightarrow> db_transaction db' = db_transaction db"
proof (induction ss arbitrary: q db)
  case (Cons s ss)
  then show ?case
    by (auto simp: written dest!: add_inputs_keeps insert_keeps_transactions)
qed simp

lemma add_payload_keeps: "add_payload P h p db = Inr db' \<Longrightarrow> db_transaction db' = db_transaction db"
  by (cases p) (auto simp: add_payload_def add_files_def written split: if_splits
      dest!: add_steps_keeps insert_keeps_transactions)

lemma add_program_keeps: "add_program P i p db = Inr db' \<Longrightarrow> db_transaction db' = db_transaction db"
  by (auto simp: add_program_def written insert_program_def insert_requirements_def
      split: if_splits option.splits)

lemma add_deploy_transactions:
  assumes "add_deploy P h name a b c db = (r, db')"
  shows "db_transaction db' = db_transaction (if isl r then c else db)"
  using assms
  by (auto simp: add_deploy_def commit_def written sees_programs_def split: sum.splits
      dest!: add_program_keeps insert_keeps_transactions)

lemma add_transaction_transactions:
  assumes "add_transaction P tx db = (r, db')"
  shows "if isl r then db_transaction db' = db_transaction db
         else insert_transaction (row_of_tx tx) db = Inr (db\<lparr> db_transaction := db_transaction db' \<rparr>)"
proof -
  have "if isl r then db_transaction db' = db_transaction db
        else \<exists>db1. insert_transaction (row_of_tx tx) db = Inr db1 \<and>
               db_transaction db' = db_transaction db1"
    using assms
    by (cases "tx_payload tx") (auto simp: add_transaction_def commit_def written
        split: sum.splits dest!: add_deploy_transactions add_payload_keeps)
  then show ?thesis by (auto simp: insert_transaction_def split: if_splits)
qed

section \<open>The contract towards the mempool\<close>

lemma insert_transaction_has:
  "insert_transaction r db = Inr db' \<Longrightarrow> has_tx db' h \<longleftrightarrow> h = tr_hash r \<or> has_tx db h"
  by (auto simp: insert_transaction_def split: if_splits)

lemma add_transaction_has:
  assumes "add_transaction P tx db = (r, db')"
  shows "has_tx db' h \<longleftrightarrow> \<not> isl r \<and> h = tx_hash tx \<or> has_tx db h"
proof (cases "isl r")
  case True
  then show ?thesis using add_transaction_transactions [OF assms] by (simp add: has_tx_def)
next
  case False
  then have "insert_transaction (row_of_tx tx) db = Inr (db\<lparr> db_transaction := db_transaction db' \<rparr>)"
    using add_transaction_transactions [OF assms] by simp
  from insert_transaction_has [OF this, of h] False show ?thesis
    by (simp add: has_tx_def row_of_tx_def)
qed

interpretation pgdb: tx_storage "add_transaction P" has_tx for P
proof
  show "add_transaction P tx s = (Inr (), s') \<Longrightarrow> has_tx s' (tx_hash tx)" for tx s s'
    by (simp add: add_transaction_has)
  show "add_transaction P tx s = (r, s') \<Longrightarrow> has_tx s h \<Longrightarrow> has_tx s' h" for tx s r s' h
    by (simp add: add_transaction_has)
qed

text \<open>
  The mempool over the database: after any sequence of insertions and removals, whatever
  statements fail in between, every transaction that the mempool still holds is a row of the
  database.
\<close>

theorem mempool_backed_by_database:
  "tx_hash ` set (mp_deque (pgdb.run_ops P ops (mempool_new db))) \<subseteq>
     {h. has_tx (mp_storage (pgdb.run_ops P ops (mempool_new db))) h}"
  using pgdb.mempool_ok_run_ops [OF pgdb.mempool_ok_new, of P ops db] by (auto simp: pgdb.mempool_ok_def)

section \<open>Failed writes\<close>

lemma insert_program_extends:
  assumes "insert_program p db = Inr db'"
  shows "\<exists>ps. db' = db\<lparr> db_program := db_program db @ ps \<rparr> \<and> pr_hash ` set ps \<subseteq> {prg_hash p} \<and>
           has_program db' (prg_hash p)"
proof (cases "has_program db (prg_hash p)")
  case True
  with assms show ?thesis by (intro exI [of _ "[]"]) (simp add: insert_program_def split: if_splits)
next
  case False
  with assms show ?thesis by (auto simp: insert_program_def has_program_def split: if_splits)
qed

lemma insert_requirements_extends:
  assumes "insert_requirements h r db = Inr db'"
  shows "\<exists>qs. db' = db\<lparr> db_requirements := db_requirements db @ qs \<rparr> \<and> rq_program_hash ` set qs \<subseteq> {h}"
proof (cases "h \<in> rq_program_hash ` set (db_requirements db)")
  case True
  with assms show ?thesis by (intro exI [of _ "[]"]) (simp add: insert_requirements_def)
next
  case False
  with assms show ?thesis by (auto simp: insert_requirements_def split: if_splits)
qed

lemma add_program_extends:
  assumes "add_program P i p db = Inr db'"
  shows "\<exists>ps qs. db' = db\<lparr> db_program := db_program db @ ps, db_requirements := db_requirements db @ qs \<rparr> \<and>
           pr_hash ` set ps \<subseteq> {prg_hash p} \<and> rq_program_hash ` set qs \<subseteq> {prg_hash p} \<and>
           has_program db' (prg_hash p)"
proof -
  obtain db1 where ins: "insert_program p db = Inr db1"
    and req: "case prg_limits p of None \<Rightarrow> db' = db1
              | Some r \<Rightarrow> insert_requirements (prg_hash p) r db1 = Inr db'"
    using assms by (auto simp: add_program_def written split: option.splits)
  obtain ps where ps: "db1 = db\<lparr> db_program := db_program db @ ps \<rparr>"
    "pr_hash ` set ps \<subseteq> {prg_hash p}" "has_program db1 (prg_hash p)"
    using insert_program_extends [OF ins] by blast
  obtain qs where "db' = db1\<lparr> db_requirements := db_requirements db1 @ qs \<rparr>"
    "rq_program_hash ` set qs \<subseteq> {prg_hash p}"
  proof (cases "prg_limits p")
    case None
    with req that [of "[]"] show ?thesis by simp
  next
    case (Some r)
    with req insert_requirements_extends that show ?thesis by fastforce
  qed
  with ps show ?thesis by (auto simp: has_program_def)
qed

text \<open>
  C35: A transaction whose write fails leaves no trace in the database, with one exception: the programs
  of a deployment that were written before the failure stay, since they are committed on their own.
\<close>

theorem failed_add_rolls_back:
  assumes "add_transaction P tx db = (Inl e, db')"
  shows "\<exists>ps qs. db' = db\<lparr> db_program := db_program db @ ps, db_requirements := db_requirements db @ qs \<rparr> \<and>
           pr_hash ` set ps \<subseteq> set (get_deploy_programs (tx_payload tx)) \<and>
           rq_program_hash ` set qs \<subseteq> set (get_deploy_programs (tx_payload tx))"
proof (cases "tx_payload tx")
  case (Deploy name a b)
  let ?P = "program_of_metadata"
  consider "db' = db" | c where "add_program P 0 (?P a) db = Inr c" "db' = c"
    | c where "add_program P 0 (?P a) db = Inr c" "add_program P 1 (?P b) c = Inr db'"
    using assms Deploy
    by (auto simp: add_transaction_def add_deploy_def commit_def written split: sum.splits)
  then show ?thesis
  proof cases
    case 1
    then show ?thesis by (intro exI [of _ "[]"]) simp
  next
    case 2
    with add_program_extends [OF 2(1)] Deploy show ?thesis
      by (fastforce simp: program_of_metadata_def)
  next
    case 3
    obtain ps qs where "c = db\<lparr> db_program := db_program db @ ps, db_requirements := db_requirements db @ qs \<rparr>"
      "pr_hash ` set ps \<subseteq> {pm_hash a}" "rq_program_hash ` set qs \<subseteq> {pm_hash a}"
      using add_program_extends [OF 3(1)] by (auto simp: program_of_metadata_def)
    moreover obtain ps' qs' where
      "db' = c\<lparr> db_program := db_program c @ ps', db_requirements := db_requirements c @ qs' \<rparr>"
      "pr_hash ` set ps' \<subseteq> {pm_hash b}" "rq_program_hash ` set qs' \<subseteq> {pm_hash b}"
      using add_program_extends [OF 3(2)] by (auto simp: program_of_metadata_def)
    ultimately show ?thesis
      by (intro exI [of _ "ps @ ps'"] exI [of _ "qs @ qs'"]) (auto simp: Deploy)
  qed
qed (use assms in \<open>auto simp: add_transaction_def commit_def written split: sum.splits
       intro!: exI [of _ "[]"]\<close>)

end
