(* ===== verification/Db_Roundtrip.thy ===== *)
theory Db_Roundtrip
  imports Database
begin

text \<open>
  Referential integrity of the database as an invariant of its operations, and the round trip of a
  transaction through it: what is found again, whatever order the server returns rows in.
\<close>

section \<open>Referential integrity\<close>

definition db_ok :: "database \<Rightarrow> bool" where
  "db_ok db \<longleftrightarrow>
     distinct (map tr_hash (db_transaction db)) \<and> distinct (map pr_hash (db_program db)) \<and>
     (\<forall>r\<in>set (db_requirements db). has_program db (rq_program_hash r)) \<and>
     (\<forall>r\<in>set (db_deploy db). has_tx db (dr_tx r) \<and> has_program db (dr_prover r) \<and> has_program db (dr_verifier r)) \<and>
     (\<forall>r\<in>set (db_workflow_step db). has_tx db (sr_tx r) \<and> has_program db (sr_program r) \<and>
        sr_id r < db_next_step_id db) \<and>
     (\<forall>r\<in>set (db_input db). ir_step r \<in> sr_id ` set (db_workflow_step db)) \<and>
     (\<forall>r\<in>set (db_output db). or_step r \<in> sr_id ` set (db_workflow_step db) \<and> has_program db (or_source_program r)) \<and>
     (\<forall>r\<in>set (db_proof db). has_tx db (rr_tx r) \<and> has_tx db (rr_parent r) \<and> has_program db (rr_program r)) \<and>
     (\<forall>r\<in>set (db_verification db). has_tx db (rr_tx r) \<and> has_tx db (rr_parent r) \<and> has_program db (rr_program r)) \<and>
     (\<forall>r\<in>set (db_proof_key db). has_tx db (kr_tx r)) \<and>
     (\<forall>r\<in>set (db_txfile db). has_tx db (fr_tx r))"

lemma db_ok_empty: "db_ok database_empty"
  by (simp add: db_ok_def database_empty_def)

lemma db_ok_insert_transaction:
  assumes "db_ok db" and "insert_transaction r db = Inr db'"
  shows "db_ok db'"
proof (cases "has_tx db (tr_hash r)")
  case True
  with assms(2) have "db' = db\<lparr> db_transaction := map (set_flags r) (db_transaction db) \<rparr>"
    by (simp add: insert_transaction_def)
  with assms(1) show ?thesis by (simp add: db_ok_def comp_def)
next
  case False
  with assms(2) have "db' = db\<lparr> db_transaction := db_transaction db @ [r] \<rparr>"
    by (simp add: insert_transaction_def)
  moreover have "distinct (map tr_hash (db_transaction db @ [r]))"
    using False assms(1) by (simp add: db_ok_def has_tx_def)
  ultimately show ?thesis using assms(1) by (simp add: db_ok_def)
qed

lemma db_ok_insert_program:
  assumes "db_ok db" and "insert_program p db = Inr db'"
  shows "db_ok db'"
proof (cases "has_program db (prg_hash p)")
  case False
  let ?r = "\<lparr> pr_hash = prg_hash p, pr_name = prg_name p, pr_image_file_name = prg_image_file_name p,
     pr_image_file_url = prg_image_file_url p, pr_image_file_checksum = prg_image_file_checksum p \<rparr>"
  from False assms(2) have "db' = db\<lparr> db_program := db_program db @ [?r] \<rparr>"
    by (simp add: insert_program_def split: if_splits)
  moreover have "distinct (map pr_hash (db_program db @ [?r]))"
    using False assms(1) by (simp add: db_ok_def has_program_def)
  ultimately show ?thesis using assms(1) by (simp add: db_ok_def)
qed (use assms in \<open>simp add: insert_program_def split: if_splits\<close>)

lemma db_ok_insert_requirements:
  "db_ok db \<Longrightarrow> insert_requirements h r db = Inr db' \<Longrightarrow> db_ok db'"
  by (clarsimp simp: insert_requirements_def split: if_splits) (simp add: db_ok_def)

lemma db_ok_insert_step:
  assumes "db_ok db" and "insert_step h q a args db = Inr (i, db')"
  shows "db_ok db'"
proof -
  let ?db1 = "db\<lparr> db_next_step_id := db_next_step_id db + 1 \<rparr>"
  have ok1: "db_ok ?db1" using assms(1) by (simp add: db_ok_def less_Suc_eq)
  consider "db' = ?db1"
    | "has_tx db h" "has_program db a" "db' = ?db1\<lparr> db_workflow_step := db_workflow_step db @
        [\<lparr> sr_id = db_next_step_id db, sr_tx = h, sr_sequence = q, sr_program = a, sr_args = args \<rparr>] \<rparr>"
    using assms(2) by (auto simp: insert_step_def Let_def split: if_splits option.splits)
  then show ?thesis
  proof cases
    case 2
    then show ?thesis using ok1 by (simp add: db_ok_def)
  qed (use ok1 in simp)
qed

lemma db_ok_insert_deploy: "db_ok db \<Longrightarrow> insert_deploy h n a b db = Inr db' \<Longrightarrow> db_ok db'"
  by (clarsimp simp: insert_deploy_def split: if_splits) (simp add: db_ok_def)

lemma db_ok_insert_input: "db_ok db \<Longrightarrow> insert_input sid n u k db = Inr db' \<Longrightarrow> db_ok db'"
  by (clarsimp simp: insert_input_def split: if_splits) (simp add: db_ok_def)

lemma db_ok_insert_output: "db_ok db \<Longrightarrow> insert_output sid n a db = Inr db' \<Longrightarrow> db_ok db'"
  by (clarsimp simp: insert_output_def split: if_splits) (simp add: db_ok_def)

lemma db_ok_insert_proof: "db_ok db \<Longrightarrow> insert_proof r db = Inr db' \<Longrightarrow> db_ok db'"
  by (clarsimp simp: insert_proof_def split: if_splits) (simp add: db_ok_def)

lemma db_ok_insert_verification: "db_ok db \<Longrightarrow> insert_verification r db = Inr db' \<Longrightarrow> db_ok db'"
  by (clarsimp simp: insert_verification_def split: if_splits) (simp add: db_ok_def)

lemma db_ok_insert_proof_key: "db_ok db \<Longrightarrow> insert_proof_key kr db = Inr db' \<Longrightarrow> db_ok db'"
  by (clarsimp simp: insert_proof_key_def split: if_splits) (simp add: db_ok_def)

lemma db_ok_insert_files: "db_ok db \<Longrightarrow> insert_files h fs db = Inr db' \<Longrightarrow> db_ok db'"
  by (clarsimp simp: insert_files_def split: if_splits) (auto simp: db_ok_def)

lemmas db_ok_insert = db_ok_insert_deploy db_ok_insert_input db_ok_insert_output db_ok_insert_proof
  db_ok_insert_verification db_ok_insert_proof_key db_ok_insert_files

lemma db_ok_add_program: "db_ok db \<Longrightarrow> add_program P i p db = Inr db' \<Longrightarrow> db_ok db'"
  by (auto simp: add_program_def written split: option.splits
      dest: db_ok_insert_program db_ok_insert_requirements)

lemma db_ok_add_inputs: "db_ok db \<Longrightarrow> add_inputs P sid i ds db = Inr db' \<Longrightarrow> db_ok db'"
proof (induction ds arbitrary: i db)
  case (Cons d ds)
  then show ?case
    by (cases d) (auto simp: written add_input_def dest: db_ok_insert)
qed simp

lemma db_ok_add_steps: "db_ok db \<Longrightarrow> add_steps P h q ss db = Inr db' \<Longrightarrow> db_ok db'"
proof (induction ss arbitrary: q db)
  case (Cons s ss)
  then show ?case
    by (auto simp: written) (meson db_ok_insert_step db_ok_add_inputs)
qed simp

lemma db_ok_add_payload: "db_ok db \<Longrightarrow> add_payload P h p db = Inr db' \<Longrightarrow> db_ok db'"
  by (cases p) (auto simp: add_payload_def add_files_def written split: if_splits
      dest: db_ok_add_steps db_ok_insert)

text \<open>The server transaction of a deployment and the committed contents it grows out of.\<close>

lemma db_ok_sees_programs:
  assumes "db_ok c" and "insert_transaction r c0 = Inr db"
    and "c = c0\<lparr> db_program := ps, db_requirements := qs \<rparr>"
  shows "db_ok (sees_programs c db)"
proof -
  have "insert_transaction r c = Inr (sees_programs c db)"
    using assms(2,3) by (auto simp: insert_transaction_def sees_programs_def has_tx_def)
  then show ?thesis using db_ok_insert_transaction [OF assms(1)] by blast
qed

lemma db_ok_add_deploy:
  assumes "db_ok c" and "insert_transaction r c = Inr db" and "add_deploy P h n a b c db = (x, db')"
  shows "db_ok db'"
proof (cases "add_program P 0 (program_of_metadata a) c")
  case (Inr c1)
  note ok1 = db_ok_add_program [OF assms(1) Inr]
  show ?thesis
  proof (cases "add_program P 1 (program_of_metadata b) c1")
    case (Inl e)
    with assms(3) Inr ok1 show ?thesis by (auto simp: add_deploy_def)
  next
    case (Inr c2)
    note ok2 = db_ok_add_program [OF ok1 Inr]
    obtain ps qs where "c2 = c\<lparr> db_program := ps, db_requirements := qs \<rparr>"
      using add_program_extends [OF \<open>add_program P 0 _ c = _\<close>] add_program_extends [OF Inr] by auto
    note ok3 = db_ok_sees_programs [OF ok2 assms(2) this]
    show ?thesis
      using assms(3) Inr \<open>add_program P 0 _ c = _\<close> ok2 db_ok_insert(1) [OF ok3]
      by (auto simp: add_deploy_def commit_def written split: sum.splits)
  qed
qed (use assms in \<open>auto simp: add_deploy_def\<close>)

lemma db_ok_add_transaction:
  assumes "db_ok db" and "add_transaction P tx db = (r, db')"
  shows "db_ok db'"
proof -
  have "insert_transaction (row_of_tx tx) db = Inr db1 \<Longrightarrow> db_ok db1" for db1
    using db_ok_insert_transaction [OF assms(1)] .
  then show ?thesis
    using assms
    by (cases "tx_payload tx") (auto simp: add_transaction_def commit_def written split: sum.splits
        dest: db_ok_add_deploy db_ok_add_payload)
qed


section \<open>Reading rows\<close>

lemma mset_scan: "pg_ok R \<Longrightarrow> mset (scan R t xs) = mset xs"
proof -
  assume "pg_ok R"
  then have "mset (scan R t xs) = image_mset (\<lambda>i. xs ! i) (mset [0..<length xs])"
    by (simp add: scan_def pg_ok_def)
  also have "\<dots> = mset (map (\<lambda>i. xs ! i) [0..<length xs])" by simp
  finally show ?thesis by (simp add: map_nth)
qed

lemma mset_filter_scan: "pg_ok R \<Longrightarrow> mset (filter Q (scan R t xs)) = mset (filter Q xs)"
  by (simp add: mset_scan)

lemma find_append: "find Q (xs @ ys) = (case find Q xs of None \<Rightarrow> find Q ys | Some x \<Rightarrow> Some x)"
  by (induction xs) simp_all

lemma find_None: "(\<And>x. x \<in> set xs \<Longrightarrow> \<not> Q x) \<Longrightarrow> find Q xs = None"
  by (simp add: find_None_iff)

text \<open>Before a transaction is stored, nothing in an intact database belongs to it.\<close>

lemma no_rows:
  assumes "db_ok db" and "\<not> has_tx db h"
  shows "r \<in> set (db_deploy db) \<Longrightarrow> dr_tx r \<noteq> h" "s \<in> set (db_workflow_step db) \<Longrightarrow> sr_tx s \<noteq> h"
    "p \<in> set (db_proof db) \<Longrightarrow> rr_tx p \<noteq> h" "v \<in> set (db_verification db) \<Longrightarrow> rr_tx v \<noteq> h"
    "k \<in> set (db_proof_key db) \<Longrightarrow> kr_tx k \<noteq> h" "f \<in> set (db_txfile db) \<Longrightarrow> fr_tx f \<noteq> h"
  using assms by (auto simp: db_ok_def)

section \<open>What is found again\<close>

text \<open>
  A payload and what is read back: the same up to the order of files, of steps and of the inputs
  of a step.
\<close>

definition step_content :: "workflow_step \<Rightarrow> hash \<times> string list \<times> program_data multiset" where
  "step_content s = (ws_program s, ws_args s, mset (ws_inputs s))"

definition same_payload :: "payload \<Rightarrow> payload \<Rightarrow> bool" where
  "same_payload p q \<longleftrightarrow>
     (case p of
        Run w \<Rightarrow>
          (case q of
             Run w' \<Rightarrow> image_mset step_content (mset (steps w)) = image_mset step_content (mset (steps w'))
           | _ \<Rightarrow> False)
      | Proof a b d fs \<Rightarrow>
          (case q of Proof a' b' d' fs' \<Rightarrow> a = a' \<and> b = b' \<and> d = d' \<and> mset fs = mset fs' | _ \<Rightarrow> False)
      | Verification a b d fs \<Rightarrow>
          (case q of
             Verification a' b' d' fs' \<Rightarrow> a = a' \<and> b = b' \<and> d = d' \<and> mset fs = mset fs'
           | _ \<Rightarrow> False)
      | _ \<Rightarrow> p = q)"

fun input_names :: "program_data list \<Rightarrow> string list" where
  "input_names [] = []"
| "input_names (Input n u k # ds) = n # input_names ds"
| "input_names (OutputOf src n # ds) = input_names ds"

fun output_names :: "program_data list \<Rightarrow> string list" where
  "output_names [] = []"
| "output_names (Input n u k # ds) = output_names ds"
| "output_names (OutputOf src n # ds) = n # output_names ds"

text \<open>
  What the tables can hold: within a step the names of the inputs, and those of the outputs it
  uses, differ; a deployment brings two programs that are not there yet, whose limits fit the
  signed columns. Transfers, stakes and cancellations are not stored.
\<close>

definition limits_fit :: "resource_request option \<Rightarrow> bool" where
  "limits_fit l =
     (case l of None \<Rightarrow> True
      | Some r \<Rightarrow> 0 \<le> sint (mem r) \<and> 0 \<le> sint (cpus r) \<and> 0 \<le> sint (gpus r))"

definition storable :: "database \<Rightarrow> payload \<Rightarrow> bool" where
  "storable db p =
     (case p of
        Run w \<Rightarrow> (\<forall>s\<in>set (steps w). distinct (input_names (ws_inputs s)) \<and>
                                    distinct (output_names (ws_inputs s)))
      | Deploy n a b \<Rightarrow> \<not> has_program db (pm_hash a) \<and> \<not> has_program db (pm_hash b) \<and>
                        pm_hash a \<noteq> pm_hash b \<and> limits_fit (pm_resource_requirements a) \<and>
                        limits_fit (pm_resource_requirements b)
      | Transfer _ _ \<Rightarrow> False
      | Stake _ \<Rightarrow> False
      | Unstake _ \<Rightarrow> False
      | Cancel _ \<Rightarrow> False
      | _ \<Rightarrow> True)"

fun in_rows :: "nat \<Rightarrow> program_data list \<Rightarrow> input_row list" where
  "in_rows i [] = []"
| "in_rows i (Input n u k # ds) =
     \<lparr> ir_step = i, ir_file_name = n, ir_file_url = u, ir_checksum = k \<rparr> # in_rows i ds"
| "in_rows i (OutputOf src n # ds) = in_rows i ds"

fun out_rows :: "nat \<Rightarrow> program_data list \<Rightarrow> output_row list" where
  "out_rows i [] = []"
| "out_rows i (Input n u k # ds) = out_rows i ds"
| "out_rows i (OutputOf src n # ds) =
     \<lparr> or_step = i, or_file_name = n, or_source_program = src \<rparr> # out_rows i ds"

lemma rows_back:
  "mset (map (\<lambda>r. Input (ir_file_name r) (ir_file_url r) (ir_checksum r)) (in_rows i ds)) +
   mset (map (\<lambda>r. OutputOf (or_source_program r) (or_file_name r)) (out_rows i ds)) = mset ds"
  by (induction i ds rule: in_rows.induct) simp_all

lemma rows_step:
  "\<forall>r\<in>set (in_rows i ds). ir_step r = i" "\<forall>r\<in>set (out_rows i ds). or_step r = i"
  by (induction i ds rule: in_rows.induct) simp_all

lemma add_inputs_rows:
  assumes "add_inputs P sid i ds db = Inr db'"
    and "distinct (input_names ds)" and "distinct (output_names ds)"
    and "\<forall>r\<in>set (db_input db). ir_step r = sid \<longrightarrow> ir_file_name r \<notin> set (input_names ds)"
    and "\<forall>r\<in>set (db_output db). or_step r = sid \<longrightarrow> or_file_name r \<notin> set (output_names ds)"
  shows "db' = db\<lparr> db_input := db_input db @ in_rows sid ds, db_output := db_output db @ out_rows sid ds \<rparr>"
  using assms
proof (induction ds arbitrary: i db)
  case (Cons d ds)
  then obtain db1 where one: "add_input P sid i d db = Inr db1"
    and rest: "add_inputs P sid (i + 1) ds db1 = Inr db'" by (auto simp: written)
  show ?case
  proof (cases d)
    case (Input n u k)
    have db1: "db1 = db\<lparr> db_input := db_input db @
        [\<lparr> ir_step = sid, ir_file_name = n, ir_file_url = u, ir_checksum = k \<rparr>] \<rparr>"
      using one Cons.prems(4) by (auto simp: Input add_input_def written insert_input_def list_ex_iff
          split: if_splits)
    have "db' = db1\<lparr> db_input := db_input db1 @ in_rows sid ds, db_output := db_output db1 @ out_rows sid ds \<rparr>"
      by (rule Cons.IH [OF rest]) (use Cons.prems in \<open>auto simp: Input db1\<close>)
    then show ?thesis by (simp add: Input db1)
  next
    case (OutputOf src n)
    have db1: "db1 = db\<lparr> db_output := db_output db @
        [\<lparr> or_step = sid, or_file_name = n, or_source_program = src \<rparr>] \<rparr>"
      using one Cons.prems(5) by (auto simp: OutputOf add_input_def written insert_output_def list_ex_iff
          split: if_splits)
    have "db' = db1\<lparr> db_input := db_input db1 @ in_rows sid ds, db_output := db_output db1 @ out_rows sid ds \<rparr>"
      by (rule Cons.IH [OF rest]) (use Cons.prems in \<open>auto simp: OutputOf db1\<close>)
    then show ?thesis by (simp add: OutputOf db1)
  qed
qed simp

text \<open>
  The steps of a workflow, row by row: each row has the program and the arguments of its step, and
  the input rows with its identifier are those of the step. Rows of older steps stay.
\<close>

definition step_stored :: "database \<Rightarrow> workflow_step \<Rightarrow> step_row \<Rightarrow> bool" where
  "step_stored db s r \<longleftrightarrow>
     sr_program r = ws_program s \<and> sr_args r = ws_args s \<and>
     filter (\<lambda>q. ir_step q = sr_id r) (db_input db) = in_rows (sr_id r) (ws_inputs s) \<and>
     filter (\<lambda>q. or_step q = sr_id r) (db_output db) = out_rows (sr_id r) (ws_inputs s)"

lemma filter_rows [simp]:
  "filter (\<lambda>q. ir_step q = j) (in_rows i ds) = (if i = j then in_rows i ds else [])"
  "filter (\<lambda>q. or_step q = j) (out_rows i ds) = (if i = j then out_rows i ds else [])"
  by (induction i ds rule: in_rows.induct) auto

lemma add_steps_rows:
  assumes "add_steps P h q ss db = Inr db'"
    and "\<forall>s\<in>set ss. distinct (input_names (ws_inputs s)) \<and> distinct (output_names (ws_inputs s))"
    and "db_ok db" and "\<forall>r\<in>set (db_workflow_step db). sr_tx r = h \<longrightarrow> sr_sequence r < q"
  shows "(\<exists>rows. filter (\<lambda>r. sr_tx r = h) (db_workflow_step db') =
             filter (\<lambda>r. sr_tx r = h) (db_workflow_step db) @ rows \<and>
             list_all2 (step_stored db') ss rows) \<and>
         (\<forall>i<db_next_step_id db.
            filter (\<lambda>q. ir_step q = i) (db_input db') = filter (\<lambda>q. ir_step q = i) (db_input db) \<and>
            filter (\<lambda>q. or_step q = i) (db_output db') = filter (\<lambda>q. or_step q = i) (db_output db)) \<and>
         db_next_step_id db \<le> db_next_step_id db'"
  using assms
proof (induction ss arbitrary: q db)
  case (Cons s ss)
  let ?i = "db_next_step_id db"
  let ?row = "\<lparr> sr_id = ?i, sr_tx = h, sr_sequence = q, sr_program = ws_program s, sr_args = ws_args s \<rparr>"
  obtain sid db1 db2 where step: "insert_step h q (ws_program s) (ws_args s) db = Inr (sid, db1)"
    and ins: "add_inputs P sid 0 (ws_inputs s) db1 = Inr db2"
    and rest: "add_steps P h (q + 1) ss db2 = Inr db'"
    using Cons.prems(1) by (auto simp: written)
  have "find (\<lambda>r. sr_tx r = h \<and> sr_sequence r = q) (db_workflow_step db) = None"
    using Cons.prems(4) by (auto simp: find_None_iff)
  then have sid: "sid = ?i" and db1: "db1 = db\<lparr> db_next_step_id := ?i + 1,
      db_workflow_step := db_workflow_step db @ [?row] \<rparr>"
    using step by (auto simp: insert_step_def Let_def split: if_splits)
  have fresh: "\<forall>r\<in>set (db_input db). ir_step r < ?i" "\<forall>r\<in>set (db_output db). or_step r < ?i"
    using Cons.prems(3) by (auto simp: db_ok_def)
  have db2: "db2 = db1\<lparr> db_input := db_input db @ in_rows ?i (ws_inputs s),
      db_output := db_output db @ out_rows ?i (ws_inputs s) \<rparr>"
    using add_inputs_rows [OF ins] Cons.prems(2) fresh by (fastforce simp: db1 sid)
  have ok2: "db_ok db2"
    using db_ok_add_inputs [OF db_ok_insert_step [OF Cons.prems(3) step] ins] .
  have "\<forall>r\<in>set (db_workflow_step db2). sr_tx r = h \<longrightarrow> sr_sequence r < q + 1"
    using Cons.prems(4) by (auto simp: db1 db2)
  note IH = Cons.IH [OF rest _ ok2 this]
  obtain rows where rows: "filter (\<lambda>r. sr_tx r = h) (db_workflow_step db') =
      filter (\<lambda>r. sr_tx r = h) (db_workflow_step db2) @ rows" "list_all2 (step_stored db') ss rows"
    using IH Cons.prems(2) by auto
  have none: "filter (\<lambda>q. ir_step q = ?i) (db_input db) = []" "filter (\<lambda>q. or_step q = ?i) (db_output db) = []"
    using fresh by (auto simp: filter_empty_conv)
  have "step_stored db' s ?row"
    using IH Cons.prems(2) by (simp add: step_stored_def db1 db2 none)
  moreover have "db_next_step_id db2 = ?i + 1" by (simp add: db1 db2)
  ultimately show ?case
    using rows IH Cons.prems(2) by (auto simp: db1 db2)
qed simp

lemma step_found:
  assumes "pg_ok R" and "step_stored db s r" and "sr_id r \<in> ids"
  shows "step_content (step_of_row (filter (\<lambda>q. ir_step q \<in> ids) (scan R t1 (db_input db)))
           (filter (\<lambda>q. or_step q \<in> ids) (scan R t2 (db_output db))) r) = step_content s"
proof -
  have "mset (filter (\<lambda>q. ir_step q = sr_id r) (filter (\<lambda>q. ir_step q \<in> ids) (scan R t1 (db_input db))))
      = mset (in_rows (sr_id r) (ws_inputs s))"
  proof -
    have "filter (\<lambda>q. ir_step q = sr_id r) (filter (\<lambda>q. ir_step q \<in> ids) (scan R t1 (db_input db)))
        = filter (\<lambda>q. ir_step q = sr_id r) (scan R t1 (db_input db))"
      using assms(3) by (auto simp: filter_filter intro!: filter_cong)
    with assms(2) show ?thesis by (simp only: mset_filter_scan [OF assms(1)] step_stored_def)
  qed
  moreover have "mset (filter (\<lambda>q. or_step q = sr_id r) (filter (\<lambda>q. or_step q \<in> ids) (scan R t2 (db_output db))))
      = mset (out_rows (sr_id r) (ws_inputs s))"
  proof -
    have "filter (\<lambda>q. or_step q = sr_id r) (filter (\<lambda>q. or_step q \<in> ids) (scan R t2 (db_output db)))
        = filter (\<lambda>q. or_step q = sr_id r) (scan R t2 (db_output db))"
      using assms(3) by (auto simp: filter_filter intro!: filter_cong)
    with assms(2) show ?thesis by (simp only: mset_filter_scan [OF assms(1)] step_stored_def)
  qed
  ultimately show ?thesis
    using assms(2) rows_back [of "sr_id r" "ws_inputs s"]
    by (simp add: step_content_def step_of_row_def step_stored_def mset_map)
qed

definition reads :: "pg \<Rightarrow> bool" where
  "reads R \<longleftrightarrow> pg_ok R \<and> (\<forall>stmt i. pg_fail R stmt i = None)"

lemma exec_reads [simp]: "reads R \<Longrightarrow> exec R stmt i f db = f db"
  by (simp add: exec_def reads_def)

lemma find_run_found:
  assumes "reads R" and "filter (\<lambda>r. sr_tx r = h) (db_workflow_step db) = rows"
    and "list_all2 (step_stored db) (steps w) rows"
  shows "\<exists>w'. find_run R h db = Inr (Run w') \<and> same_payload (Run w) (Run w')"
proof -
  let ?ids = "sr_id ` set rows"
  let ?f = "step_of_row (filter (\<lambda>q. ir_step q \<in> ?ids) (scan R ''program_input_data'' (db_input db)))
      (filter (\<lambda>q. or_step q \<in> ?ids) (scan R ''program_output_data'' (db_output db)))"
  have ok: "pg_ok R" using assms(1) by (simp add: reads_def)
  have "image_mset (step_content \<circ> ?f) (mset (filter (\<lambda>r. sr_tx r = h)
      (scan R ''workflow_step'' (db_workflow_step db)))) = image_mset (step_content \<circ> ?f) (mset rows)"
    by (simp only: mset_filter_scan [OF ok] assms(2))
  also have "\<dots> = mset (map (step_content \<circ> ?f) rows)" by simp
  also have "map (step_content \<circ> ?f) rows = map step_content (steps w)"
    using assms(3) step_found [OF ok]
    by (auto simp: list_all2_conv_all_nth intro!: nth_equalityI)
  finally show ?thesis
    using assms(1,2)
    by (auto simp: find_run_def Let_def same_payload_def multiset.map_comp comp_def)
qed

lemma files_found:
  assumes "reads R" and "filter (\<lambda>r. fr_tx r = h) (db_txfile db) =
      map (\<lambda>f. \<lparr> fr_tx = h, fr_file = \<lparr> df_name = tf_name f, df_url = tf_url f,
                                       df_checksum = tf_checksum f \<rparr> \<rparr>) files"
  shows "\<exists>fs. find_files R h db = Inr fs \<and> mset files = mset fs"
proof -
  have ok: "pg_ok R" using assms(1) by (simp add: reads_def)
  let ?g = "tx_file_of_db \<circ> fr_file"
  have id: "tx_file_of_db \<lparr> df_name = tf_name f, df_url = tf_url f, df_checksum = tf_checksum f \<rparr> = f"
    for f :: "file_output tx_file"
    by (cases "tf_extention f") (simp add: tx_file_of_db_def tx_file_new_def tx_file_build_def)
  have "mset (map ?g (filter (\<lambda>r. fr_tx r = h) (scan R ''txfile'' (db_txfile db))))
      = image_mset ?g (mset (filter (\<lambda>r. fr_tx r = h) (db_txfile db)))"
    by (simp only: mset_map mset_filter_scan [OF ok])
  also have "\<dots> = mset files" by (simp add: assms(2) multiset.map_comp comp_def id)
  finally show ?thesis using assms(1) by (simp add: find_files_def)
qed

section \<open>The round trip\<close>

lemma add_files_rows:
  assumes "add_files P h files db = Inr db'"
  shows "db' = db\<lparr> db_txfile := db_txfile db @ map (\<lambda>f. \<lparr> fr_tx = h, fr_file =
      \<lparr> df_name = tf_name f, df_url = tf_url f, df_checksum = tf_checksum f \<rparr> \<rparr>) files \<rparr>"
  using assms by (auto simp: add_files_def written insert_files_def split: if_splits)

lemma payload_found:
  assumes "db_ok db" and "\<not> has_tx db0 h" and "db = db0\<lparr> db_transaction := rows \<rparr>" and "db_ok db0"
    and "storable db0 p" and "\<And>n a b. p \<noteq> Deploy n a b"
    and "add_payload P h p db = Inr db'" and "reads R"
  shows "\<exists>p'. find_payload R h (kind_of_payload p) db' = Inr p' \<and> same_payload p p'"
proof -
  note none = no_rows [OF assms(4,2)]
  have old_files: "filter (\<lambda>r. fr_tx r = h) (db_txfile db) = []"
    using none(6) by (auto simp: filter_empty_conv assms(3))
  show ?thesis
  proof (cases p)
    case (Run w)
    have "\<forall>r\<in>set (db_workflow_step db). sr_tx r = h \<longrightarrow> sr_sequence r < 1"
      using none(2) by (auto simp: assms(3))
    moreover have "filter (\<lambda>r. sr_tx r = h) (db_workflow_step db) = []"
      using none(2) by (auto simp: filter_empty_conv assms(3))
    ultimately obtain rs where "filter (\<lambda>r. sr_tx r = h) (db_workflow_step db') = rs"
      "list_all2 (step_stored db') (steps w) rs"
      using add_steps_rows [of P h 1 "steps w" db db'] assms(1,5,7)
      by (auto simp: Run add_payload_def storable_def)
    from find_run_found [OF assms(8) this] show ?thesis
      by (auto simp: Run kind_of_payload_def find_payload_def)
  next
    case (Proof a b d fs)
    let ?r = "\<lparr> rr_tx = h, rr_parent = a, rr_program = b, rr_data = d \<rparr>"
    obtain db1 where ins: "insert_proof ?r db = Inr db1" and files: "add_files P h fs db1 = Inr db'"
      using assms(7) by (auto simp: Proof add_payload_def written)
    have db1: "db1 = db\<lparr> db_proof := db_proof db @ [?r] \<rparr>"
      using ins none(3) by (auto simp: insert_proof_def assms(3) split: if_splits)
    have "find (\<lambda>r. rr_tx r = h) (db_proof db) = None" using none(3) by (auto simp: find_None_iff assms(3))
    then show ?thesis
      using files_found [OF assms(8), of h db' fs] old_files assms(8)
      by (auto simp: Proof kind_of_payload_def find_payload_def add_files_rows [OF files] db1
          find_result_def find_append same_payload_def comp_def)
  next
    case (ProofKey a k)
    have "find (\<lambda>r. kr_tx r = h) (db_proof_key db) = None" using none(5) by (auto simp: find_None_iff assms(3))
    then show ?thesis
      using assms(7,8) none(5)
      by (auto simp: ProofKey kind_of_payload_def find_payload_def add_payload_def written
          insert_proof_key_def find_append same_payload_def assms(3) split: if_splits)
  next
    case (Verification a b d fs)
    let ?r = "\<lparr> rr_tx = h, rr_parent = a, rr_program = b, rr_data = d \<rparr>"
    obtain db1 where ins: "insert_verification ?r db = Inr db1" and files: "add_files P h fs db1 = Inr db'"
      using assms(7) by (auto simp: Verification add_payload_def written)
    have db1: "db1 = db\<lparr> db_verification := db_verification db @ [?r] \<rparr>"
      using ins none(4) by (auto simp: insert_verification_def assms(3) split: if_splits)
    have "find (\<lambda>r. rr_tx r = h) (db_verification db) = None"
      using none(4) by (auto simp: find_None_iff assms(3))
    then show ?thesis
      using files_found [OF assms(8), of h db' fs] old_files assms(8)
      by (auto simp: Verification kind_of_payload_def find_payload_def add_files_rows [OF files] db1
          find_result_def find_append same_payload_def comp_def)
  qed (use assms in \<open>auto simp: storable_def kind_of_payload_def find_payload_def same_payload_def\<close>)
qed

lemma limits_back: "limits_fit (Some r) \<Longrightarrow>
   limits_of_row \<lparr> rq_program_hash = h, rq_memory = sint (mem r), rq_cpus = sint (cpus r),
                    rq_gpus = sint (gpus r) \<rparr> = Some r"
  by (simp add: limits_fit_def limits_of_row_def)

lemma program_found:
  assumes "db_ok db" and "\<not> has_program db (prg_hash p)" and "limits_fit (prg_limits p)"
    and "add_program P i p db = Inr db'" and "reads R"
  shows "get_program R (prg_hash p) db' = Inr p"
proof -
  have "find (\<lambda>r. pr_hash r = prg_hash p) (db_program db) = None"
    using assms(2) by (force simp: find_None_iff has_program_def)
  moreover have "find (\<lambda>r. rq_program_hash r = prg_hash p) (db_requirements db) = None"
    using assms(1,2) by (auto simp: find_None_iff db_ok_def)
  moreover have "prg_hash p \<notin> rq_program_hash ` set (db_requirements db)"
    using assms(1,2) by (auto simp: db_ok_def)
  ultimately show ?thesis
    using assms(2-5) limits_back
    by (cases "prg_limits p") (auto simp: add_program_def written insert_program_def
        insert_requirements_def get_program_def program_of_row_def find_append split: if_splits)
qed

lemma other_program_found:
  assumes "add_program P i p db = Inr db'" and "h \<noteq> prg_hash p" and "reads R"
    and "get_program R h db = Inr x"
  shows "get_program R h db' = Inr x"
proof -
  obtain ps qs where db': "db' = db\<lparr> db_program := db_program db @ ps, db_requirements := db_requirements db @ qs \<rparr>"
    and "pr_hash ` set ps \<subseteq> {prg_hash p}" "rq_program_hash ` set qs \<subseteq> {prg_hash p}"
    using add_program_extends [OF assms(1)] by blast
  then have "find (\<lambda>r. rq_program_hash r = h) qs = None" using assms(2) by (auto simp: find_None_iff)
  moreover obtain r where r: "find (\<lambda>r. pr_hash r = h) (db_program db) = Some r"
    and x: "x = program_of_row db r"
    using assms(3,4) by (auto simp: get_program_def split: option.splits)
  moreover have "pr_hash r = h" using r by (auto simp: find_Some_iff)
  ultimately show ?thesis
    using assms(3) by (simp add: get_program_def db' find_append program_of_row_def split: option.split)
qed

lemma metadata_back [simp]: "metadata_of_program (program_of_metadata m) = m"
  by (simp add: metadata_of_program_def program_of_metadata_def)

lemma deploy_found:
  assumes "db_ok db" and "\<not> has_tx db h" and "storable db (Deploy n a b)"
    and "add_deploy P h n a b db (db\<lparr> db_transaction := rows \<rparr>) = (Inr (), db')" and "reads R"
  shows "find_deploy R h db' = Inr (Deploy n a b)"
proof -
  let ?a = "program_of_metadata a" and ?b = "program_of_metadata b"
  have ha: "prg_hash ?a = pm_hash a" "prg_hash ?b = pm_hash b"
    and la: "prg_limits ?a = pm_resource_requirements a" "prg_limits ?b = pm_resource_requirements b"
    by (simp_all add: program_of_metadata_def)
  obtain c1 c2 where 1: "add_program P 0 ?a db = Inr c1" and 2: "add_program P 1 ?b c1 = Inr c2"
    and ins: "insert_deploy h n (pm_hash a) (pm_hash b) (sees_programs c2 (db\<lparr> db_transaction := rows \<rparr>)) = Inr db'"
    using assms(4) by (auto simp: add_deploy_def commit_def written split: sum.splits)
  have a1: "get_program R (pm_hash a) c1 = Inr ?a"
    using program_found [OF assms(1) _ _ 1 assms(5)] assms(3) by (simp add: storable_def ha la)
  obtain ps where "db_program c1 = db_program db @ ps" "pr_hash ` set ps \<subseteq> {pm_hash a}"
    using add_program_extends [OF 1] by (auto simp: ha)
  then have "pm_hash b \<in> pr_hash ` set (db_program c1) \<Longrightarrow> pm_hash b \<in> pr_hash ` set (db_program db) \<or> pm_hash b = pm_hash a"
    by (auto simp: image_Un)
  then have "\<not> has_program c1 (pm_hash b)" using assms(3) by (auto simp: has_program_def storable_def)
  then have b2: "get_program R (pm_hash b) c2 = Inr ?b"
    using program_found [OF db_ok_add_program [OF assms(1) 1] _ _ 2 assms(5)] assms(3)
    by (simp add: storable_def ha la)
  have a2: "get_program R (pm_hash a) c2 = Inr ?a"
    using other_program_found [OF 2 _ assms(5) a1] assms(3) by (simp add: storable_def ha)
  have none: "find (\<lambda>r. dr_tx r = h) (db_deploy db) = None" "h \<notin> dr_tx ` set (db_deploy db)"
    using no_rows(1) [OF assms(1,2)] by (auto simp: find_None_iff)
  have db': "db_deploy db' = db_deploy db @ [\<lparr> dr_tx = h, dr_name = n, dr_prover = pm_hash a, dr_verifier = pm_hash b \<rparr>]"
    "db_program db' = db_program c2" "db_requirements db' = db_requirements c2"
    using ins none(2) by (auto simp: insert_deploy_def sees_programs_def split: if_splits)
  have "get_program R k db' = get_program R k c2" for k
    using assms(5) by (simp add: get_program_def db' program_of_row_def split: option.split)
  then show ?thesis using a2 b2 assms(5) by (simp add: find_deploy_def db' find_append none)
qed

lemma added_transaction_found:
  assumes "db_ok db" and "\<not> has_tx db (tx_hash tx)" and "storable db (tx_payload tx)"
    and "add_transaction P tx db = (Inr (), db')" and "reads R"
  shows "\<exists>p. find_transaction R (tx_hash tx) db' = Inr (Some (tx\<lparr> tx_payload := p \<rparr>)) \<and>
             same_payload (tx_payload tx) p"
proof -
  let ?h = "tx_hash tx" and ?db1 = "db\<lparr> db_transaction := db_transaction db @ [row_of_tx tx] \<rparr>"
  have ins: "insert_transaction (row_of_tx tx) db = Inr ?db1"
    using assms(2) by (simp add: insert_transaction_def row_of_tx_def)
  have ok1: "db_ok ?db1" by (rule db_ok_insert_transaction [OF assms(1) ins])
  have "find (\<lambda>r. tr_hash r = ?h) (db_transaction db) = None"
    using assms(2) by (force simp: find_None_iff has_tx_def)
  moreover have "db_transaction db' = db_transaction db @ [row_of_tx tx]"
    using add_transaction_transactions [OF assms(4)] ins by simp (metis database.select_convs(1) database.surjective database.update_convs(1))
  ultimately have row: "find (\<lambda>r. tr_hash r = ?h) (db_transaction db') = Some (row_of_tx tx)"
    by (simp add: find_append row_of_tx_def)
  have "\<exists>p. find_payload R ?h (kind_of_payload (tx_payload tx)) db' = Inr p \<and> same_payload (tx_payload tx) p"
  proof (cases "\<exists>n a b. tx_payload tx = Deploy n a b")
    case True
    then obtain n a b where p: "tx_payload tx = Deploy n a b" by blast
    have "add_deploy P ?h n a b db ?db1 = (Inr (), db')"
      using assms(4) by (auto simp: add_transaction_def p written ins split: sum.splits)
    from deploy_found [OF assms(1,2) _ this assms(5)] assms(3) show ?thesis
      by (simp add: p kind_of_payload_def find_payload_def same_payload_def)
  next
    case False
    then have "add_payload P ?h (tx_payload tx) ?db1 = Inr db'"
      using assms(4) by (cases "tx_payload tx")
        (auto simp: add_transaction_def commit_def written ins split: sum.splits)
    with False show ?thesis
      using payload_found [OF ok1 assms(2) refl assms(1,3) _ _ assms(5)] by blast
  qed
  moreover have "(tx_of_row (row_of_tx tx))\<lparr> tx_payload := p \<rparr> = tx\<lparr> tx_payload := p \<rparr>" for p
    by (cases "tx_state tx") (simp add: tx_of_row_def row_of_tx_def)
  ultimately show ?thesis
    using row assms(5) by (auto simp: find_transaction_def row_of_tx_def [of tx])
qed


definition pg_plain :: pg where
  "pg_plain = \<lparr> pg_fail = (\<lambda>_ _. None), pg_scan = (\<lambda>_ n. [0..<n]) \<rparr>"

definition pg_reversed :: pg where
  "pg_reversed = \<lparr> pg_fail = (\<lambda>_ _. None), pg_scan = (\<lambda>_ n. rev [0..<n]) \<rparr>"

lemma reads_samples: "reads pg_plain" "reads pg_reversed"
  by (simp_all add: reads_def pg_ok_def pg_plain_def pg_reversed_def)

definition sample_vt :: "byte \<Rightarrow> payload \<Rightarrow> validated transaction" where
  "sample_vt b p = validated_tx (ev_tx (sample_event b p))"

lemma sample_vt_simps [simp]: "tx_hash (sample_vt b p) = sample_hash b" "tx_payload (sample_vt b p) = p"
  by (simp_all add: sample_vt_def validated_tx_def)

definition sample_workflow :: workflow where
  "sample_workflow = \<lparr> steps = [\<lparr> ws_program = sample_hash 11, ws_args = [''-v''],
      ws_inputs = [Input ''a'' ''http://h/a'' ''00''] \<rparr>,
     \<lparr> ws_program = sample_hash 12, ws_args = [], ws_inputs = [OutputOf (sample_hash 11) ''proof''] \<rparr>] \<rparr>"

definition sample_deployed :: database where
  "sample_deployed = snd (add_transaction pg_plain
     (sample_vt 1 (Deploy [] (sample_metadata 11) (sample_metadata 12))) database_empty)"

definition sample_running :: database where
  "sample_running = snd (add_transaction pg_plain (sample_vt 2 (Run sample_workflow)) sample_deployed)"

lemmas db_eval = add_transaction_def add_deploy_def add_program_def add_payload_def add_files_def
  add_input_def commit_def sees_programs_def exec_def insert_transaction_def insert_program_def
  insert_requirements_def insert_defs row_of_tx_def has_tx_def has_program_def kind_of_payload_def
  program_of_metadata_def sample_metadata_def pg_plain_def fits_def Let_def

lemma sample_deployed_eval:
  "add_transaction pg_plain (sample_vt 1 (Deploy [] (sample_metadata 11) (sample_metadata 12)))
     database_empty = (Inr (), sample_deployed)"
  unfolding sample_deployed_def by (simp add: db_eval database_empty_def)

lemma sample_deployed_ok: "db_ok sample_deployed"
  by (rule db_ok_add_transaction [OF db_ok_empty sample_deployed_eval])

lemma sample_deployed_tables:
  "map tr_hash (db_transaction sample_deployed) = [sample_hash 1]"
  "map pr_hash (db_program sample_deployed) = [sample_hash 11, sample_hash 12]"
  "db_workflow_step sample_deployed = []" "db_input sample_deployed = []" "db_output sample_deployed = []"
  "db_next_step_id sample_deployed = 1" "db_txfile sample_deployed = []" "db_proof sample_deployed = []"
  unfolding sample_deployed_def by (simp_all add: db_eval database_empty_def)

lemma sample_deployed_has:
  "has_tx sample_deployed h \<longleftrightarrow> h = sample_hash 1"
  "has_program sample_deployed h \<longleftrightarrow> h = sample_hash 11 \<or> h = sample_hash 12"
proof -
  have "set (map tr_hash (db_transaction sample_deployed)) = {sample_hash 1}"
    "set (map pr_hash (db_program sample_deployed)) = {sample_hash 11, sample_hash 12}"
    by (simp_all only: sample_deployed_tables) auto
  then show "has_tx sample_deployed h \<longleftrightarrow> h = sample_hash 1"
    "has_program sample_deployed h \<longleftrightarrow> h = sample_hash 11 \<or> h = sample_hash 12"
    by (auto simp: has_tx_def has_program_def)
qed

lemmas run_eval = add_transaction_def add_payload_def add_input_def commit_def exec_def pg_plain_def
  insert_transaction_def insert_step_def insert_input_def insert_output_def row_of_tx_def
  sample_workflow_def sample_deployed_has sample_deployed_tables fits_def

lemma sample_running_eval:
  "add_transaction pg_plain (sample_vt 2 (Run sample_workflow)) sample_deployed = (Inr (), sample_running)"
  unfolding sample_running_def
  by (simp add: run_eval)



section \<open>What the tables lose\<close>

definition sample_proof_tx :: "validated transaction" where
  "sample_proof_tx = sample_vt 3 (Proof (sample_hash 2) (sample_hash 11) [7]
     [tx_file_new ''proof'' ''http://n'' (sample_hash 9)])"

definition sample_proved :: database where
  "sample_proved = snd (add_transaction pg_plain sample_proof_tx sample_running)"

lemma sample_running_tables:
  "db_transaction sample_running = db_transaction sample_deployed @ [row_of_tx (sample_vt 2 (Run sample_workflow))]"
  "db_workflow_step sample_running =
     [\<lparr> sr_id = 1, sr_tx = sample_hash 2, sr_sequence = 1, sr_program = sample_hash 11, sr_args = [''-v''] \<rparr>,
      \<lparr> sr_id = 2, sr_tx = sample_hash 2, sr_sequence = 2, sr_program = sample_hash 12, sr_args = [] \<rparr>]"
  "db_input sample_running =
     [\<lparr> ir_step = 1, ir_file_name = ''a'', ir_file_url = ''http://h/a'', ir_checksum = ''00'' \<rparr>]"
  "db_output sample_running = [\<lparr> or_step = 2, or_file_name = ''proof'', or_source_program = sample_hash 11 \<rparr>]"
  "db_program sample_running = db_program sample_deployed" "db_proof sample_running = []"
  "db_txfile sample_running = []"
  unfolding sample_running_def
  by (simp_all add: run_eval)

lemma sample_running_has:
  "has_tx sample_running h \<longleftrightarrow> h = sample_hash 1 \<or> h = sample_hash 2"
  "has_program sample_running h \<longleftrightarrow> h = sample_hash 11 \<or> h = sample_hash 12"
proof -
  show "has_tx sample_running h \<longleftrightarrow> h = sample_hash 1 \<or> h = sample_hash 2"
    using add_transaction_has [OF sample_running_eval, of h] by (auto simp: sample_deployed_has)
  show "has_program sample_running h \<longleftrightarrow> h = sample_hash 11 \<or> h = sample_hash 12"
    using sample_deployed_has(2) [of h] by (simp add: has_program_def sample_running_tables)
qed

lemmas proof_eval = add_transaction_def add_payload_def add_files_def commit_def exec_def pg_plain_def
  insert_transaction_def insert_proof_def insert_files_def fits_def tx_file_new_def tx_file_build_def
  row_of_tx_def sample_proof_tx_def

lemma sample_proved_tables:
  "db_transaction sample_proved = db_transaction sample_running @ [row_of_tx sample_proof_tx]"
  "db_workflow_step sample_proved = db_workflow_step sample_running"
  "db_input sample_proved = db_input sample_running" "db_output sample_proved = db_output sample_running"
  "db_proof sample_proved =
     [\<lparr> rr_tx = sample_hash 3, rr_parent = sample_hash 2, rr_program = sample_hash 11, rr_data = [7] \<rparr>]"
  "db_txfile sample_proved =
     [\<lparr> fr_tx = sample_hash 3, fr_file = \<lparr> df_name = ''proof'', df_url = ''http://n'',
        df_checksum = sample_hash 9 \<rparr> \<rparr>]"
  unfolding sample_proved_def
  by (simp_all add: proof_eval sample_running_has sample_running_tables(6,7))

definition steps_of :: "pg \<Rightarrow> workflow_step list" where
  "steps_of R = map (step_of_row (db_input sample_running) (db_output sample_running))
     (scan R ''workflow_step'' (db_workflow_step sample_running))"

lemma sample_find_payload:
  assumes "R = pg_plain \<or> R = pg_reversed"
  shows "find_run R (sample_hash 2) sample_proved = Inr (Run \<lparr> steps = steps_of R \<rparr>)"
    and "find_payload R (sample_hash 3) KProof sample_proved = Inr (tx_payload sample_proof_tx)"
  using assms
  by (auto simp: find_run_def steps_of_def scan_def pg_plain_def pg_reversed_def exec_def upt_rec
      sample_proved_tables sample_running_tables Let_def find_payload_def find_files_def
      find_result_def sample_proof_tx_def tx_file_of_db_def)

lemma sample_found:
  assumes "R = pg_plain \<or> R = pg_reversed"
  shows "find_transaction R (sample_hash 3) sample_proved = Inr (Some sample_proof_tx)"
    and "\<exists>tx. find_transaction R (sample_hash 2) sample_proved = Inr (Some tx) \<and>
             tx_payload tx = Run \<lparr> steps = steps_of R \<rparr>"
proof -
  have R: "reads R" using assms reads_samples by blast
  have "tr_hash r = sample_hash 1" if "r \<in> set (db_transaction sample_deployed)" for r
    using sample_deployed_has(1) [of "tr_hash r"] that by (auto simp: has_tx_def)
  then have "find (\<lambda>r. tr_hash r = sample_hash b) (db_transaction sample_deployed) = None" if "b \<noteq> 1" for b
    using that by (auto simp: find_None_iff)
  then have "find (\<lambda>r. tr_hash r = sample_hash 3) (db_transaction sample_proved) = Some (row_of_tx sample_proof_tx)"
    and "find (\<lambda>r. tr_hash r = sample_hash 2) (db_transaction sample_proved)
      = Some (row_of_tx (sample_vt 2 (Run sample_workflow)))"
    by (simp_all add: sample_proved_tables sample_running_tables find_append sample_proof_tx_def
        row_of_tx_def)
  moreover have "tr_kind (row_of_tx sample_proof_tx) = KProof"
    "tr_kind (row_of_tx (sample_vt 2 (Run sample_workflow))) = KRun"
    by (simp_all add: row_of_tx_def sample_proof_tx_def kind_of_payload_def)
  moreover have "(tx_of_row (row_of_tx sample_proof_tx))\<lparr> tx_payload := tx_payload sample_proof_tx \<rparr>
      = sample_proof_tx"
    by (cases "tx_state sample_proof_tx") (simp add: tx_of_row_def row_of_tx_def)
  ultimately show "find_transaction R (sample_hash 3) sample_proved = Inr (Some sample_proof_tx)"
    and "\<exists>tx. find_transaction R (sample_hash 2) sample_proved = Inr (Some tx) \<and>
             tx_payload tx = Run \<lparr> steps = steps_of R \<rparr>"
    using R sample_find_payload [OF assms]
    by (simp_all add: find_transaction_def) (simp add: find_payload_def)
qed

lemma sample_steps:
  "steps_of pg_plain = steps sample_workflow" "steps_of pg_reversed = rev (steps sample_workflow)"
  by (simp_all add: steps_of_def scan_def pg_plain_def pg_reversed_def sample_running_tables upt_rec
      step_of_row_def sample_workflow_def)

lemma sample_leads:
  assumes "R = pg_plain \<or> R = pg_reversed"
  shows "leads_to (ts_find (database_tx_store R) sample_proved) (tx_hash sample_proof_tx)
    \<lparr> steps = steps_of R \<rparr>"
proof -
  obtain tx where tx: "find_transaction R (sample_hash 2) sample_proved = Inr (Some tx)"
    "tx_payload tx = Run \<lparr> steps = steps_of R \<rparr>" using sample_found(2) [OF assms] by blast
  have "leads_to (ts_find (database_tx_store R) sample_proved) (sample_hash 2) \<lparr> steps = steps_of R \<rparr>"
    by (rule leads_to.at_run [OF _ tx(2)]) (simp add: database_tx_store_def tx(1))
  then show ?thesis
    by (rule leads_to.at_proof [rotated 2, where tx = sample_proof_tx and a = "sample_hash 11"
          and b = "[7]" and d = "[tx_file_new ''proof'' ''http://n'' (sample_hash 9)]"])
       (simp_all add: database_tx_store_def sample_found(1) [OF assms] sample_proof_tx_def)
qed

text \<open>
  The steps of a workflow are read back without an order, and what the node does next depends on
  it: for the same stored Run and Proof transactions, a server that returns the rows as they were
  written leads to the verification task of the second step, and one that returns them the other way
  round to the error of a missing step, so that the proof is never verified.
\<close>

theorem row_order_decides_verification:
  "(\<exists>t. next_task sample_crates (database_tx_store pg_plain) ''id'' sample_proof_tx sample_proved
         = Some (Done (Some t), sample_proved) \<and> task_program_id t = sample_hash 12) \<and>
   (\<exists>m. next_task sample_crates (database_tx_store pg_reversed) ''id'' sample_proof_tx sample_proved
         = Some (Failed (WorkflowStepMissing m), sample_proved)) \<and>
   reads pg_plain \<and> reads pg_reversed"
proof -
  have w: "workflow_for_transaction sample_crates (ts_find (database_tx_store R) sample_proved)
      (tx_hash sample_proof_tx) = Some (Inr (Some \<lparr> steps = steps_of R \<rparr>))"
    if "R = pg_plain \<or> R = pg_reversed" for R
    using leads_to_finds [OF sample_leads [OF that]] .
  show ?thesis
    using w [of pg_plain] w [of pg_reversed] reads_samples
    by (simp add: next_task_def sample_proof_tx_def sample_steps sample_workflow_def proof_task_def
        position_def index_or_panic_def workflow_step_to_task_def tx_file_new_def tx_file_build_def Let_def)
qed

text \<open>
  Storing a Proof transaction a second time doubles its files: the rows of every other table are
  keyed by the transaction, those of its files are not, and are added again.
\<close>

theorem second_add_doubles_files:
  assumes "tx_payload tx = Proof parent prover bs files" and "db_ok db" and "\<not> has_tx db (tx_hash tx)"
    and "add_transaction P tx db = (Inr (), db1)" and "add_transaction P tx db1 = (Inr (), db2)"
    and "reads R"
  shows "\<exists>fs. find_files R (tx_hash tx) db2 = Inr fs \<and> mset fs = mset files + mset files"
proof -
  let ?rows = "map (\<lambda>f. \<lparr> fr_tx = tx_hash tx, fr_file = \<lparr> df_name = tf_name f, df_url = tf_url f,
                                       df_checksum = tf_checksum f \<rparr> \<rparr>)"
  have grow: "db_txfile db' = db_txfile db @ ?rows files" if "add_transaction P tx db = (Inr (), db')" for db db'
    using that assms(1)
    by (auto simp: add_transaction_def add_payload_def commit_def written insert_transaction_def
        insert_proof_def split: sum.splits if_splits dest!: add_files_rows)
  have "filter (\<lambda>r. fr_tx r = tx_hash tx) (db_txfile db) = []"
    using assms(2,3) by (auto simp: db_ok_def filter_empty_conv)
  then have "filter (\<lambda>r. fr_tx r = tx_hash tx) (db_txfile db2) = ?rows (files @ files)"
    by (simp add: grow [OF assms(5)] grow [OF assms(4)] comp_def)
  from files_found [OF assms(6) this] show ?thesis by auto
qed

lemma sample_proved_eval: "add_transaction pg_plain sample_proof_tx sample_running = (Inr (), sample_proved)"
  unfolding sample_proved_def
  by (simp add: proof_eval sample_running_has sample_running_tables(6,7))

lemma sample_second_add:
  "\<exists>db. add_transaction pg_plain sample_proof_tx sample_proved = (Inr (), db)"
proof -
  have "has_tx sample_proved (sample_hash 3)" "has_tx sample_proved (sample_hash 2)"
    using add_transaction_has [OF sample_proved_eval] sample_running_has(1) by (auto simp: sample_proof_tx_def)
  moreover have "has_program sample_proved (sample_hash 11)"
    using sample_running_has(2) by (simp add: has_program_def sample_proved_def proof_eval sample_running_has sample_running_tables(6,7))
  ultimately show ?thesis
    by (simp add: proof_eval sample_proved_tables(5))
qed

theorem second_add_doubles_files_witness:
  "\<exists>fs. find_files pg_plain (sample_hash 3) (snd (add_transaction pg_plain sample_proof_tx sample_proved)) = Inr fs \<and>
     size (mset fs) = 2"
proof -
  have p: "tx_payload sample_proof_tx = Proof (sample_hash 2) (sample_hash 11) [7]
      [tx_file_new ''proof'' ''http://n'' (sample_hash 9)]" by (simp add: sample_proof_tx_def)
  have n: "\<not> has_tx sample_running (tx_hash sample_proof_tx)"
    by (simp add: sample_proof_tx_def sample_running_has)
  obtain db2 where d: "add_transaction pg_plain sample_proof_tx sample_proved = (Inr (), db2)"
    using sample_second_add ..
  have ok: "db_ok sample_running"
    using db_ok_add_transaction [OF sample_deployed_ok sample_running_eval] by simp
  have "\<exists>fs. find_files pg_plain (sample_hash 3) db2 = Inr fs \<and> size (mset fs) = 2"
    using second_add_doubles_files [OF p ok n sample_proved_eval d reads_samples(1)]
    by (auto simp: sample_proof_tx_def simp del: size_mset)
  with d show ?thesis by simp
qed

definition pg_no_deploy :: pg where
  "pg_no_deploy = pg_plain\<lparr> pg_fail := (\<lambda>stmt _. if stmt = ''insert deploy'' then Some ''gone'' else None) \<rparr>"

theorem failed_add_rolls_back_witness:
  "\<exists>ps qs. snd (add_transaction pg_no_deploy (sample_vt 1 (Deploy [] (sample_metadata 11) (sample_metadata 12)))
       database_empty) = database_empty\<lparr> db_program := ps, db_requirements := qs \<rparr> \<and>
     pr_hash ` set ps \<subseteq> {sample_hash 11, sample_hash 12}"
proof -
  let ?t = "sample_vt 1 (Deploy [] (sample_metadata 11) (sample_metadata 12))"
  have "fst (add_transaction pg_no_deploy ?t database_empty) = Inl ''gone''"
    by (simp add: db_eval pg_no_deploy_def pg_plain_def database_empty_def split: option.split)
  then have "add_transaction pg_no_deploy ?t database_empty
      = (Inl ''gone'', snd (add_transaction pg_no_deploy ?t database_empty))"
    by (metis prod.collapse)
  from failed_add_rolls_back [OF this] show ?thesis
    by (auto simp: database_empty_def sample_metadata_def)
qed

end
