(* ===== verification/Rpc_Server.thy ===== *)
theory Rpc_Server
  imports Db_Roundtrip
begin

text \<open>
  \<open>types/rpc.rs\<close> and \<open>rpc_server/mod.rs\<close>: what the JSON-RPC interface answers. The parameters of a
  request come as the result of parsing them. \<open>build_tx_tree\<close> recurses through the rows of the
  database without a measure of its own, so that it has the depth of the stack as fuel; the properties
  say which depth is enough.
\<close>

section \<open>Answers\<close>

datatype rpc_error =
    RpcNotFound string
  | RpcMissingTx string
  | RpcInvalidRequest string
  | RpcUnauthorized
  | RpcInternalError string

datatype 'a rpc_response = RpcOk 'a | RpcErr rpc_error

fun rpc_error_display :: "rpc_error \<Rightarrow> string" where
  "rpc_error_display (RpcNotFound s) = ''not found: '' @ s"
| "rpc_error_display (RpcMissingTx s) = ''A tx was missing: '' @ s"
| "rpc_error_display (RpcInvalidRequest s) = ''invalid request: '' @ s"
| "rpc_error_display RpcUnauthorized = ''unauthorized''"
| "rpc_error_display (RpcInternalError s) = ''InternalError: '' @ s"

fun rpc_response_result :: "'a rpc_response \<Rightarrow> string + 'a" where
  "rpc_response_result (RpcOk v) = Inr v"
| "rpc_response_result (RpcErr e) = Inl (''RPC response error:'' @ rpc_error_display e)"

record tx_output_file =
  tof_url :: string
  tof_checksum :: string
  tof_vm_path :: string

datatype tx_rpc_payload =
    RpcEmpty
  | RpcTransfer string string
  | RpcStake string
  | RpcUnstake string
  | RpcDeploy string program_metadata program_metadata
  | RpcRun workflow
  | RpcProof string string string "tx_output_file list"
  | RpcProofKey string string
  | RpcVerification string string string "tx_output_file list"
  | RpcCancel string

record rpc_transaction =
  rt_author :: string
  rt_hash :: string
  rt_payload :: tx_rpc_payload
  rt_nonce :: u64
  rt_signature :: string

text \<open>The libraries that only this interface uses: URLs, base64 and the decimal text of a big integer.\<close>

record rpc_crates =
  rc_crates :: crates
  rc_url :: "string \<Rightarrow> u16 \<Rightarrow> string \<Rightarrow> string"
  rc_base64 :: "byte list \<Rightarrow> string"
  rc_bigint :: "int \<Rightarrow> string"

definition tx_output_file_from_txfile ::
  "rpc_crates \<Rightarrow> file_output tx_file \<Rightarrow> hash \<Rightarrow> socket_addr \<Rightarrow> tx_output_file" where
  "tx_output_file_from_txfile rc f h host =
     \<lparr> tof_url = rc_url rc (sa_ip host) (sa_port host) (get_uri (into_download_file (rc_crates rc) f h)),
       tof_checksum = hash_display (rc_crates rc) (tf_checksum f), tof_vm_path = tf_name f \<rparr>"

definition convert_payload_ouput ::
  "rpc_crates \<Rightarrow> byte list \<Rightarrow> file_output tx_file list \<Rightarrow> hash \<Rightarrow> socket_addr \<Rightarrow> string \<times> tx_output_file list" where
  "convert_payload_ouput rc bs files h host =
     (rc_base64 rc bs, map (\<lambda>f. tx_output_file_from_txfile rc f h host) files)"

fun from_tx_payload :: "rpc_crates \<Rightarrow> payload \<Rightarrow> hash \<Rightarrow> socket_addr \<Rightarrow> tx_rpc_payload" where
  "from_tx_payload rc Empty h host = RpcEmpty"
| "from_tx_payload rc (Transfer to value) h host =
     RpcTransfer (hex_encode (rc_crates rc) (pk_serialize (rc_crates rc) to)) (rc_bigint rc value)"
| "from_tx_payload rc (Stake value) h host = RpcStake (rc_bigint rc value)"
| "from_tx_payload rc (Unstake value) h host = RpcUnstake (rc_bigint rc value)"
| "from_tx_payload rc (Deploy name prover verifier) h host = RpcDeploy name prover verifier"
| "from_tx_payload rc (Run w) h host = RpcRun w"
| "from_tx_payload rc (Proof parent prover bs files) h host =
     (case convert_payload_ouput rc bs files h host of
        (s, fs) \<Rightarrow> RpcProof (hash_display (rc_crates rc) parent) (hash_display (rc_crates rc) prover) s fs)"
| "from_tx_payload rc (ProofKey parent key) h host =
     RpcProofKey (hash_display (rc_crates rc) parent) (hex_encode (rc_crates rc) key)"
| "from_tx_payload rc (Verification parent verifier bs files) h host =
     (case convert_payload_ouput rc bs files h host of
        (s, fs) \<Rightarrow> RpcVerification (hash_display (rc_crates rc) parent) (hash_display (rc_crates rc) verifier) s fs)"
| "from_tx_payload rc (Cancel parent) h host = RpcCancel (hash_display (rc_crates rc) parent)"

definition from_tx_validated :: "rpc_crates \<Rightarrow> validated transaction \<Rightarrow> socket_addr \<Rightarrow> rpc_transaction" where
  "from_tx_validated rc tx host =
     \<lparr> rt_author = hex_encode (rc_crates rc) (pk_serialize (rc_crates rc) (tx_author tx)),
       rt_hash = hash_display (rc_crates rc) (tx_hash tx),
       rt_payload = from_tx_payload rc (tx_payload tx) (tx_hash tx) host, rt_nonce = tx_nonce tx,
       rt_signature = signature_display (rc_crates rc) (tx_signature tx) \<rparr>"

section \<open>Requests\<close>

text \<open>\<open>p2p_advertised_listen_addr.unwrap_or(p2p_listen_addr)\<close> with the download port.\<close>

definition local_http_host :: "socket_addr option \<Rightarrow> socket_addr \<Rightarrow> u16 \<Rightarrow> socket_addr" where
  "local_http_host advertised listen port =
     SocketAddr (sa_ip (case advertised of None \<Rightarrow> listen | Some a \<Rightarrow> a)) port"

definition send_transaction_logic ::
  "string + created transaction \<Rightarrow> callback \<Rightarrow> (mempool_error + unit) option \<Rightarrow> tx_channel
     \<Rightarrow> unit rpc_response \<times> tx_channel" where
  "send_transaction_logic params cb answer ch =
     (case params of
        Inl e \<Rightarrow> (RpcErr (RpcInvalidRequest e), ch)
      | Inr tx \<Rightarrow>
          (case rpc_send_tx cb tx ch of
             (Inl _, ch1) \<Rightarrow> (RpcErr (RpcInvalidRequest ''failed to persist transaction''), ch1)
           | (Inr _, ch1) \<Rightarrow>
               (case await_callback answer of
                  Inl _ \<Rightarrow> RpcErr (RpcInvalidRequest ''failed to persist transaction'')
                | Inr _ \<Rightarrow> RpcOk (), ch1)))"

definition get_transaction_logic ::
  "rpc_crates \<Rightarrow> string + hash \<Rightarrow> socket_addr \<Rightarrow> pg \<Rightarrow> database \<Rightarrow> rpc_transaction rpc_response" where
  "get_transaction_logic rc params host P db =
     (case params of
        Inl e \<Rightarrow> RpcErr (RpcInvalidRequest e)
      | Inr h \<Rightarrow>
          (case find_transaction P h db of
             Inl e \<Rightarrow> RpcErr (RpcInternalError e)
           | Inr None \<Rightarrow> RpcErr (RpcNotFound (hash_display (rc_crates rc) h))
           | Inr (Some tx) \<Rightarrow> RpcOk (from_tx_validated rc tx host)))"

section \<open>The transaction tree\<close>

datatype transaction_tree =
    TreeRoot "transaction_tree list" hash
  | TreeNode "transaction_tree list" hash
  | TreeLeaf hash

type_synonym tree_row = "hash \<times> hash option"

definition tree_elem :: "hash option \<Rightarrow> transaction_tree list \<Rightarrow> hash \<Rightarrow> transaction_tree" where
  "tree_elem parent children h =
     (if parent = None then TreeRoot children h
      else if children = [] then TreeLeaf h
      else TreeNode children h)"

fun build_tx_tree :: "nat \<Rightarrow> hash \<Rightarrow> tree_row list \<Rightarrow> (string, transaction_tree) outcome option" where
  "build_tx_tree 0 h txs = None"
| "build_tx_tree (Suc n) h txs =
     (case those (map (\<lambda>x. build_tx_tree n (fst x) txs) (filter (\<lambda>x. snd x = Some h) txs)) of
        None \<Rightarrow> None
      | Some rs \<Rightarrow>
          Some (obind (collect_outcome (\<lambda>r. r) rs) (\<lambda>children.
                obind (expect ''unwrap'' (find (\<lambda>x. fst x = h) txs)) (\<lambda>elem.
                Done (tree_elem (snd elem) children h)))))"

definition get_tx_tree_logic ::
  "crates \<Rightarrow> nat \<Rightarrow> string + hash \<Rightarrow> pg \<Rightarrow> database
     \<Rightarrow> (string, transaction_tree rpc_response) outcome option" where
  "get_tx_tree_logic c n params P db =
     (case params of
        Inl e \<Rightarrow> Some (Done (RpcErr (RpcInvalidRequest e)))
      | Inr h \<Rightarrow>
          (case get_transaction_tree P h db of
             Inl e \<Rightarrow> Some (Panicked ''get_transaction_tree'')
           | Inr txs \<Rightarrow>
               (case map fst (filter (\<lambda>x. snd x = None) txs) of
                  [] \<Rightarrow> Some (Done (RpcErr (RpcNotFound (''no root tx found for '' @ hash_display c h))))
                | [root] \<Rightarrow>
                    map_option (\<lambda>r. obind r (\<lambda>t. Done (RpcOk t))) (build_tx_tree n root txs)
                | _ \<Rightarrow> Some (Done (RpcErr (RpcInvalidRequest
                         (''more than one root elements found for '' @ hash_display c h)))))))"

section \<open>What the tree holds\<close>

fun tree_hash :: "transaction_tree \<Rightarrow> hash" where
  "tree_hash (TreeRoot ts h) = h"
| "tree_hash (TreeNode ts h) = h"
| "tree_hash (TreeLeaf h) = h"

fun tree_children :: "transaction_tree \<Rightarrow> transaction_tree list" where
  "tree_children (TreeRoot ts h) = ts"
| "tree_children (TreeNode ts h) = ts"
| "tree_children (TreeLeaf h) = []"

fun tree_hashes :: "transaction_tree \<Rightarrow> hash list" where
  "tree_hashes (TreeRoot ts h) = h # concat (map tree_hashes ts)"
| "tree_hashes (TreeNode ts h) = h # concat (map tree_hashes ts)"
| "tree_hashes (TreeLeaf h) = [h]"

lemma tree_elem_simps [simp]:
  "tree_hash (tree_elem p ts h) = h" "tree_children (tree_elem p ts h) = ts"
  "tree_hashes (tree_elem p ts h) = h # concat (map tree_hashes ts)"
  by (simp_all add: tree_elem_def)

definition child_hashes :: "tree_row list \<Rightarrow> hash \<Rightarrow> hash list" where
  "child_hashes txs h = map fst (filter (\<lambda>x. snd x = Some h) txs)"

definition child_of :: "tree_row list \<Rightarrow> (hash \<times> hash) set" where
  "child_of txs = {(p, x). (x, Some p) \<in> set txs}"

lemma set_child_hashes: "set (child_hashes txs h) = {x. (h, x) \<in> child_of txs}"
  by (force simp: child_hashes_def child_of_def)

lemma those_collect:
  "(\<exists>rs. those (map f xs) = Some rs \<and> collect_outcome (\<lambda>r. r) rs = Done ts) \<longleftrightarrow>
   list_all2 (\<lambda>x t. f x = Some (Done t)) xs ts"
proof (induction xs arbitrary: ts)
  case (Cons x xs)
  have "(\<exists>rs. those (map f (x # xs)) = Some rs \<and> collect_outcome (\<lambda>r. r) rs = Done ts) \<longleftrightarrow>
      (\<exists>t us. f x = Some (Done t) \<and> ts = t # us \<and>
         (\<exists>rs. those (map f xs) = Some rs \<and> collect_outcome (\<lambda>r. r) rs = Done us))"
    by (auto simp: outcome_simps split: option.splits)
  then show ?case by (auto simp: Cons list_all2_Cons1)
qed auto

lemma find_key: "find (\<lambda>x. fst x = h) txs = Some e \<Longrightarrow> e = (h, snd e)"
  by (induction txs) (auto split: if_splits)

lemma find_key_present: "h \<in> fst ` set txs \<Longrightarrow> \<exists>p. find (\<lambda>x. fst x = h) txs = Some (h, p)"
  by (induction txs) auto

lemma build_tx_tree_Suc:
  "build_tx_tree (Suc n) h txs = Some (Done t) \<longleftrightarrow>
     (\<exists>ts p. list_all2 (\<lambda>x t. build_tx_tree n x txs = Some (Done t)) (child_hashes txs h) ts \<and>
        find (\<lambda>x. fst x = h) txs = Some (h, p) \<and> t = tree_elem p ts h)"
proof -
  have "build_tx_tree (Suc n) h txs = Some (Done t) \<longleftrightarrow>
      (\<exists>ts. (\<exists>rs. those (map (\<lambda>x. build_tx_tree n x txs) (child_hashes txs h)) = Some rs \<and>
               collect_outcome (\<lambda>r. r) rs = Done ts) \<and>
         (\<exists>e. find (\<lambda>x. fst x = h) txs = Some e \<and> t = tree_elem (snd e) ts h))"
    by (auto simp: child_hashes_def comp_def outcome_simps split: option.splits)
  then show ?thesis unfolding those_collect using find_key [of h txs] by (metis snd_conv)
qed

lemma list_all2_tree:
  assumes "list_all2 (\<lambda>x t. tree_hash t = x \<and> set (tree_hashes t) = f x) xs ts"
  shows "map tree_hash ts = xs" and "(\<Union>t\<in>set ts. set (tree_hashes t)) = (\<Union>x\<in>set xs. f x)"
  using assms by (induction rule: list_all2_induct) auto

lemma rtrancl_children: "{y. (h, y) \<in> r\<^sup>*} = insert h (\<Union>x\<in>{x. (h, x) \<in> r}. {y. (x, y) \<in> r\<^sup>*})"
  by (auto elim: converse_rtranclE intro: converse_rtrancl_into_rtrancl)

lemma build_tx_tree_set:
  assumes "build_tx_tree n h txs = Some (Done t)"
  shows "tree_hash t = h \<and> set (tree_hashes t) = {x. (h, x) \<in> (child_of txs)\<^sup>*}"
  using assms
proof (induction n arbitrary: h t)
  case (Suc n)
  then obtain ts p where ts: "list_all2 (\<lambda>x t. build_tx_tree n x txs = Some (Done t)) (child_hashes txs h) ts"
    and t: "t = tree_elem p ts h" unfolding build_tx_tree_Suc by blast
  have "list_all2 (\<lambda>x t. tree_hash t = x \<and> set (tree_hashes t) = {y. (x, y) \<in> (child_of txs)\<^sup>*})
      (child_hashes txs h) ts"
    using ts by (rule list_all2_mono) (rule Suc.IH)
  from list_all2_tree(2) [OF this] show ?case
    by (subst rtrancl_children) (simp add: t set_child_hashes)
qed simp

text \<open>Enough depth: the parents come earlier in some rank that the rows do not exceed.\<close>

definition ranked_rows :: "(hash \<Rightarrow> nat) \<Rightarrow> nat \<Rightarrow> tree_row list \<Rightarrow> bool" where
  "ranked_rows rank d txs \<longleftrightarrow> (\<forall>x p. (x, Some p) \<in> set txs \<longrightarrow> rank p < rank x \<and> rank x \<le> d)"

lemma build_tx_tree_returns:
  assumes "ranked_rows rank d txs"
  shows "h \<in> fst ` set txs \<Longrightarrow> rank h \<le> d \<Longrightarrow> d < n + rank h \<Longrightarrow> \<exists>t. build_tx_tree n h txs = Some (Done t)"
proof (induction n arbitrary: h)
  case (Suc n)
  have kid: "\<exists>t. build_tx_tree n x txs = Some (Done t)" if "x \<in> set (child_hashes txs h)" for x
  proof (rule Suc.IH)
    have row: "(x, Some h) \<in> set txs" using that by (simp add: set_child_hashes child_of_def)
    then show "x \<in> fst ` set txs" by force
    show "rank x \<le> d" "d < n + rank x"
      using assms row Suc.prems(3) by (fastforce simp: ranked_rows_def)+
  qed
  then obtain f where "build_tx_tree n x txs = Some (Done (f x))" if "x \<in> set (child_hashes txs h)" for x
    by metis
  then have "list_all2 (\<lambda>x t. build_tx_tree n x txs = Some (Done t)) (child_hashes txs h) (map f (child_hashes txs h))"
    by (simp add: list_all2_map2 list_all2_same)
  moreover obtain p where "find (\<lambda>x. fst x = h) txs = Some (h, p)"
    using find_key_present [OF Suc.prems(1)] by blast
  ultimately show ?case unfolding build_tx_tree_Suc by blast
qed simp

lemma build_tx_tree_fuel:
  "build_tx_tree n h txs = Some (Done t) \<Longrightarrow> n \<le> m \<Longrightarrow> build_tx_tree m h txs = Some (Done t)"
proof (induction n arbitrary: h t m)
  case (Suc n)
  obtain k where m: "m = Suc k" "n \<le> k" using Suc.prems(2) by (cases m) auto
  obtain ts p where ts: "list_all2 (\<lambda>x t. build_tx_tree n x txs = Some (Done t)) (child_hashes txs h) ts"
    and "find (\<lambda>x. fst x = h) txs = Some (h, p)" "t = tree_elem p ts h"
    using Suc.prems(1) unfolding build_tx_tree_Suc by blast
  moreover have "list_all2 (\<lambda>x t. build_tx_tree k x txs = Some (Done t)) (child_hashes txs h) ts"
    using ts by (rule list_all2_mono) (rule Suc.IH [OF _ m(2)])
  ultimately show ?case unfolding m(1) build_tx_tree_Suc by (intro exI [of _ ts] exI [of _ p]) simp
qed simp

lemma list_all2_distinct:
  assumes "list_all2 (\<lambda>x t. distinct (tree_hashes t) \<and> set (tree_hashes t) = f x) xs ts" and "distinct xs"
    and "\<And>x y. x \<in> set xs \<Longrightarrow> y \<in> set xs \<Longrightarrow> x \<noteq> y \<Longrightarrow> f x \<inter> f y = {}"
  shows "distinct (concat (map tree_hashes ts)) \<and> set (concat (map tree_hashes ts)) = (\<Union>x\<in>set xs. f x)"
  using assms
proof (induction rule: list_all2_induct)
  case (Cons x xs t ts)
  then have "f x \<inter> (\<Union>y\<in>set xs. f y) = {}" by fastforce
  with Cons show ?case by simp
qed simp

lemma ranked_rtrancl:
  assumes "ranked_rows rank d txs" and "(x, y) \<in> (child_of txs)\<^sup>*"
  shows "rank x \<le> rank y"
  using assms(2)
proof (induction rule: rtrancl_induct)
  case (step y z)
  then show ?case using assms(1) by (fastforce simp: ranked_rows_def child_of_def)
qed simp

lemma siblings_apart:
  assumes ranked: "ranked_rows rank d txs" and uniq: "distinct (map fst txs)"
    and a: "(h, a) \<in> child_of txs" and b: "(h, b) \<in> child_of txs" and "a \<noteq> b"
  shows "(a, b) \<notin> (child_of txs)\<^sup>*"
proof
  assume "(a, b) \<in> (child_of txs)\<^sup>*"
  with \<open>a \<noteq> b\<close> obtain q where q: "(a, q) \<in> (child_of txs)\<^sup>*" "(q, b) \<in> child_of txs"
    by (metis rtranclE)
  have "q = h" using q(2) b uniq eq_key_imp_eq_value [of txs b "Some q" "Some h"]
    by (auto simp: child_of_def)
  with q(1) ranked_rtrancl [OF ranked] have "rank a \<le> rank h" by blast
  moreover have "rank h < rank a" using a ranked by (simp add: child_of_def ranked_rows_def)
  ultimately show False by simp
qed

lemma subtrees_apart:
  assumes ranked: "ranked_rows rank d txs" and uniq: "distinct (map fst txs)"
    and "(h, a) \<in> child_of txs" and "(h, b) \<in> child_of txs" and "a \<noteq> b"
  shows "{y. (a, y) \<in> (child_of txs)\<^sup>*} \<inter> {y. (b, y) \<in> (child_of txs)\<^sup>*} = {}"
proof -
  have "single_valued ((child_of txs)\<inverse>)"
    using uniq eq_key_imp_eq_value [of txs] by (auto simp: single_valued_def child_of_def)
  from single_valued_confluent [OF this] have "(a, b) \<in> (child_of txs)\<^sup>* \<or> (b, a) \<in> (child_of txs)\<^sup>*"
    if "(a, y) \<in> (child_of txs)\<^sup>*" "(b, y) \<in> (child_of txs)\<^sup>*" for y
    using that by (auto simp: rtrancl_converse)
  then show ?thesis using siblings_apart [OF ranked uniq] assms(3-5) by blast
qed

lemma build_tx_tree_distinct:
  assumes ranked: "ranked_rows rank d txs" and uniq: "distinct (map fst txs)"
  shows "build_tx_tree n h txs = Some (Done t) \<Longrightarrow> distinct (tree_hashes t)"
proof (induction n arbitrary: h t)
  case (Suc n)
  let ?f = "\<lambda>x. {y. (x, y) \<in> (child_of txs)\<^sup>*}"
  obtain ts p where ts: "list_all2 (\<lambda>x t. build_tx_tree n x txs = Some (Done t)) (child_hashes txs h) ts"
    and t: "t = tree_elem p ts h" using Suc.prems unfolding build_tx_tree_Suc by blast
  have "list_all2 (\<lambda>x t. distinct (tree_hashes t) \<and> set (tree_hashes t) = ?f x) (child_hashes txs h) ts"
    using ts by (rule list_all2_mono) (simp add: Suc.IH build_tx_tree_set)
  moreover have "distinct (child_hashes txs h)"
    using uniq by (auto simp: child_hashes_def distinct_map intro: inj_on_subset)
  moreover have "?f x \<inter> ?f y = {}" if "x \<in> set (child_hashes txs h)" "y \<in> set (child_hashes txs h)" "x \<noteq> y" for x y
    using that by (intro subtrees_apart [OF ranked uniq]) (simp_all add: set_child_hashes)
  ultimately have "distinct (concat (map tree_hashes ts)) \<and>
      set (concat (map tree_hashes ts)) = (\<Union>x\<in>set (child_hashes txs h). ?f x)"
    by (rule list_all2_distinct)
  moreover have "h \<notin> ?f x" if "x \<in> set (child_hashes txs h)" for x
  proof
    assume "h \<in> ?f x"
    with ranked_rtrancl [OF ranked] have "rank x \<le> rank h" by blast
    moreover have "rank h < rank x"
      using that ranked by (simp add: set_child_hashes child_of_def ranked_rows_def)
    ultimately show False by simp
  qed
  ultimately show ?case by (auto simp: t)
qed simp

section \<open>The tree of the stored transactions\<close>

definition kind_at :: "database \<Rightarrow> hash \<Rightarrow> kind option" where
  "kind_at db h = map_option tr_kind (find (\<lambda>r. tr_hash r = h) (db_transaction db))"

text \<open>Proofs answer Run transactions and verifications answer proofs, one row for each.\<close>

definition chained :: "database \<Rightarrow> bool" where
  "chained db \<longleftrightarrow>
     (\<forall>p\<in>set (db_proof db). kind_at db (rr_tx p) = Some KProof \<and> kind_at db (rr_parent p) = Some KRun) \<and>
     (\<forall>v\<in>set (db_verification db). kind_at db (rr_tx v) = Some KVerification \<and>
        kind_at db (rr_parent v) = Some KProof) \<and>
     distinct (map rr_tx (db_proof db)) \<and> distinct (map rr_tx (db_verification db))"

lemma tree_roots_iff:
  assumes "db_ok db"
  shows "r \<in> set (tree_roots h db) \<longleftrightarrow>
    (\<exists>p\<in>set (db_proof db). \<exists>v\<in>set (db_verification db). rr_parent p = r \<and> rr_tx p = rr_parent v \<and>
       h \<in> {r, rr_tx p, rr_tx v})"
proof
  show "\<exists>p\<in>set (db_proof db). \<exists>v\<in>set (db_verification db). rr_parent p = r \<and> rr_tx p = rr_parent v \<and>
      h \<in> {r, rr_tx p, rr_tx v}" if "r \<in> set (tree_roots h db)"
    using that unfolding tree_roots_def by auto
next
  assume "\<exists>p\<in>set (db_proof db). \<exists>v\<in>set (db_verification db). rr_parent p = r \<and> rr_tx p = rr_parent v \<and>
      h \<in> {r, rr_tx p, rr_tx v}"
  then obtain p v where pv: "p \<in> set (db_proof db)" "v \<in> set (db_verification db)" "rr_parent p = r"
    "rr_tx p = rr_parent v" "h = r \<or> rr_tx p = h \<or> rr_tx v = h" by blast
  then have "has_tx db r" using assms by (auto simp: db_ok_def)
  then obtain t where t: "t \<in> set (db_transaction db)" "tr_hash t = r" by (auto simp: has_tx_def)
  have "v \<in> set (filter (\<lambda>v. tr_hash t = rr_parent p \<and> rr_tx p = rr_parent v \<and>
      (tr_hash t = h \<or> rr_tx p = h \<or> rr_tx v = h)) (db_verification db))" using pv t by auto
  with pv(1) t show "r \<in> set (tree_roots h db)" unfolding tree_roots_def by fastforce
qed

lemma result_row_eq:
  "distinct (map rr_tx rows) \<Longrightarrow> p \<in> set rows \<Longrightarrow> q \<in> set rows \<Longrightarrow> rr_tx p = rr_tx q \<Longrightarrow> p = q"
  by (meson distinct_map inj_onD)

lemma tree_root_unique:
  assumes "db_ok db" and "chained db" and "r \<in> set (tree_roots h db)" and "r' \<in> set (tree_roots h db)"
  shows "r' = r"
proof -
  obtain p v where p: "p \<in> set (db_proof db)" "v \<in> set (db_verification db)" "rr_parent p = r"
    "rr_tx p = rr_parent v" "h \<in> {r, rr_tx p, rr_tx v}"
    using assms(3) unfolding tree_roots_iff [OF assms(1)] by blast
  obtain p' v' where p': "p' \<in> set (db_proof db)" "v' \<in> set (db_verification db)" "rr_parent p' = r'"
    "rr_tx p' = rr_parent v'" "h \<in> {r', rr_tx p', rr_tx v'}"
    using assms(4) unfolding tree_roots_iff [OF assms(1)] by blast
  have k: "kind_at db r = Some KRun" "kind_at db r' = Some KRun" "kind_at db (rr_tx p) = Some KProof"
    "kind_at db (rr_tx p') = Some KProof" "kind_at db (rr_tx v) = Some KVerification"
    "kind_at db (rr_tx v') = Some KVerification"
    using assms(2) p p' by (auto simp: chained_def)
  consider "h = r" | "h = rr_tx p" | "h = rr_tx v" using p(5) by blast
  then show ?thesis
  proof cases
    case 1
    then show ?thesis using k p'(5) by auto
  next
    case 2
    then have "rr_tx p' = rr_tx p" using k p'(5) by auto
    then show ?thesis using result_row_eq [OF _ p'(1) p(1)] assms(2) p(3) p'(3) by (auto simp: chained_def)
  next
    case 3
    then have "rr_tx v' = rr_tx v" using k p'(5) by auto
    then have "v' = v" using result_row_eq [OF _ p'(2) p(2)] assms(2) by (auto simp: chained_def)
    then have "p' = p" using result_row_eq [OF _ p'(1) p(1)] assms(2) p(4) p'(4) by (auto simp: chained_def)
    then show ?thesis using p(3) p'(3) by simp
  qed
qed

lemma join_rows:
  assumes "\<And>p. p \<in> set ps \<Longrightarrow> rr_tx p \<in> tr_hash ` set ts"
  shows "set [(tr_hash t, Some (rr_parent p)). t \<leftarrow> ts, p \<leftarrow> ps, tr_hash t = rr_tx p \<and> Q p]
    = {(rr_tx p, Some (rr_parent p)) |p. p \<in> set ps \<and> Q p}" (is "?L = ?R")
proof
  show "?L \<subseteq> ?R" by auto
  show "?R \<subseteq> ?L"
  proof clarify
    fix p assume p: "p \<in> set ps" "Q p"
    then obtain t where t: "t \<in> set ts" "rr_tx p = tr_hash t" using assms by blast
    have "(rr_tx p, Some (rr_parent p)) \<in>
        set (if tr_hash t = rr_tx p \<and> Q p then [(tr_hash t, Some (rr_parent p))] else [])" using p t by simp
    with p(1) t(1) show "(rr_tx p, Some (rr_parent p)) \<in> ?L"
      unfolding set_concat set_map UN_iff image_image by blast
  qed
qed

lemma tree_rows_set:
  assumes "db_ok db"
  shows "set (tree_rows h db) = (\<lambda>r. (r, None)) ` set (tree_roots h db) \<union>
    {(rr_tx p, Some (rr_parent p)) |p. p \<in> set (db_proof db) \<and> rr_parent p \<in> set (tree_roots h db)} \<union>
    {(rr_tx v, Some (rr_parent v)) |p v. p \<in> set (db_proof db) \<and> rr_parent p \<in> set (tree_roots h db) \<and>
       v \<in> set (db_verification db) \<and> rr_parent v = rr_tx p}"
proof -
  have tx: "rr_tx r \<in> tr_hash ` set (db_transaction db)" if "r \<in> set (db_proof db) \<union> set (db_verification db)" for r
    using assms that by (auto simp: db_ok_def has_tx_def)
  note join = join_rows [of "db_proof db" "db_transaction db"] join_rows [of "db_verification db" "db_transaction db"]
  show ?thesis
    unfolding tree_rows_def Let_def set_remdups set_append set_map
    using tx by (subst join(1), blast) (subst join(2), blast, auto)
qed

definition kind_rank :: "database \<Rightarrow> hash \<Rightarrow> nat" where
  "kind_rank db h =
     (if kind_at db h = Some KProof then 1 else if kind_at db h = Some KVerification then 2 else 0)"

lemma tree_rows_ranked: "db_ok db \<Longrightarrow> chained db \<Longrightarrow> ranked_rows (kind_rank db) 2 (tree_rows h db)"
  by (auto simp: ranked_rows_def tree_rows_set chained_def kind_rank_def)

lemma tree_rows_functional:
  assumes "db_ok db" and "chained db" and "(x, a) \<in> set (tree_rows h db)" and "(x, b) \<in> set (tree_rows h db)"
  shows "a = b"
proof -
  have P: "distinct (map rr_tx (db_proof db))" and V: "distinct (map rr_tx (db_verification db))"
    using assms(2) by (simp_all add: chained_def)
  have kinds: "kind_at db x = (case a of None \<Rightarrow> Some KRun | Some q \<Rightarrow> kind_at db x) \<and>
      ((\<exists>p\<in>set (db_proof db). x = rr_tx p \<and> a = Some (rr_parent p)) \<and> kind_at db x = Some KProof \<or>
       (\<exists>v\<in>set (db_verification db). x = rr_tx v \<and> a = Some (rr_parent v)) \<and> kind_at db x = Some KVerification \<or>
       a = None \<and> kind_at db x = Some KRun)"
    if "(x, a) \<in> set (tree_rows h db)" for a
    using that assms(2) unfolding tree_rows_set [OF assms(1)] tree_roots_iff [OF assms(1)]
    by (auto simp: chained_def tree_roots_iff [OF assms(1)])
  show ?thesis
    using kinds [OF assms(3)] kinds [OF assms(4)] result_row_eq [OF P] result_row_eq [OF V] by auto
qed

lemma tree_rows_unique:
  assumes "db_ok db" and "chained db"
  shows "distinct (map fst (tree_rows h db))"
proof -
  have "distinct (tree_rows h db)" by (simp add: tree_rows_def Let_def)
  moreover have "inj_on fst (set (tree_rows h db))"
    by (rule inj_onI) (metis prod.collapse tree_rows_functional [OF assms])
  ultimately show ?thesis by (simp add: distinct_map)
qed

lemma set_scan: "pg_ok R \<Longrightarrow> set (scan R t xs) = set xs"
  using mset_scan by (metis set_mset_mset)

lemma tree_reach:
  assumes "db_ok db" and "set (tree_roots h db) = {r}" and "set txs = set (tree_rows h db)"
  shows "{x. (r, x) \<in> (child_of txs)\<^sup>*} = {r} \<union>
    {rr_tx p |p. p \<in> set (db_proof db) \<and> rr_parent p = r} \<union>
    {rr_tx v |p v. p \<in> set (db_proof db) \<and> rr_parent p = r \<and> v \<in> set (db_verification db) \<and> rr_parent v = rr_tx p}"
    (is "?L = ?R")
proof -
  have edge: "(x, y) \<in> child_of txs \<longleftrightarrow>
      (\<exists>p. y = rr_tx p \<and> x = rr_parent p \<and> p \<in> set (db_proof db) \<and> rr_parent p = r) \<or>
      (\<exists>p v. y = rr_tx v \<and> x = rr_parent v \<and> p \<in> set (db_proof db) \<and> rr_parent p = r \<and>
         v \<in> set (db_verification db) \<and> rr_parent v = rr_tx p)" for x y
    unfolding child_of_def assms(3) tree_rows_set [OF assms(1)] assms(2) by simp
  show ?thesis
  proof
    show "?L \<subseteq> ?R"
    proof
      fix x assume "x \<in> ?L"
      then have "(r, x) \<in> (child_of txs)\<^sup>*" by simp
      then consider "x = r" | y where "(y, x) \<in> child_of txs" by (metis rtranclE)
      then show "x \<in> ?R"
      proof cases
        case (2 y)
        then show ?thesis unfolding edge by blast
      qed simp
    qed
    have 1: "(r, rr_tx p) \<in> (child_of txs)\<^sup>*" if "p \<in> set (db_proof db)" "rr_parent p = r" for p
      using that unfolding edge [of r "rr_tx p"] by (intro r_into_rtrancl) (simp add: edge, blast)
    have 2: "(r, rr_tx v) \<in> (child_of txs)\<^sup>*" if "p \<in> set (db_proof db)" "rr_parent p = r"
      "v \<in> set (db_verification db)" "rr_parent v = rr_tx p" for p v
      using that by (intro rtrancl_into_rtrancl [OF 1 [OF that(1,2)]]) (simp add: edge, metis)
    show "?R \<subseteq> ?L" using 1 2 by auto
  qed
qed

lemma distinct_singleton:
  assumes "distinct xs" and "set xs = {r}"
  shows "xs = [r]"
proof -
  have "length xs = 1" using distinct_card [OF assms(1)] assms(2) by simp
  then obtain a where "xs = [a]" by (cases xs) auto
  with assms(2) show ?thesis by simp
qed

lemma scan_rows:
  assumes "db_ok db" and "chained db" and "pg_ok P" and txs_def: "txs = scan P t (tree_rows h db)"
  shows "set txs = set (tree_rows h db)" "distinct (map fst txs)"
    "set (map fst (filter (\<lambda>x. snd x = None) txs)) = set (tree_roots h db)"
    "distinct (map fst (filter (\<lambda>x. snd x = None) txs))"
proof -
  show S: "set txs = set (tree_rows h db)" unfolding txs_def by (rule set_scan [OF assms(3)])
  have "mset (map fst txs) = mset (map fst (tree_rows h db))"
    by (simp only: txs_def mset_map mset_scan [OF assms(3)])
  then show D: "distinct (map fst txs)"
    using tree_rows_unique [OF assms(1,2)] by (metis mset_eq_imp_distinct_iff)
  show "set (map fst (filter (\<lambda>x. snd x = None) txs)) = set (tree_roots h db)"
    using S by (auto simp: tree_rows_set [OF assms(1)] image_iff)
  show "distinct (map fst (filter (\<lambda>x. snd x = None) txs))"
    using D by (auto simp: distinct_map intro: inj_on_subset)
qed

section \<open>Properties\<close>


text \<open>
  A transaction that no verification is connected with has no tree, even when it is stored and has
  proofs: the answer is that it was not found.
\<close>

theorem unverified_tree_not_found:
  assumes "db_ok db" and "reads P"
    and "\<And>p v. p \<in> set (db_proof db) \<Longrightarrow> v \<in> set (db_verification db) \<Longrightarrow> rr_parent v = rr_tx p \<Longrightarrow>
           h \<notin> {rr_parent p, rr_tx p, rr_tx v}"
  shows "get_tx_tree_logic c n (Inr h) P db
      = Some (Done (RpcErr (RpcNotFound (''no root tx found for '' @ hash_display c h))))"
proof -
  have "r \<notin> set (tree_roots h db)" for r :: hash
    unfolding tree_roots_iff [OF assms(1)] using assms(3) by (metis insert_iff)
  then have "set (tree_roots h db) = {}" by (metis equals0I)
  then have "set (tree_rows h db) = {}" by (simp add: tree_rows_set [OF assms(1)])
  then have "scan P ''tree'' (tree_rows h db) = []"
    using set_scan [of P "''tree''" "tree_rows h db"] assms(2) by (simp add: reads_def)
  then show ?thesis using assms(2) by (simp add: get_tx_tree_logic_def get_transaction_tree_def)
qed

section \<open>A verified run\<close>

definition sample_verification_tx :: "validated transaction" where
  "sample_verification_tx = sample_vt 4 (Verification (sample_hash 3) (sample_hash 12) [8] [])"

definition sample_verified :: database where
  "sample_verified = snd (add_transaction pg_plain sample_verification_tx sample_proved)"

lemma sample_proved_has:
  "has_tx sample_proved h \<longleftrightarrow> h = sample_hash 1 \<or> h = sample_hash 2 \<or> h = sample_hash 3"
  "has_program sample_proved (sample_hash 12)" "db_verification sample_proved = []"
proof -
  show "has_tx sample_proved h \<longleftrightarrow> h = sample_hash 1 \<or> h = sample_hash 2 \<or> h = sample_hash 3"
    using add_transaction_has [OF sample_proved_eval, of h] sample_running_has(1) [of h]
    by (auto simp: sample_proof_tx_def)
  have "db_program sample_proved = db_program sample_running"
    "db_verification sample_proved = db_verification sample_running"
    by (simp_all add: sample_proved_def proof_eval sample_running_has sample_running_tables(6,7))
  moreover have "db_verification sample_running = db_verification sample_deployed"
    by (simp add: sample_running_def run_eval)
  moreover have "db_verification sample_deployed = []"
    by (simp add: sample_deployed_def db_eval database_empty_def)
  ultimately show "has_program sample_proved (sample_hash 12)" "db_verification sample_proved = []"
    using sample_running_has(2) by (simp_all add: has_program_def)
qed

lemmas verification_eval = add_transaction_def add_payload_def add_files_def commit_def exec_def pg_plain_def
  insert_transaction_def insert_verification_def row_of_tx_def sample_verification_tx_def sample_proved_has

lemma sample_verified_eval:
  "add_transaction pg_plain sample_verification_tx sample_proved = (Inr (), sample_verified)"
  unfolding sample_verified_def by (simp add: verification_eval)

lemma sample_verified_tables:
  "db_transaction sample_verified = db_transaction sample_proved @ [row_of_tx sample_verification_tx]"
  "db_proof sample_verified = db_proof sample_proved"
  "db_verification sample_verified =
     [\<lparr> rr_tx = sample_hash 4, rr_parent = sample_hash 3, rr_program = sample_hash 12, rr_data = [8] \<rparr>]"
  unfolding sample_verified_def by (simp_all add: verification_eval)

lemma sample_verified_ok: "db_ok sample_proved" "db_ok sample_verified"
proof -
  have "db_ok sample_running" by (rule db_ok_add_transaction [OF sample_deployed_ok sample_running_eval])
  from db_ok_add_transaction [OF this sample_proved_eval] show p: "db_ok sample_proved" .
  from db_ok_add_transaction [OF p sample_verified_eval] show "db_ok sample_verified" .
qed

lemma sample_verified_chained: "chained sample_verified"
proof -
  have "tr_hash r = sample_hash 1" if "r \<in> set (db_transaction sample_deployed)" for r
    using sample_deployed_has(1) [of "tr_hash r"] that by (auto simp: has_tx_def)
  then have "find (\<lambda>r. tr_hash r = sample_hash b) (db_transaction sample_deployed) = None" if "b \<noteq> 1" for b
    using that by (auto simp: find_None_iff)
  then have "kind_at sample_verified (sample_hash 2) = Some KRun"
    "kind_at sample_verified (sample_hash 3) = Some KProof"
    "kind_at sample_verified (sample_hash 4) = Some KVerification"
    by (simp_all add: kind_at_def sample_verified_tables sample_proved_tables(1) sample_running_tables(1)
        find_append row_of_tx_def sample_proof_tx_def sample_verification_tx_def kind_of_payload_def)
  then show ?thesis by (simp add: chained_def sample_verified_tables sample_proved_tables(5))
qed


theorem unverified_tree_not_found_witness:
  "get_tx_tree_logic sample_crates 3 (Inr (sample_hash 2)) pg_plain sample_proved
     = Some (Done (RpcErr (RpcNotFound (''no root tx found for '' @ hash_display sample_crates (sample_hash 2)))))"
  by (rule unverified_tree_not_found [OF sample_verified_ok(1) reads_samples(1)])
     (simp add: sample_proved_has)

end
