(* ===== verification/Cli.thy ===== *)
theory Cli
  imports Rpc_Server Key_Capsule
begin

text \<open>
  \<open>crates/cli\<close> and \<open>rpc_client/mod.rs\<close>: the command-line client. It reads and creates key files, prepares
  the files of a deployment or of a workflow, builds and signs the transaction, sends it to a node, and
  serves local files to the node until all are uploaded. Libraries, the node and the network are parameters.
\<close>

section \<open>Parameters\<close>

datatype json_program_data =
    JsonInput string string "string option"
  | JsonOutput string string

record json_cmd_args =
  jc_name :: string
  jc_value :: string

record json_exec_args =
  je_program :: string
  je_cmd_args :: "json_cmd_args list"
  je_inputs :: "json_program_data list"

text \<open>
  The libraries: a checksum, the last segment of a parsed URL, binding a listener, which gives the
  address it listens at, the text of a task list, keys in bytes, and the debug text of an answer.
\<close>

record cli_libs =
  cl_crates :: crates
  cl_blake3 :: "byte list \<Rightarrow> byte list"
  cl_url_last :: "string \<Rightarrow> string + string option"
  cl_bind :: "socket_addr \<Rightarrow> string + socket_addr"
  cl_json :: "string \<Rightarrow> string + json_exec_args list"
  cl_sk_serialize :: "secret_key \<Rightarrow> byte list"
  cl_sk_parse :: "byte list \<Rightarrow> string + secret_key"
  cl_debug_tx :: "rpc_transaction \<Rightarrow> string"

section \<open>Key files\<close>

definition fs_write :: "io_errors \<Rightarrow> path \<Rightarrow> byte list \<Rightarrow> disk \<Rightarrow> (string + unit) \<times> disk" where
  "fs_write io p bs d =
     (case io (CreateFile p) of Some e \<Rightarrow> (Inl e, d) | None \<Rightarrow> (Inr (), hm_insert (components p) bs d))"

definition create_key_file ::
  "cli_libs \<Rightarrow> io_errors \<Rightarrow> secret_key \<Rightarrow> path \<Rightarrow> disk \<Rightarrow> (string + public_key) \<times> disk" where
  "create_key_file L io key file_path d =
     (if \<not> fs_exists io d file_path
      then (case fs_write io file_path (cl_sk_serialize L key) d of
              (Inl e, d1) \<Rightarrow> (Inl e, d1)
            | (Inr _, d1) \<Rightarrow> (Inr (pk_from_secret_key (cl_crates L) key), d1))
      else (Inl (''Key file already exist. Can'' @ [CHR 0x27] @ ''t erase it.''), d))"

definition read_key_file :: "cli_libs \<Rightarrow> io_errors \<Rightarrow> path \<Rightarrow> disk \<Rightarrow> string + secret_key" where
  "read_key_file L io file_path d =
     (case fs_open io d file_path of
        None \<Rightarrow> Inl ''No such file or directory''
      | Some bs \<Rightarrow> cl_sk_parse L bs)"

section \<open>Preparing files\<close>

record file_data =
  fd_filename :: string
  fd_url :: string
  fd_checksum :: hash

definition metadata_of_file_data :: "crates \<Rightarrow> file_data \<Rightarrow> (string, program_metadata) outcome" where
  "metadata_of_file_data c fd =
     metadata_update_hash c
       \<lparr> pm_name = fd_filename fd, pm_hash = hash_default, pm_image_file_name = fd_filename fd,
         pm_image_file_url = fd_url fd, pm_image_file_checksum = hash_display c (fd_checksum fd),
         pm_resource_requirements = None \<rparr>"

definition socket_addr_display :: "socket_addr \<Rightarrow> string" where
  "socket_addr_display a =
     (if CHR '':'' \<in> set (sa_ip a) then ''['' @ sa_ip a @ '']'' else sa_ip a) @ '':'' @ show_word (sa_port a)"

definition HTTP_DEFAULT_ADDR :: socket_addr where
  "HTTP_DEFAULT_ADDR = SocketAddr ''127.0.0.1'' 8080"

definition verify_file_path :: "io_errors \<Rightarrow> disk \<Rightarrow> string \<Rightarrow> path option" where
  "verify_file_path io d file_path = (if fs_exists io d file_path then Some file_path else None)"

definition extract_hash_from_file_content :: "cli_libs \<Rightarrow> io_errors \<Rightarrow> disk \<Rightarrow> path \<Rightarrow> hash option" where
  "extract_hash_from_file_content L io d p = map_option (\<lambda>bs. Hash (cl_blake3 L bs)) (fs_open io d p)"

definition calculate_hash_command :: "cli_libs \<Rightarrow> io_errors \<Rightarrow> disk \<Rightarrow> path \<Rightarrow> string + string" where
  "calculate_hash_command L io d p =
     (case extract_hash_from_file_content L io d p of
        None \<Rightarrow> Inl (''File not found:'' @ p)
      | Some h \<Rightarrow> Inr (hash_display (cl_crates L) h))"

definition file_digest :: "crates \<Rightarrow> string \<Rightarrow> string" where
  "file_digest c file_path = hex_encode c (sha3_256 c (as_bytes file_path))"

definition calculate_file_url_digest :: "crates \<Rightarrow> string \<Rightarrow> socket_addr \<Rightarrow> string \<times> string" where
  "calculate_file_url_digest c file_path listen_addr =
     (''http://'' @ socket_addr_display listen_addr @ ''/'' @ file_digest c file_path, file_digest c file_path)"

text \<open>The loop's variables: the address of the local server once it runs, what it serves, and the result.\<close>

record prepared =
  pr_listen_addr :: "socket_addr option"
  pr_served :: "(string, path) hmap"
  pr_files :: "file_data list"

definition ensure_server ::
  "cli_libs \<Rightarrow> socket_addr option \<Rightarrow> prepared \<Rightarrow> (string, socket_addr) outcome" where
  "ensure_server L bind_addr st =
     (case pr_listen_addr st of
        Some a \<Rightarrow> Done a
      | None \<Rightarrow> of_sum (cl_bind L (case bind_addr of Some a \<Rightarrow> a | None \<Rightarrow> HTTP_DEFAULT_ADDR)))"

definition add_local_file ::
  "cli_libs \<Rightarrow> io_errors \<Rightarrow> disk \<Rightarrow> socket_addr option \<Rightarrow> path \<Rightarrow> prepared \<Rightarrow> (string, prepared) outcome" where
  "add_local_file L io d bind_addr path st =
     obind (ensure_server L bind_addr st) (\<lambda>listen_addr.
       case calculate_file_url_digest (cl_crates L) path listen_addr of
         (url, url_hash) \<Rightarrow>
           (case (extract_hash_from_file_content L io d path, file_name path) of
              (Some checksum, Some filename) \<Rightarrow>
                Done \<lparr> pr_listen_addr = Some listen_addr, pr_served = hm_insert url_hash path (pr_served st),
                       pr_files = pr_files st @ [\<lparr> fd_filename = filename, fd_url = url, fd_checksum = checksum \<rparr>] \<rparr>
            | _ \<Rightarrow> Failed (''Can'' @ [CHR 0x27] @ ''t extract hash from file path:'' @ path)))"

definition add_remote_file ::
  "cli_libs \<Rightarrow> string \<Rightarrow> string option \<Rightarrow> prepared \<Rightarrow> (string, prepared) outcome" where
  "add_remote_file L file_or_hash url st =
     (case hex_decode (cl_crates L) file_or_hash of
        Inl err \<Rightarrow> Failed (''error during Hash decoding:'' @ err)
      | Inr val \<Rightarrow>
          (case try_into_hash val of
             None \<Rightarrow> Failed ''error Hash binary vec into array conv''
           | Some hash \<Rightarrow>
               (case url of
                  None \<Rightarrow> Failed (''File url not provided with Hash:'' @ file_or_hash)
                | Some file_url \<Rightarrow>
                    (case cl_url_last L file_url of
                       Inl err \<Rightarrow> Failed (''File url:'' @ file_url @ '' parse error:'' @ err)
                     | Inr seg \<Rightarrow>
                         Done (st\<lparr> pr_files := pr_files st @
                           [\<lparr> fd_filename = (case seg of Some s \<Rightarrow> s | None \<Rightarrow> file_or_hash),
                              fd_url = file_url, fd_checksum = hash \<rparr>] \<rparr>)))))"

fun prepare_loop ::
  "cli_libs \<Rightarrow> io_errors \<Rightarrow> disk \<Rightarrow> socket_addr option \<Rightarrow> (string \<times> string option) list \<Rightarrow> prepared
     \<Rightarrow> (string, prepared) outcome" where
  "prepare_loop L io d bind_addr [] st = Done st"
| "prepare_loop L io d bind_addr ((file_or_hash, url) # files) st =
     obind (case verify_file_path io d file_or_hash of
              Some path \<Rightarrow> add_local_file L io d bind_addr path st
            | None \<Rightarrow> add_remote_file L file_or_hash url st)
       (prepare_loop L io d bind_addr files)"

text \<open>The second component is what the local server serves, if one was started.\<close>

definition prepare_files_download ::
  "cli_libs \<Rightarrow> io_errors \<Rightarrow> disk \<Rightarrow> socket_addr option \<Rightarrow> (string \<times> string option) list
     \<Rightarrow> (string, file_data list \<times> (string, path) hmap option) outcome" where
  "prepare_files_download L io d bind_addr files =
     obind (prepare_loop L io d bind_addr files \<lparr> pr_listen_addr = None, pr_served = hm_empty, pr_files = [] \<rparr>) (\<lambda>st.
     Done (pr_files st, case pr_listen_addr st of None \<Rightarrow> None | Some _ \<Rightarrow> Some (pr_served st)))"

section \<open>The local file server\<close>

definition cli_process_file :: "(string, path) hmap \<Rightarrow> io_errors \<Rightarrow> disk \<Rightarrow> string \<Rightarrow> file_reply" where
  "cli_process_file files io d uri_path =
     (case hm_get files (drop 1 uri_path) of
        None \<Rightarrow> FileReply 404 (as_bytes ''Not found.'')
      | Some p \<Rightarrow>
          (case fs_open io d p of
             None \<Rightarrow> FileReply 500 (as_bytes ''Internal server error'')
           | Some bs \<Rightarrow> FileReply 200 bs))"

text \<open>
  The state of the serving loop: what is left to upload, for every file whose size is known its
  progress bar with size and position, and whether a download has started. A file's bytes are counted
  as the reader gives them out, an error of reading as no bytes; the other branch is the timer of ten seconds.
  Accepting a connection changes nothing here.
\<close>

record upload =
  up_served :: "(string, path) hmap"
  up_bars :: "(string, nat \<times> nat) hmap"
  up_started :: bool

definition serve_file_init :: "(string, path) hmap \<Rightarrow> disk \<Rightarrow> upload" where
  "serve_file_init served d =
     \<lparr> up_served = served,
       up_bars = List.map_filter (\<lambda>(digest, p). map_option (\<lambda>bs. (digest, (length bs, 0))) (fs_lookup d p)) served,
       up_started = False \<rparr>"

datatype serve_event = Counted string nat | TimerTick

fun serve_step :: "serve_event \<Rightarrow> upload \<Rightarrow> upload \<times> bool" where
  "serve_step (Counted digest n) u =
     (let u1 = (case hm_get (up_bars u) digest of
                  None \<Rightarrow> u\<lparr> up_started := True \<rparr>
                | Some (sz, pos) \<Rightarrow>
                    u\<lparr> up_started := True, up_bars := hm_insert digest (sz, pos + n) (up_bars u),
                       up_served := (if sz \<le> pos + n then hm_remove digest (up_served u) else up_served u) \<rparr>)
      in (u1, up_served u1 = []))"
| "serve_step TimerTick u = (u, \<not> up_started u)"

text \<open>Whether the loop has ended after these events, and its state.\<close>

fun serve_loop :: "serve_event list \<Rightarrow> upload \<Rightarrow> upload \<times> bool" where
  "serve_loop [] u = (u, False)"
| "serve_loop (e # es) u = (case serve_step e u of (u1, ended) \<Rightarrow> if ended then (u1, True) else serve_loop es u1)"

text \<open>
  Waiting for the server at the end of a command: it is over once the events \<open>es\<close> that arrive have ended
  the loop, and at once if nothing is served.
\<close>

definition server_ended :: "disk \<Rightarrow> (string, path) hmap option \<Rightarrow> serve_event list \<Rightarrow> bool" where
  "server_ended d served es \<longleftrightarrow>
     (case served of None \<Rightarrow> True | Some S \<Rightarrow> snd (serve_loop es (serve_file_init S d)))"

definition await_server ::
  "disk \<Rightarrow> (string, path) hmap option \<Rightarrow> serve_event list \<Rightarrow> (string, 'a) outcome \<times> 'w
     \<Rightarrow> ((string, 'a) outcome \<times> 'w) option" where
  "await_server d served es x =
     (case fst x of Done _ \<Rightarrow> if server_ended d served es then Some x else None | _ \<Rightarrow> Some x)"

section \<open>The RPC client\<close>

text \<open>A node as the client sees it: a request fails in transport, or is answered.\<close>

record 'w rpc_node =
  rn_send :: "created transaction \<Rightarrow> 'w \<Rightarrow> (string + unit rpc_response) \<times> 'w"
  rn_get_transaction :: "hash \<Rightarrow> 'w \<Rightarrow> (string + rpc_transaction rpc_response) \<times> 'w"
  rn_get_tx_tree :: "hash \<Rightarrow> 'w \<Rightarrow> (string + transaction_tree rpc_response) \<times> 'w"

definition rpc_request :: "(string + 'a rpc_response) \<times> 'w \<Rightarrow> (string, 'a) outcome \<times> 'w" where
  "rpc_request x =
     (case fst x of Inl _ \<Rightarrow> Panicked ''rpc request'' | Inr resp \<Rightarrow> of_sum (rpc_response_result resp), snd x)"

definition client_send_transaction ::
  "'w rpc_node \<Rightarrow> created transaction \<Rightarrow> 'w \<Rightarrow> (string, unit) outcome \<times> 'w" where
  "client_send_transaction node tx w =
     (case rn_send node tx w of
        (Inl _, w1) \<Rightarrow> (Panicked ''rpc request'', w1)
      | (Inr (RpcErr e), w1) \<Rightarrow> (Failed (rpc_error_display e), w1)
      | (Inr (RpcOk _), w1) \<Rightarrow> (Done (), w1))"

definition client_get_tx_tree :: "'w rpc_node \<Rightarrow> hash \<Rightarrow> 'w \<Rightarrow> (string, transaction_tree) outcome \<times> 'w" where
  "client_get_tx_tree node h w = rpc_request (rn_get_tx_tree node h w)"

definition client_get_transaction :: "'w rpc_node \<Rightarrow> hash \<Rightarrow> 'w \<Rightarrow> (string, rpc_transaction) outcome \<times> 'w" where
  "client_get_transaction node h w = rpc_request (rn_get_transaction node h w)"

definition cli_send_transaction ::
  "cli_libs \<Rightarrow> 'w rpc_node \<Rightarrow> created transaction \<Rightarrow> 'w \<Rightarrow> (string, hash) outcome \<times> 'w" where
  "cli_send_transaction L node tx w =
     (case client_send_transaction node tx w of
        (Panicked m, w1) \<Rightarrow> (Panicked m, w1)
      | (Failed err, w1) \<Rightarrow> (Failed (''Error during send  transaction to the node:'' @ err), w1)
      | (Done _, w1) \<Rightarrow>
          (case client_get_transaction node (tx_hash tx) w1 of
             (Panicked m, w2) \<Rightarrow> (Panicked m, w2)
           | (Failed err, w2) \<Rightarrow> (Failed (''Error during send  get_transaction from the node:'' @ err), w2)
           | (Done read_tx, w2) \<Rightarrow>
               if hash_display (cl_crates L) (tx_hash tx) \<noteq> rt_hash read_tx
               then (Failed (''Error get_transaction doesn'' @ [CHR 0x27] @ ''t return the right tx send tx:'' @
                       hash_display (cl_crates L) (tx_hash tx) @ '' read tx:'' @ cl_debug_tx L read_tx), w2)
               else (Done (tx_hash tx), w2)))"

section \<open>Deploying\<close>

text \<open>\<open>Vec::swap_remove\<close>.\<close>

definition swap_remove :: "nat \<Rightarrow> 'a list \<Rightarrow> ('e, 'a \<times> 'a list) outcome" where
  "swap_remove i xs =
     (if i < length xs then Done (xs ! i, butlast (xs[i := last xs])) else Panicked ''swap_remove index'')"

definition resource_requirements ::
  "u64 option \<Rightarrow> u64 option \<Rightarrow> u64 option \<Rightarrow> resource_request option" where
  "resource_requirements nc nm ng =
     (if nc = None \<and> nm = None \<and> ng = None then None
      else
        (let req = resource_request_default;
             req = (case nc of Some v \<Rightarrow> req\<lparr> cpus := v \<rparr> | None \<Rightarrow> req);
             req = (case nm of Some v \<Rightarrow> req\<lparr> mem := v \<rparr> | None \<Rightarrow> req);
             req = (case ng of Some v \<Rightarrow> req\<lparr> gpus := v \<rparr> | None \<Rightarrow> req)
         in Some req))"

definition deploy_metadata ::
  "crates \<Rightarrow> file_data \<Rightarrow> string option \<Rightarrow> resource_request option \<Rightarrow> (string, program_metadata) outcome" where
  "deploy_metadata c fd name reqs =
     obind (metadata_of_file_data c fd) (\<lambda>m.
       let m1 = (case name of Some n \<Rightarrow> m\<lparr> pm_name := n \<rparr> | None \<Rightarrow> m)
       in metadata_update_hash c (m1\<lparr> pm_resource_requirements := reqs \<rparr>))"

record deploy_args =
  da_name :: string
  da_prover :: string
  da_verifier :: string
  da_prover_name :: "string option"
  da_verifier_name :: "string option"
  da_prover_img_url :: "string option"
  da_verifier_img_url :: "string option"
  da_prover_reqs :: "resource_request option"
  da_verifier_reqs :: "resource_request option"
  da_listen_addr :: socket_addr

definition key_error :: "path \<Rightarrow> string \<Rightarrow> string" where
  "key_error keyfile err = ''Error during key file:'' @ keyfile @ '' reading:'' @ err"

definition deploy_transaction ::
  "cli_libs \<Rightarrow> io_errors \<Rightarrow> disk \<Rightarrow> path \<Rightarrow> deploy_args
     \<Rightarrow> (string, created transaction \<times> hash \<times> hash \<times> (string, path) hmap option) outcome" where
  "deploy_transaction L io d keyfile a =
     obind (omap_err (key_error keyfile) (of_sum (read_key_file L io keyfile d))) (\<lambda>key.
     obind (prepare_files_download L io d (Some (da_listen_addr a))
              [(da_prover a, da_prover_img_url a), (da_verifier a, da_verifier_img_url a)]) (\<lambda>(files, served).
     obind (swap_remove 0 files) (\<lambda>(prover_data, files1).
     obind (swap_remove 0 files1) (\<lambda>(verifier_data, _).
     obind (deploy_metadata (cl_crates L) prover_data (da_prover_name a) (da_prover_reqs a)) (\<lambda>prover.
     obind (deploy_metadata (cl_crates L) verifier_data (da_verifier_name a) (da_verifier_reqs a)) (\<lambda>verifier.
     obind (omap_err (\<lambda>_. []) (transaction_new (cl_crates L) (Deploy (da_name a) prover verifier) key)) (\<lambda>tx.
     Done (tx, pm_hash prover, pm_hash verifier, served))))))))"

text \<open>A command that waits for a server whose loop never ends does not return.\<close>

definition run_deploy_command ::
  "cli_libs \<Rightarrow> io_errors \<Rightarrow> disk \<Rightarrow> 'w rpc_node \<Rightarrow> serve_event list \<Rightarrow> path \<Rightarrow> deploy_args \<Rightarrow> 'w
     \<Rightarrow> ((string, string \<times> string \<times> string) outcome \<times> 'w) option" where
  "run_deploy_command L io d node es keyfile a w =
     (case deploy_transaction L io d keyfile a of
        Done (tx, prover_hash, verifier_hash, served) \<Rightarrow>
          (case cli_send_transaction L node tx w of
             (r, w1) \<Rightarrow>
               await_server d served es
                 (obind r (\<lambda>h. Done (hash_display (cl_crates L) h, hash_display (cl_crates L) prover_hash,
                    hash_display (cl_crates L) verifier_hash)), w1))
      | Failed e \<Rightarrow> Some (Failed e, w)
      | Panicked m \<Rightarrow> Some (Panicked m, w))"

section \<open>Executing workflows\<close>

fun get_file_data_from_json :: "json_program_data \<Rightarrow> (string \<times> string option) option" where
  "get_file_data_from_json (JsonInput local_path vm_path file_url) = Some (local_path, file_url)"
| "get_file_data_from_json (JsonOutput p f) = None"

definition input_args :: "json_exec_args list \<Rightarrow> (string \<times> string option) list" where
  "input_args args = List.map_filter get_file_data_from_json (concat (map je_inputs args))"

definition decode_hash :: "crates \<Rightarrow> (string \<Rightarrow> string) \<Rightarrow> string \<Rightarrow> (string, hash) outcome" where
  "decode_hash c err s = obind (omap_err err (of_sum (hex_decode c s))) hash_from_slice"

definition program_hash_error :: "string \<Rightarrow> string" where
  "program_hash_error err = ''program decoding hash error:'' @ err"

fun exec_inputs ::
  "crates \<Rightarrow> file_data list \<Rightarrow> json_program_data list \<Rightarrow> nat \<Rightarrow> (string, program_data list \<times> nat) outcome" where
  "exec_inputs c fds [] counter = Done ([], counter)"
| "exec_inputs c fds (JsonInput local_path vm_path file_url # js) counter =
     (if counter < length fds
      then obind (exec_inputs c fds js (Suc counter)) (\<lambda>(ps, k).
             Done (Input vm_path (fd_url (fds ! counter)) (hash_display c (fd_checksum (fds ! counter))) # ps, k))
      else Panicked ''index out of bounds'')"
| "exec_inputs c fds (JsonOutput p f # js) counter =
     obind (decode_hash c id p) (\<lambda>h.
     obind (exec_inputs c fds js counter) (\<lambda>(ps, k). Done (OutputOf h f # ps, k)))"

definition step_args :: "json_cmd_args list \<Rightarrow> string list" where
  "step_args args = filter (\<lambda>x. x \<noteq> []) (concat (map (\<lambda>a. [jc_name a, jc_value a]) args))"

fun exec_steps ::
  "crates \<Rightarrow> file_data list \<Rightarrow> json_exec_args list \<Rightarrow> nat \<Rightarrow> (string, workflow_step list) outcome" where
  "exec_steps c fds [] counter = Done []"
| "exec_steps c fds (a # args) counter =
     obind (exec_inputs c fds (je_inputs a) counter) (\<lambda>(ps, counter).
     obind (decode_hash c program_hash_error (je_program a)) (\<lambda>h.
     obind (exec_steps c fds args counter) (\<lambda>ss.
     Done (\<lparr> ws_program = h, ws_args = step_args (je_cmd_args a), ws_inputs = ps \<rparr> # ss))))"

definition exec_transaction ::
  "cli_libs \<Rightarrow> io_errors \<Rightarrow> disk \<Rightarrow> path \<Rightarrow> string \<Rightarrow> socket_addr option
     \<Rightarrow> (string, created transaction \<times> (string, path) hmap option) outcome" where
  "exec_transaction L io d keyfile json_tasks listen_addr =
     obind (omap_err (key_error keyfile) (of_sum (read_key_file L io keyfile d))) (\<lambda>key.
     obind (omap_err (\<lambda>err. ''Json decoding error :'' @ err @ '' with :'' @ json_tasks)
              (of_sum (cl_json L json_tasks))) (\<lambda>json_args.
     obind (prepare_files_download L io d listen_addr (input_args json_args)) (\<lambda>(file_data, served).
     obind (exec_steps (cl_crates L) file_data json_args 0) (\<lambda>ss.
     obind (omap_err (\<lambda>_. []) (transaction_new (cl_crates L) (Run \<lparr> steps = ss \<rparr>) key)) (\<lambda>tx.
     Done (tx, served))))))"

definition run_exec_command ::
  "cli_libs \<Rightarrow> io_errors \<Rightarrow> disk \<Rightarrow> 'w rpc_node \<Rightarrow> serve_event list \<Rightarrow> path \<Rightarrow> string \<Rightarrow> socket_addr option \<Rightarrow> 'w
     \<Rightarrow> ((string, string) outcome \<times> 'w) option" where
  "run_exec_command L io d node es keyfile json_tasks listen_addr w =
     (case exec_transaction L io d keyfile json_tasks listen_addr of
        Done (tx, served) \<Rightarrow>
          (case cli_send_transaction L node tx w of
             (r, w1) \<Rightarrow> await_server d served es (obind r (\<lambda>h. Done (hash_display (cl_crates L) h)), w1))
      | Failed e \<Rightarrow> Some (Failed e, w)
      | Panicked m \<Rightarrow> Some (Panicked m, w))"

text \<open>The lines that \<open>PrintTxTree\<close> prints.\<close>

fun print_tx_tree :: "crates \<Rightarrow> transaction_tree \<Rightarrow> u16 \<Rightarrow> string list" where
  "print_tx_tree c (TreeRoot children h) ind =
     (''Root: '' @ hash_display c h) # concat (map (\<lambda>x. print_tx_tree c x (ind + 1)) children)"
| "print_tx_tree c (TreeNode children h) ind =
     (replicate (unat ind) (CHR 0x09) @ ''Node: '' @ hash_display c h) #
     concat (map (\<lambda>x. print_tx_tree c x (ind + 1)) children)"
| "print_tx_tree c (TreeLeaf h) ind = [replicate (unat ind) (CHR 0x09) @ ''Leaf: '' @ hash_display c h]"

section \<open>Prepared files\<close>

definition file_ready ::
  "cli_libs \<Rightarrow> io_errors \<Rightarrow> disk \<Rightarrow> prepared \<Rightarrow> string \<times> string option \<Rightarrow> file_data \<Rightarrow> bool" where
  "file_ready L io d st fu fd \<longleftrightarrow>
     (if fs_exists io d (fst fu)
      then \<exists>bs a. fs_open io d (fst fu) = Some bs \<and> fd_checksum fd = Hash (cl_blake3 L bs) \<and> pr_listen_addr st = Some a \<and>
             fd_url fd = fst (calculate_file_url_digest (cl_crates L) (fst fu) a) \<and>
             hm_get (pr_served st) (file_digest (cl_crates L) (fst fu)) = Some (fst fu)
      else snd fu = Some (fd_url fd) \<and> hex_decode (cl_crates L) (fst fu) = Inr (hash_bytes (fd_checksum fd)))"

lemma add_local_Done:
  assumes "add_local_file L io d b p st = Done st1"
  shows "\<exists>a bs n. ensure_server L b st = Done a \<and> fs_open io d p = Some bs \<and>
    st1 = \<lparr> pr_listen_addr = Some a, pr_served = hm_insert (file_digest (cl_crates L) p) p (pr_served st),
            pr_files = pr_files st @ [\<lparr> fd_filename = n, fd_url = fst (calculate_file_url_digest (cl_crates L) p a),
              fd_checksum = Hash (cl_blake3 L bs) \<rparr>] \<rparr>"
proof -
  have "snd (calculate_file_url_digest (cl_crates L) p a) = file_digest (cl_crates L) p" for a
    by (simp add: calculate_file_url_digest_def)
  then show ?thesis
    using assms unfolding add_local_file_def obind_eq_Done case_prod_beta
    by (cases "fs_open io d p"; cases "file_name p") (auto simp: extract_hash_from_file_content_def)
qed

lemma add_local_ready:
  assumes "add_local_file L io d b p st = Done st1" and "fs_exists io d p"
  shows "\<exists>fd. pr_files st1 = pr_files st @ [fd] \<and> file_ready L io d st1 (p, u) fd"
    and "pr_served st1 = hm_insert (file_digest (cl_crates L) p) p (pr_served st)"
    and "\<And>a. pr_listen_addr st = Some a \<Longrightarrow> pr_listen_addr st1 = Some a"
  using add_local_Done [OF assms(1)] assms(2)
  by (auto simp: file_ready_def hm.get_insert ensure_server_def)

lemma add_remote_ready:
  assumes "add_remote_file L f u st = Done st1" and "\<not> fs_exists io d f"
  shows "\<exists>fd. pr_files st1 = pr_files st @ [fd] \<and> file_ready L io d st1 (f, u) fd"
    and "pr_served st1 = pr_served st" and "pr_listen_addr st1 = pr_listen_addr st"
  using assms
  by (auto simp: add_remote_file_def file_ready_def try_into_hash_def split: sum.splits option.splits if_splits)

lemma file_ready_keep:
  assumes "file_ready L io d st fu fd"
    and "\<And>a. pr_listen_addr st = Some a \<Longrightarrow> pr_listen_addr st1 = Some a"
    and "hm_get (pr_served st) (file_digest (cl_crates L) (fst fu)) = Some (fst fu) \<Longrightarrow>
         hm_get (pr_served st1) (file_digest (cl_crates L) (fst fu)) = Some (fst fu)"
  shows "file_ready L io d st1 fu fd"
  using assms by (fastforce simp: file_ready_def split: if_splits)

lemma prepare_loop_ready:
  assumes "\<forall>f\<in>F. \<forall>g\<in>F. file_digest (cl_crates L) f = file_digest (cl_crates L) g \<longrightarrow> f = g"
  shows "prepare_loop L io d b files st = Done st1 \<Longrightarrow> fst ` set files \<subseteq> F \<Longrightarrow> fst ` set before \<subseteq> F \<Longrightarrow>
    list_all2 (file_ready L io d st) before (pr_files st) \<Longrightarrow>
    list_all2 (file_ready L io d st1) (before @ files) (pr_files st1)"
proof (induction files arbitrary: st before)
  case (Cons fu files)
  obtain f u where fu: "fu = (f, u)" by (cases fu)
  obtain st2 where step: "(case verify_file_path io d f of Some p \<Rightarrow> add_local_file L io d b p st
      | None \<Rightarrow> add_remote_file L f u st) = Done st2" and rest: "prepare_loop L io d b files st2 = Done st1"
    using Cons.prems(1) by (auto simp: fu obind_eq_Done)
  obtain fd where fd: "pr_files st2 = pr_files st @ [fd]" "file_ready L io d st2 fu fd"
    and listen: "\<And>a. pr_listen_addr st = Some a \<Longrightarrow> pr_listen_addr st2 = Some a"
    and served: "pr_served st2 = pr_served st \<or> pr_served st2 = hm_insert (file_digest (cl_crates L) f) f (pr_served st)"
  proof (cases "fs_exists io d f")
    case True
    then have "add_local_file L io d b f st = Done st2" using step by (simp add: verify_file_path_def)
    note ready = add_local_ready [OF this True]
    show ?thesis using ready(1) [of u] ready(2,3) that by (auto simp: fu)
  next
    case False
    then have "add_remote_file L f u st = Done st2" using step by (simp add: verify_file_path_def)
    note ready = add_remote_ready [OF this False]
    show ?thesis using ready that by (auto simp: fu)
  qed
  have "file_ready L io d st2 gu gd" if "file_ready L io d st gu gd" "gu \<in> set before" for gu gd
  proof (rule file_ready_keep [OF that(1) listen])
    have "file_digest (cl_crates L) (fst gu) = file_digest (cl_crates L) f \<longrightarrow> fst gu = f"
      using assms that(2) Cons.prems(2,3) by (auto simp: fu)
    then show "hm_get (pr_served st2) (file_digest (cl_crates L) (fst gu)) = Some (fst gu)"
      if "hm_get (pr_served st) (file_digest (cl_crates L) (fst gu)) = Some (fst gu)"
      using served that by (auto simp: hm.get_insert)
  qed
  then have "list_all2 (file_ready L io d st2) before (pr_files st)"
    using Cons.prems(4) by (auto intro: list.rel_mono_strong)
  then have "list_all2 (file_ready L io d st2) (before @ [fu]) (pr_files st2)"
    using fd by (simp add: list_all2_appendI)
  from Cons.IH [OF rest _ _ this] Cons.prems(2,3) show ?case by simp
qed simp

section \<open>Properties\<close>


lemma metadata_update_hash_Done:
  assumes "metadata_update_hash c m = (Done m1 :: ('e, _) outcome)"
  shows "(metadata_update_hash c m1 :: ('e, _) outcome) = Done m1" and "\<exists>h. m1 = m\<lparr> pm_hash := h \<rparr>"
  using assms by (auto simp: metadata_update_hash_def obind_eq_Done)

lemma deploy_metadata_Done:
  assumes "deploy_metadata c fd name reqs = Done m"
  shows "metadata_update_hash c m = (Done m :: (string, _) outcome) \<and> pm_resource_requirements m = reqs"
proof -
  obtain m1 where "metadata_update_hash c (m1\<lparr> pm_resource_requirements := reqs \<rparr>) = (Done m :: (string, _) outcome)"
    using assms unfolding deploy_metadata_def obind_eq_Done Let_def by blast
  from metadata_update_hash_Done [OF this] show ?thesis by auto
qed

lemma new_validates:
  assumes "ecdsa_ok c" and "transaction_new c p key = Done tx" and "distinct (get_run_programs_dep p)"
  shows "tx_payload tx = p \<and> transaction_validate c (into_received tx st) = Done ()"
proof -
  have "tx_payload tx = p"
    using assms(2) by (auto simp: transaction_new_def transaction_sign_Done)
  moreover have "transaction_verify c (into_received tx st) = Done True"
    using assms(2) unfolding transaction_new_def by (rule sign_then_verify [OF assms(1), rotated]) simp
  ultimately show ?thesis using assms(3) by (simp add: transaction_validate_ok)
qed

lemma deploy_transaction_parts:
  assumes "deploy_transaction L io d keyfile a = Done (tx, ph, vh, served)"
  obtains key p v fd1 fd2 where
    "transaction_new (cl_crates L) (Deploy (da_name a) p v) key = Done tx" "pm_hash p = ph" "pm_hash v = vh"
    "deploy_metadata (cl_crates L) fd1 (da_prover_name a) (da_prover_reqs a) = Done p"
    "deploy_metadata (cl_crates L) fd2 (da_verifier_name a) (da_verifier_reqs a) = Done v"
  using assms unfolding deploy_transaction_def obind_eq_Done case_prod_beta
  by (auto simp: omap_err_eq_Done)

lemma deploy_transaction_validates:
  assumes "ecdsa_ok (cl_crates L)" and "deploy_transaction L io d keyfile a = Done (tx, ph, vh, served)"
  shows "transaction_validate (cl_crates L) (into_received tx st) = Done ()"
  using deploy_transaction_parts [OF assms(2)] new_validates [OF assms(1)] by (metis distinct.simps(1) get_run_programs_dep.simps(6))

text \<open>
  A deployment that the client sends is one that the nodes accept: the transaction carries the two programs,
  each under the hash of its final name, URL and checksum, with the requested resources, it passes the
  validation of a node that receives it, and the hashes that the client reports are those of the programs.
\<close>

theorem deployment_validates:
  assumes "ecdsa_ok (cl_crates L)" and "deploy_transaction L io d keyfile a = Done (tx, ph, vh, served)"
  shows "\<exists>p v. tx_payload tx = Deploy (da_name a) p v \<and> transaction_validate (cl_crates L) (into_received tx RPC) = Done () \<and>
    pm_hash p = ph \<and> pm_hash v = vh \<and>
    metadata_update_hash (cl_crates L) p = (Done p :: (string, _) outcome) \<and>
    metadata_update_hash (cl_crates L) v = (Done v :: (string, _) outcome) \<and>
    pm_resource_requirements p = da_prover_reqs a \<and> pm_resource_requirements v = da_verifier_reqs a"
proof -
  obtain key p v fd1 fd2 where
    "transaction_new (cl_crates L) (Deploy (da_name a) p v) key = Done tx" "pm_hash p = ph" "pm_hash v = vh"
    "deploy_metadata (cl_crates L) fd1 (da_prover_name a) (da_prover_reqs a) = Done p"
    "deploy_metadata (cl_crates L) fd2 (da_verifier_name a) (da_verifier_reqs a) = Done v"
    by (rule deploy_transaction_parts [OF assms(2)])
  then show ?thesis
    using new_validates [OF assms(1), of "Deploy (da_name a) p v" key tx RPC] deploy_metadata_Done by force
qed

text \<open>The files that a list of inputs needs, and the places in the machine they go to.\<close>

definition vm_paths :: "json_program_data list \<Rightarrow> string list" where
  "vm_paths js = List.map_filter (\<lambda>j. case j of JsonInput _ vm _ \<Rightarrow> Some vm | JsonOutput _ _ \<Rightarrow> None) js"

definition input_for :: "crates \<Rightarrow> string \<Rightarrow> file_data \<Rightarrow> program_data" where
  "input_for c vm fd = Input vm (fd_url fd) (hash_display c (fd_checksum fd))"

definition is_file_input :: "program_data \<Rightarrow> bool" where
  "is_file_input p = (case p of Input _ _ _ \<Rightarrow> True | OutputOf _ _ \<Rightarrow> False)"

lemma vm_paths_simps [simp]:
  "vm_paths [] = []" "vm_paths (JsonInput l vm u # js) = vm # vm_paths js" "vm_paths (JsonOutput p f # js) = vm_paths js"
  "vm_paths (js @ ks) = vm_paths js @ vm_paths ks"
  by (simp_all add: vm_paths_def List.map_filter_def)

lemma vm_paths_inputs: "length (vm_paths (concat (map je_inputs args))) = length (input_args args)"
proof -
  have "length (vm_paths js) = length (List.map_filter get_file_data_from_json js)" for js
  proof (induction js)
    case (Cons j js)
    then show ?case by (cases j) (simp_all add: List.map_filter_def)
  qed (simp add: List.map_filter_def)
  then show ?thesis by (simp add: input_args_def)
qed

text \<open>Only the conversion of a hash can panic, never the index.\<close>

lemma decode_hash_panic: "decode_hash c err s = Panicked m \<Longrightarrow> m = ''copy''"
  by (auto simp: decode_hash_def outcome_simps hash_from_slice_def expect_def of_sum_def split: option.splits sum.splits)

lemma exec_inputs_run:
  "length (vm_paths js) + k \<le> length fds \<Longrightarrow>
   (case exec_inputs c fds js k of
      Done (ps, k1) \<Rightarrow> k1 = k + length (vm_paths js) \<and>
        filter is_file_input ps = map2 (input_for c) (vm_paths js) (drop k fds)
    | Failed e \<Rightarrow> True
    | Panicked m \<Rightarrow> m \<noteq> ''index out of bounds'')"
proof (induction c fds js k rule: exec_inputs.induct)
  case (2 c fds l vm u js k)
  then have k: "k < length fds" by simp
  have "length (vm_paths js) + Suc k \<le> length fds" using 2 by simp
  from 2(1) [OF k this] k show ?case
    by (cases "exec_inputs c fds js (Suc k)")
      (auto simp: is_file_input_def input_for_def Cons_nth_drop_Suc [symmetric])
next
  case (3 c fds p f js k)
  show ?case
  proof (cases "decode_hash c id p")
    case (Done h)
    with 3 show ?thesis
      by (cases "exec_inputs c fds js k") (auto simp: is_file_input_def)
  next
    case (Panicked m)
    then show ?thesis using decode_hash_panic [OF Panicked] by simp
  qed simp
qed simp

lemma map2_append: "map2 f (xs @ ys) zs = map2 f xs zs @ map2 f ys (drop (length xs) zs)"
proof (induction xs arbitrary: zs)
  case (Cons x xs)
  then show ?case by (cases zs) simp_all
qed simp

lemma exec_steps_run:
  "length (vm_paths (concat (map je_inputs args))) + k \<le> length fds \<Longrightarrow>
   (case exec_steps c fds args k of
      Done ss \<Rightarrow> filter is_file_input (concat (map ws_inputs ss)) =
        map2 (input_for c) (vm_paths (concat (map je_inputs args))) (drop k fds)
    | Failed e \<Rightarrow> True
    | Panicked m \<Rightarrow> m \<noteq> ''index out of bounds'')"
proof (induction args arbitrary: k)
  case (Cons a args)
  have "length (vm_paths (je_inputs a)) + k \<le> length fds" using Cons.prems by simp
  note inputs = exec_inputs_run [OF this, of c]
  show ?case
  proof (cases "exec_inputs c fds (je_inputs a) k")
    case (Done x)
    obtain ps k1 where x: "x = (ps, k1)" by (cases x)
    have k1: "k1 = k + length (vm_paths (je_inputs a))"
      "filter is_file_input ps = map2 (input_for c) (vm_paths (je_inputs a)) (drop k fds)"
      using inputs by (simp_all add: Done x)
    have "length (vm_paths (concat (map je_inputs args))) + k1 \<le> length fds" using Cons.prems k1 by simp
    note rest = Cons.IH [OF this]
    show ?thesis
    proof (cases "decode_hash c program_hash_error (je_program a)")
      case h: (Done h)
      show ?thesis
        using rest by (cases "exec_steps c fds args k1") (simp_all add: Done x h k1 map2_append add.commute)
    next
      case (Panicked m)
      then show ?thesis using decode_hash_panic [OF Panicked] by (simp add: Done x)
    qed (simp add: Done x)
  qed (use inputs in simp_all)
qed simp

lemma prepare_loop_length:
  "prepare_loop L io d b files st = Done st1 \<Longrightarrow> length (pr_files st1) = length (pr_files st) + length files"
proof (induction files arbitrary: st)
  case (Cons fu files)
  obtain f u where fu: "fu = (f, u)" by (cases fu)
  obtain st2 where step: "(case verify_file_path io d f of Some p \<Rightarrow> add_local_file L io d b p st
      | None \<Rightarrow> add_remote_file L f u st) = Done st2" and rest: "prepare_loop L io d b files st2 = Done st1"
    using Cons.prems(1) by (auto simp: fu obind_eq_Done)
  have "length (pr_files st2) = Suc (length (pr_files st))"
  proof (cases "fs_exists io d f")
    case True
    then have "add_local_file L io d b f st = Done st2" using step by (simp add: verify_file_path_def)
    from add_local_Done [OF this] show ?thesis by auto
  next
    case False
    then have "add_remote_file L f u st = Done st2" using step by (simp add: verify_file_path_def)
    from add_remote_ready(1) [OF this False] show ?thesis by auto
  qed
  with Cons.IH [OF rest] show ?case by simp
qed simp

lemma prepare_length: "prepare_files_download L io d b files = Done (fds, served) \<Longrightarrow> length fds = length files"
  by (auto simp: prepare_files_download_def obind_eq_Done dest: prepare_loop_length)

text \<open>
  C15: The workflow that the client sends has the files at the right places: the file inputs of its steps, in
  order, are the paths that the task list names in the machine, each with the URL and the checksum of the
  file prepared for it; looking them up by the running counter never leaves the list. The transaction passes the
  validation of a node unless the task list names a program twice.
\<close>

theorem workflow_files_in_order:
  assumes "ecdsa_ok (cl_crates L)" and "cl_json L tasks = Inr args"
    and "prepare_files_download L io d listen_addr (input_args args) = Done (fds, served)"
  shows "case exec_transaction L io d keyfile tasks listen_addr of
      Done (tx, served1) \<Rightarrow> served1 = served \<and>
        (\<exists>ss. tx_payload tx = Run \<lparr> steps = ss \<rparr> \<and>
           filter is_file_input (concat (map ws_inputs ss)) =
             map2 (input_for (cl_crates L)) (vm_paths (concat (map je_inputs args))) fds \<and>
           (distinct (map ws_program ss) \<longrightarrow> transaction_validate (cl_crates L) (into_received tx RPC) = Done ()))
    | Failed e \<Rightarrow> True
    | Panicked m \<Rightarrow> m \<noteq> ''index out of bounds''"
proof (cases "read_key_file L io keyfile d")
  case (Inr key)
  have len: "length (vm_paths (concat (map je_inputs args))) + 0 \<le> length fds"
    using prepare_length [OF assms(3)] by (simp add: vm_paths_inputs)
  note steps = exec_steps_run [OF len, of "cl_crates L"]
  show ?thesis
  proof (cases "exec_steps (cl_crates L) fds args 0")
    case (Done ss)
    show ?thesis
    proof (cases "transaction_new (cl_crates L) (Run \<lparr> steps = ss \<rparr>) key")
      case tx: (Done tx)
      have "tx_payload tx = Run \<lparr> steps = ss \<rparr>"
        using tx by (auto simp: transaction_new_def transaction_sign_Done)
      then show ?thesis
        using new_validates [OF assms(1) tx, of RPC] steps
        by (simp add: exec_transaction_def Inr assms(2,3) of_sum_def Done tx)
    next
      case (Panicked m)
      then have "m \<noteq> ''index out of bounds''"
        by (auto simp: transaction_new_def transaction_sign_def compute_hash_def tx_preimage_def outcome_simps
            hash_from_slice_def expect_def Let_def split: option.splits)
      with Panicked show ?thesis by (simp add: exec_transaction_def Inr assms(2,3) of_sum_def Done)
    qed (simp add: exec_transaction_def Inr assms(2,3) of_sum_def Done)
  qed (use steps in \<open>simp_all add: exec_transaction_def Inr assms(2,3) of_sum_def\<close>)
qed (simp add: exec_transaction_def of_sum_def)

text \<open>
  The client never comes to an end if one of the files it serves is empty: no byte of it is ever counted, so
  that it stays in the list of files to upload, and once some download has started the timer does not stop the
  server either. Here \<open>es\<close> is any sequence of timer ticks and of pieces that the reader gave out without an
  error, none of which is empty.
\<close>

theorem empty_file_never_uploaded:
  assumes "hm_get served digest = Some p" and "fs_lookup d p = Some []"
    and "\<And>k n. Counted k n \<in> set es \<Longrightarrow> \<exists>q bs. hm_get served k = Some q \<and> fs_lookup d q = Some bs \<and> 0 < n \<and> n \<le> length bs"
  shows "\<not> snd (serve_loop es ((serve_file_init served d)\<lparr> up_started := True \<rparr>))"
proof -
  have "\<not> snd (serve_loop es u)"
    if "hm_get (up_served u) digest = Some p" "up_started u" "\<forall>n. Counted digest n \<notin> set es" for u
    using that
  proof (induction es arbitrary: u)
    case (Cons e es)
    obtain u1 b where step: "serve_step e u = (u1, b)" by (rule prod.exhaust)
    have "hm_get (up_served u1) digest = Some p \<and> up_started u1 \<and> \<not> b"
    proof (cases e)
      case (Counted k n)
      then have "k \<noteq> digest" using Cons.prems(3) by auto
      have "(up_served u1 = up_served u \<or> up_served u1 = hm_remove k (up_served u)) \<and> up_started u1"
        using step Counted Cons.prems by (auto simp: Let_def split: option.splits if_splits)
      then have "hm_get (up_served u1) digest = Some p \<and> up_started u1"
        using Cons.prems(1) \<open>k \<noteq> digest\<close> by (auto simp: hm.get_remove)
      moreover have "b = (up_served u1 = [])" using step Counted by (auto simp: Let_def)
      ultimately show ?thesis by (auto simp: hm_get_def)
    qed (use step Cons.prems in auto)
    then show ?case using Cons.IH [of u1] Cons.prems(3) by (simp add: step)
  qed simp
  moreover have "Counted digest n \<notin> set es" for n using assms by fastforce
  ultimately show ?thesis using assms(1) by (simp add: serve_file_init_def)
qed

text \<open>
  A key that was written to a key file is read back as the same key, and creating a key never touches a
  file that exists.
\<close>

theorem key_file_roundtrip:
  assumes "cl_sk_parse L (cl_sk_serialize L key) = Inr key" and "io (OpenFile p) = None"
    and "create_key_file L io key p d = (r, d1)"
  shows "(\<forall>pk. r = Inr pk \<longrightarrow> read_key_file L io p d1 = Inr key \<and> pk = pk_from_secret_key (cl_crates L) key) \<and>
         (fs_exists io d p \<longrightarrow> isl r \<and> d1 = d) \<and> (\<forall>q. q \<noteq> components p \<longrightarrow> hm_get d1 q = hm_get d q)"
  using assms
  by (auto simp: create_key_file_def read_key_file_def fs_write_def fs_open_def fs_lookup_def hm.get_insert
      split: if_splits option.splits)

section \<open>A concrete client\<close>

definition sample_cli :: cli_libs where
  "sample_cli =
     \<lparr> cl_crates = sample_crates, cl_blake3 = (\<lambda>bs. take 32 (bs @ replicate 32 0)),
       cl_url_last = (\<lambda>_. Inr (Some ''image'')), cl_bind = Inr,
       cl_json = (\<lambda>_. Inr [\<lparr> je_program = hash_display sample_crates (sample_hash 1),
         je_cmd_args = [\<lparr> jc_name = ''--nonce'', jc_value = ''42'' \<rparr>],
         je_inputs = [JsonInput ''/witness'' ''/workspace/witness'' None] \<rparr>]),
       cl_sk_serialize = (\<lambda>sk. case sk of SecretKey n \<Rightarrow> replicate n 1),
       cl_sk_parse = (\<lambda>bs. Inr (SecretKey (length bs))), cl_debug_tx = rt_hash \<rparr>"

definition sample_home :: disk where
  "sample_home = [(components ''/key'', [1]), (components ''/witness'', [7, 8]), (components ''/prover'', [1, 2]),
     (components ''/verifier'', [3])]"

lemma sample_home_files:
  "fs_lookup sample_home ''/key'' = Some [1]" "fs_lookup sample_home ''/witness'' = Some [7, 8]"
  "fs_lookup sample_home ''/prover'' = Some [1, 2]" "fs_lookup sample_home ''/verifier'' = Some [3]"
  by (simp_all add: fs_lookup_def sample_home_def hm_get_def components_def body_components_def is_absolute_def
      part_components_def skipped_def)

lemma sample_file_names:
  "file_name ''/witness'' = Some ''witness''" "file_name ''/prover'' = Some ''prover''"
  "file_name ''/verifier'' = Some ''verifier''"
  by (simp_all add: file_name_def components_def body_components_def is_absolute_def part_components_def skipped_def)

lemmas sample_client_eval = prepare_files_download_def verify_file_path_def fs_exists_def add_local_file_def
  ensure_server_def extract_hash_from_file_content_def fs_open_def sample_home_files sample_file_names
  calculate_file_url_digest_def of_sum_def

lemma sample_prepare:
  "\<exists>fds served. prepare_files_download sample_cli (\<lambda>_. None) sample_home (Some HTTP_DEFAULT_ADDR)
     [(''/prover'', Some ''http://host/image''), (''/verifier'', None)] = Done (fds, served) \<and> length fds = 2"
  by (simp add: sample_client_eval sample_cli_def)

lemma sample_digests: "file_digest sample_crates ''/prover'' \<noteq> file_digest sample_crates ''/verifier''"
proof
  assume "file_digest sample_crates ''/prover'' = file_digest sample_crates ''/verifier''"
  then have "sample_sha3 (as_bytes ''/prover'') = sample_sha3 (as_bytes ''/verifier'')"
    using sample_hex_roundtrip by (auto simp: file_digest_def sample_crates_def dest!: arg_cong [of _ _ sample_hex_decode])
  then show False by (simp add: sample_sha3_def as_bytes_def)
qed


text \<open>The same two images, deployed with a resource request for the prover.\<close>

definition sample_deploy :: deploy_args where
  "sample_deploy =
     \<lparr> da_name = ''deployment'', da_prover = ''/prover'', da_verifier = ''/verifier'', da_prover_name = Some ''p'',
       da_verifier_name = None, da_prover_img_url = None, da_verifier_img_url = None,
       da_prover_reqs = resource_requirements (Some 4) None None, da_verifier_reqs = None,
       da_listen_addr = HTTP_DEFAULT_ADDR \<rparr>"

lemma sample_update_hash: "\<exists>m1. metadata_update_hash sample_crates m = Done m1"
  using sample_crates_ok(3)
  by (simp add: metadata_update_hash_def sha3_len_ok_def hash_from_slice_def try_into_hash_def HASH_SIZE_def expect_def)

lemma sample_deploy_metadata: "\<exists>m. deploy_metadata sample_crates fd name reqs = Done m"
  unfolding deploy_metadata_def metadata_of_file_data_def obind_eq_Done Let_def using sample_update_hash by meson

lemma sample_transaction_new: "\<exists>tx. transaction_new sample_crates p key = Done tx"
  using compute_hash_total [OF sample_crates_ok(5,3)] by (fastforce simp: transaction_new_def transaction_sign_Done)

lemma sample_key: "read_key_file sample_cli (\<lambda>_. None) ''/key'' sample_home = Inr (SecretKey 1)"
  by (simp add: read_key_file_def sample_client_eval sample_cli_def)

lemma swap_remove_two [simp]: "swap_remove 0 [x, y] = Done (x, [y])" "swap_remove 0 [x] = Done (x, [])"
  by (simp_all add: swap_remove_def)

lemma sample_deploy_transaction:
  "\<exists>tx ph vh served. deploy_transaction sample_cli (\<lambda>_. None) sample_home ''/key'' sample_deploy = Done (tx, ph, vh, served)"
proof -
  have c: "cl_crates sample_cli = sample_crates" by (simp add: sample_cli_def)
  obtain fd1 fd2 served where pre: "prepare_files_download sample_cli (\<lambda>_. None) sample_home (Some HTTP_DEFAULT_ADDR)
     [(''/prover'', None), (''/verifier'', None)] = Done ([fd1, fd2], served)"
    by (simp add: sample_client_eval sample_cli_def)
  obtain m1 m2 where "deploy_metadata sample_crates fd1 (Some ''p'') (resource_requirements (Some 4) None None) = Done m1"
    "deploy_metadata sample_crates fd2 None None = Done m2"
    using sample_deploy_metadata by meson
  moreover obtain tx where "transaction_new sample_crates (Deploy ''deployment'' m1 m2) (SecretKey 1) = Done tx"
    using sample_transaction_new by blast
  ultimately show ?thesis
    by (simp add: deploy_transaction_def sample_key of_sum_def sample_deploy_def pre c)
qed

theorem deployment_validates_witness:
  "\<exists>tx p v. tx_payload tx = Deploy ''deployment'' p v \<and>
     transaction_validate sample_crates (into_received tx RPC) = Done () \<and>
     pm_resource_requirements p = resource_requirements (Some 4) None None"
proof -
  obtain tx ph vh served where
    "deploy_transaction sample_cli (\<lambda>_. None) sample_home ''/key'' sample_deploy = Done (tx, ph, vh, served)"
    using sample_deploy_transaction by blast
  from deployment_validates [OF _ this] show ?thesis by (auto simp: sample_cli_def sample_deploy_def)
qed

text \<open>One program with one file.\<close>

theorem workflow_files_in_order_witness:
  "\<exists>args fds served. cl_json sample_cli ''tasks'' = Inr args \<and>
    (case exec_transaction sample_cli (\<lambda>_. None) sample_home ''/key'' ''tasks'' None of
      Done (tx, served1) \<Rightarrow> served1 = served \<and>
        (\<exists>ss. tx_payload tx = Run \<lparr> steps = ss \<rparr> \<and>
           filter is_file_input (concat (map ws_inputs ss)) =
             map2 (input_for (cl_crates sample_cli)) (vm_paths (concat (map je_inputs args))) fds \<and>
           (distinct (map ws_program ss) \<longrightarrow> transaction_validate (cl_crates sample_cli) (into_received tx RPC) = Done ()))
    | Failed e \<Rightarrow> True
    | Panicked m \<Rightarrow> m \<noteq> ''index out of bounds'')"
proof -
  let ?args = "[\<lparr> je_program = hash_display sample_crates (sample_hash 1),
         je_cmd_args = [\<lparr> jc_name = ''--nonce'', jc_value = ''42'' \<rparr>],
         je_inputs = [JsonInput ''/witness'' ''/workspace/witness'' None] \<rparr>]"
  have j: "cl_json sample_cli ''tasks'' = Inr ?args" by (simp add: sample_cli_def)
  obtain fds served where
    "prepare_files_download sample_cli (\<lambda>_. None) sample_home None (input_args ?args) = Done (fds, served)"
    by (simp add: input_args_def List.map_filter_def sample_client_eval sample_cli_def)
  from workflow_files_in_order [OF _ j this, of "''/key''"] j show ?thesis
    by (intro exI [of _ ?args] exI [of _ fds] exI [of _ served]) (simp add: sample_cli_def)
qed

text \<open>An empty file beside one of two bytes, which is uploaded completely.\<close>

theorem empty_file_never_uploaded_witness:
  "\<not> snd (serve_loop [Counted ''k1'' 2, TimerTick]
     ((serve_file_init [(''k0'', ''/empty''), (''k1'', ''/full'')]
        [(components ''/empty'', []), (components ''/full'', [1, 2])])\<lparr> up_started := True \<rparr>))"
  by (rule empty_file_never_uploaded [of _ "''k0''" "''/empty''"])
    (auto simp: hm_get_def fs_lookup_def components_def body_components_def is_absolute_def part_components_def skipped_def)

text \<open>A new key beside the one that is there.\<close>

theorem key_file_roundtrip_witness:
  "read_key_file sample_cli (\<lambda>_. None) ''/new''
     (snd (create_key_file sample_cli (\<lambda>_. None) (SecretKey 3) ''/new'' sample_home)) = Inr (SecretKey 3)"
proof -
  have "fs_lookup sample_home ''/new'' = None"
    by (simp add: fs_lookup_def sample_home_def hm_get_def components_def body_components_def is_absolute_def
        part_components_def skipped_def)
  then obtain pk d1 where c: "create_key_file sample_cli (\<lambda>_. None) (SecretKey 3) ''/new'' sample_home = (Inr pk, d1)"
    by (simp add: create_key_file_def fs_exists_def fs_write_def)
  have "cl_sk_parse sample_cli (cl_sk_serialize sample_cli (SecretKey 3)) = Inr (SecretKey 3)"
    by (simp add: sample_cli_def)
  from key_file_roundtrip [OF this refl c] show ?thesis by (simp add: c)
qed

end
