(* ===== verification/Event_Loop.thy ===== *)
theory Event_Loop
  imports Mempool
begin

text \<open>
  \<open>mempool/txvalidation/mod.rs\<close>: the validation loop. Its state holds the input channel, the spawned
  verification tasks, the finished ones, the two caches, the mempool, the channel to the network and
  the answers given to callers. The two branches of the \<open>select!\<close> and the spawned tasks are
  functions; \<open>loop_step\<close> interleaves them in any order, since tasks run concurrently and finish in
  any order. A spawned task is one step: its disk and network effects are not interleaved with
  those of other tasks.
\<close>

section \<open>State and environment\<close>

record ('c, 's) loop_env =
  le_crates :: crates
  le_acl :: acl_whitelist
  le_http :: http_env
  le_io :: io_errors
  le_root :: path
  le_lru :: "'c lru_ops"
  le_view :: "'s \<Rightarrow> validate_storage"
  le_set :: "validated transaction \<Rightarrow> 's \<Rightarrow> (string + unit) \<times> 's"

type_synonym peer_list = "(socket_addr \<times> u16 option) list"

record ('c, 's) loop_state =
  ls_inbox :: "(received transaction \<times> callback option) list"
  ls_tasks :: "(received_tx tx_event \<times> peer_list \<times> callback option) list"
  ls_done :: "((event_process_error + wait_tx tx_event) \<times> callback option) list"
  ls_program_cache :: "'c tx_cache"
  ls_parent_cache :: "'c tx_cache"
  ls_mempool :: "'s mempool"
  ls_p2p :: p2p_channel
  ls_disk :: disk
  ls_replies :: "(callback \<times> (mempool_error + unit)) list"

text \<open>\<open>spawn_event_loop\<close> starts with fresh caches.\<close>

definition loop_init ::
  "('c, 's) loop_env \<Rightarrow> 's mempool \<Rightarrow> disk \<Rightarrow> ('e, ('c, 's) loop_state) outcome" where
  "loop_init E m d =
     obind (tx_cache_new (le_lru E)) (\<lambda>pc.
     obind (tx_cache_new (le_lru E)) (\<lambda>qc.
       Done \<lparr> ls_inbox = [], ls_tasks = [], ls_done = [], ls_program_cache = pc,
              ls_parent_cache = qc, ls_mempool = m, ls_p2p = \<lparr> p2p_open = True, p2p_sent = [] \<rparr>,
              ls_disk = d, ls_replies = [] \<rparr>))"

definition convert_peer_list_to_vec :: "(socket_addr, u16 option) hmap \<Rightarrow> peer_list" where
  "convert_peer_list_to_vec m = map (\<lambda>(a, p). (a, p)) m"

section \<open>The branches of the loop\<close>

definition receive_event ::
  "(socket_addr, u16 option) hmap \<Rightarrow> received transaction \<times> callback option \<Rightarrow> ('c, 's) loop_state
     \<Rightarrow> ('c, 's) loop_state" where
  "receive_event peers m s =
     s\<lparr> ls_tasks := ls_tasks s @ [(event_of_tx (fst m), convert_peer_list_to_vec peers, snd m)] \<rparr>"

text \<open>The spawned task: verification, download, propagation.\<close>

definition run_validation ::
  "('c, 's) loop_env \<Rightarrow> peer_list \<Rightarrow> received_tx tx_event \<Rightarrow> disk \<Rightarrow> p2p_channel
     \<Rightarrow> (event_process_error, wait_tx tx_event) outcome \<times> disk \<times> p2p_channel" where
  "run_validation E peers e d ch =
     (case verify_tx (le_crates E) (le_acl E) e of
        Failed x \<Rightarrow> (Failed x, d, ch)
      | Panicked p \<Rightarrow> (Panicked p, d, ch)
      | Done de \<Rightarrow>
          (case downlod_tx_assets (le_crates E) (le_http E) (le_io E) (le_root E) peers de d of
             (Failed x, d') \<Rightarrow> (Failed x, d', ch)
           | (Panicked p, d') \<Rightarrow> (Panicked p, d', ch)
           | (Done (w, None), d') \<Rightarrow> (Done w, d', ch)
           | (Done (w, Some pe), d') \<Rightarrow>
               (case propagate pe ch of
                  (Inl x, ch') \<Rightarrow> (Failed x, d', ch')
                | (Inr _, ch') \<Rightarrow> (Done w, d', ch'))))"

definition reply :: "callback option \<Rightarrow> mempool_error + unit \<Rightarrow> ('c, 's) loop_state \<Rightarrow> ('c, 's) loop_state" where
  "reply cb r s =
     (case cb of None \<Rightarrow> s | Some k \<Rightarrow> s\<lparr> ls_replies := ls_replies s @ [(k, r)] \<rparr>)"

text \<open>
  A task that panicked ends as an \<open>Err\<close> of its join handle, which the pattern \<open>Some(Ok(..))\<close> of the
  loop does not match: the result is dropped together with the callback, whose receiver then sees
  the error of a closed channel.
\<close>

definition finish_task ::
  "('c, 's) loop_env \<Rightarrow> received_tx tx_event \<times> peer_list \<times> callback option \<Rightarrow> ('c, 's) loop_state
     \<Rightarrow> ('c, 's) loop_state" where
  "finish_task E t s =
     (case t of (e, peers, cb) \<Rightarrow>
       (case run_validation E peers e (ls_disk s) (ls_p2p s) of (r, d, ch) \<Rightarrow>
         (let s' = s\<lparr> ls_disk := d, ls_p2p := ch \<rparr>
          in case r of
               Done w \<Rightarrow> s'\<lparr> ls_done := ls_done s' @ [(Inr w, cb)] \<rparr>
             | Failed x \<Rightarrow> s'\<lparr> ls_done := ls_done s' @ [(Inl x, cb)] \<rparr>
             | Panicked _ \<Rightarrow> reply cb (await_callback None) s')))"

text \<open>Saving the released transactions: all are tried, the last error is the result.\<close>

fun save_all ::
  "(validated transaction \<Rightarrow> 'm \<Rightarrow> (string + unit) \<times> 'm) \<Rightarrow> new_tx tx_event list
     \<Rightarrow> event_process_error + unit \<Rightarrow> 'm \<Rightarrow> (event_process_error + unit) \<times> 'm" where
  "save_all send [] res m = (res, m)"
| "save_all send (t # ts) res m =
     (let (r, m') = save_tx send t m
      in save_all send ts (case r of Inl x \<Rightarrow> Inl x | Inr _ \<Rightarrow> res) m')"

definition into_mempool_error :: "event_process_error + unit \<Rightarrow> mempool_error + unit" where
  "into_mempool_error r = (case r of Inl x \<Rightarrow> Inl (EventProcess x) | Inr u \<Rightarrow> Inr u)"

definition deliver ::
  "('c, 's) loop_env \<Rightarrow> nat \<Rightarrow> (event_process_error + wait_tx tx_event) \<times> callback option
     \<Rightarrow> ('c, 's) loop_state \<Rightarrow> ('c, 's) loop_state" where
  "deliver E now m s =
     (case m of
        (Inl x, cb) \<Rightarrow> reply cb (Inl (EventProcess x)) s
      | (Inr w, cb) \<Rightarrow>
          (case validate_tx_dep (le_lru E) now (le_view E (mp_storage (ls_mempool s))) w
                  (ls_program_cache s, ls_parent_cache s) of
             (Inl x, pc, qc) \<Rightarrow>
               reply cb (Inl (EventProcess x)) (s\<lparr> ls_program_cache := pc, ls_parent_cache := qc \<rparr>)
           | (Inr txs, pc, qc) \<Rightarrow>
               (let (res, mp) = save_all (mempool_send_new_tx (le_set E)) txs (Inr ()) (ls_mempool s)
                in reply cb (into_mempool_error res)
                     (s\<lparr> ls_program_cache := pc, ls_parent_cache := qc, ls_mempool := mp \<rparr>))))"

section \<open>The step relation\<close>

inductive loop_step :: "('c, 's) loop_env \<Rightarrow> ('c, 's) loop_state \<Rightarrow> ('c, 's) loop_state \<Rightarrow> bool"
  for E where
  arrive: "loop_step E s (s\<lparr> ls_inbox := ls_inbox s @ [m] \<rparr>)"
| receive: "ls_inbox s = m # q \<Longrightarrow> loop_step E s (receive_event peers m (s\<lparr> ls_inbox := q \<rparr>))"
| finish: "ls_tasks s = xs @ t # ys \<Longrightarrow> loop_step E s (finish_task E t (s\<lparr> ls_tasks := xs @ ys \<rparr>))"
| handle: "ls_done s = xs @ m # ys \<Longrightarrow> loop_step E s (deliver E now m (s\<lparr> ls_done := xs @ ys \<rparr>))"
| pop: "loop_step E s (s\<lparr> ls_mempool := snd (mempool_next (ls_mempool s)) \<rparr>)"

inductive_cases loop_stepE: "loop_step E s s'"

text \<open>What the verification guarantees of a transaction.\<close>

definition verified :: "('c, 's) loop_env \<Rightarrow> received transaction \<Rightarrow> bool" where
  "verified E t \<longleftrightarrow>
     transaction_validate (le_crates E) t = Done () \<and> le_acl E (tx_author t) = Inr True"

text \<open>
  The invariant, for what is known of the transactions that were let in: \<open>V\<close> is \<open>verified E\<close> for a loop
  whose access list stays the same, and weaker when the list changes during the run.
\<close>

definition loop_inv :: "(received transaction \<Rightarrow> bool) \<Rightarrow> ('c, 's) loop_state \<Rightarrow> bool" where
  "loop_inv V s \<longleftrightarrow>
     cache_ok (ls_program_cache s) \<and> cache_ok (ls_parent_cache s) \<and>
     (\<forall>w\<in>#waiting (ls_program_cache s) + waiting (ls_parent_cache s). V (ev_tx w)) \<and>
     (\<forall>w cb. (Inr w, cb) \<in> set (ls_done s) \<longrightarrow> V (ev_tx w)) \<and>
     (\<forall>tx\<in>set (mp_deque (ls_mempool s)). \<exists>t. V t \<and> tx = validated_tx t) \<and>
     (\<forall>tx\<in>set (p2p_sent (ls_p2p s)). \<exists>t. V t \<and> tx = validated_tx t \<and> tx_state t \<noteq> P2P)"

lemma loop_inv_mono: "(\<And>t. V t \<Longrightarrow> W t) \<Longrightarrow> loop_inv V s \<Longrightarrow> loop_inv W s"
  unfolding loop_inv_def by blast

lemma run_validation_facts:
  assumes "run_validation E peers e d ch = (r, d', ch')"
  shows "(\<forall>w. r = Done w \<longrightarrow> ev_tx w = ev_tx e \<and> verified E (ev_tx e)) \<and>
         (p2p_sent ch' = p2p_sent ch \<or>
          p2p_sent ch' = p2p_sent ch @ [validated_tx (ev_tx e)] \<and> verified E (ev_tx e) \<and>
          tx_state (ev_tx e) \<noteq> P2P)"
proof (cases "verify_tx (le_crates E) (le_acl E) e")
  case (Done de)
  then have v: "verified E (ev_tx e)" and de: "de = download_of_received e"
    by (auto simp: verified_def verify_tx_def validate_tx_def outcome_simps split: sum.splits if_splits)
  obtain o1 d1 where o1: "downlod_tx_assets (le_crates E) (le_http E) (le_io E) (le_root E) peers de d = (o1, d1)"
    by (rule prod.exhaust)
  show ?thesis
  proof (cases o1)
    case out: (Done wp)
    then have wp: "wp = (wait_of_download de, propagate_of_download de)"
      using o1 by (auto simp: downlod_tx_assets_def outcome_simps split: outcome.splits prod.splits sum.splits)
    show ?thesis
      using assms Done o1 out wp v de
      by (auto simp: run_validation_def propagate_of_download_def propagate_def Let_def
          split: received.splits option.splits if_splits)
  qed (use assms Done o1 in \<open>auto simp: run_validation_def\<close>)
qed (use assms in \<open>auto simp: run_validation_def\<close>)

lemma save_all_deque:
  assumes "save_all (mempool_send_new_tx set_tx) txs res m = (r, m')" and "tx \<in> set (mp_deque m')"
  shows "tx \<in> set (mp_deque m) \<or> (\<exists>t\<in>set txs. tx = validated_tx (ev_tx t))"
  using assms
proof (induction txs arbitrary: res m)
  case (Cons t ts)
  obtain r1 m1 where s: "save_tx (mempool_send_new_tx set_tx) t m = (r1, m1)" by (rule prod.exhaust)
  then have "set (mp_deque m1) \<subseteq> insert (validated_tx (ev_tx t)) (set (mp_deque m))"
    by (auto simp: save_tx_def mempool_send_new_tx_def mempool_add_def Let_def
        split: prod.splits sum.splits)
  moreover have "tx \<in> set (mp_deque m1) \<or> (\<exists>t\<in>set ts. tx = validated_tx (ev_tx t))"
    using Cons s by (auto split: sum.splits)
  ultimately show ?case by auto
qed simp

lemma reply_keeps [simp]:
  "ls_inbox (reply cb r s) = ls_inbox s" "ls_tasks (reply cb r s) = ls_tasks s"
  "ls_done (reply cb r s) = ls_done s" "ls_program_cache (reply cb r s) = ls_program_cache s"
  "ls_parent_cache (reply cb r s) = ls_parent_cache s" "ls_mempool (reply cb r s) = ls_mempool s"
  "ls_p2p (reply cb r s) = ls_p2p s" "ls_disk (reply cb r s) = ls_disk s"
  by (simp_all add: reply_def split: option.splits)

lemma loop_inv_reply [simp]: "loop_inv V (reply cb r s) = loop_inv V s"
  by (simp add: loop_inv_def)

lemma loop_inv_finish:
  assumes "loop_inv V s" and "\<And>t. verified E t \<Longrightarrow> V t"
  shows "loop_inv V (finish_task E t s)"
proof -
  obtain e peers cb where t: "t = (e, peers, cb)" by (rule prod_cases3)
  obtain r d ch where r: "run_validation E peers e (ls_disk s) (ls_p2p s) = (r, d, ch)"
    by (rule prod_cases3)
  note facts = run_validation_facts [OF r]
  have p2p: "\<exists>t. V t \<and> tx = validated_tx t \<and> tx_state t \<noteq> P2P" if "tx \<in> set (p2p_sent ch)" for tx
    using that facts assms by (fastforce simp: loop_inv_def)
  show ?thesis
    using facts assms p2p r t
    by (cases r) (auto simp: finish_task_def Let_def loop_inv_def)
qed

lemma loop_inv_deliver:
  assumes "loop_inv V s" and "\<forall>w. fst m = Inr w \<longrightarrow> V (ev_tx w)"
  shows "loop_inv V (deliver E now m s)"
proof (cases m)
  case (Pair x cb)
  show ?thesis
  proof (cases x)
    case (Inl e)
    with assms Pair show ?thesis by (simp add: deliver_def)
  next
    case (Inr w)
    let ?v = "validate_tx_dep (le_lru E) now (le_view E (mp_storage (ls_mempool s))) w
        (ls_program_cache s, ls_parent_cache s)"
    obtain r pc qc where r: "?v = (r, pc, qc)" by (rule prod_cases3)
    have ok: "cache_ok (ls_program_cache s)" "cache_ok (ls_parent_cache s)"
      using assms(1) by (simp_all add: loop_inv_def)
    have all: "V (ev_tx u)"
      if "u \<in># add_mset w (waiting (ls_program_cache s) + waiting (ls_parent_cache s))" for u
      using that assms Pair Inr by (auto simp: loop_inv_def)
    note caches = validate_tx_dep_caches [OF r ok]
    have wait: "V (ev_tx u)" if "u \<in># waiting pc + waiting qc" for u
      using that caches all by (meson mset_subset_eqD)
    show ?thesis
    proof (cases r)
      case err: (Inl y)
      with assms Pair Inr r caches wait show ?thesis
        by (auto simp: deliver_def loop_inv_def)
    next
      case txs: (Inr ts)
      obtain res mp where sv: "save_all (mempool_send_new_tx (le_set E)) ts (Inr ()) (ls_mempool s) = (res, mp)"
        by (rule prod.exhaust)
      have "\<exists>t. V t \<and> tx = validated_tx t" if "tx \<in> set (mp_deque mp)" for tx
        using save_all_deque [OF sv that] validate_tx_dep_released [OF r [unfolded txs] ok] all assms(1)
        unfolding loop_inv_def by metis
      with assms Pair Inr r txs caches wait sv show ?thesis
        by (auto simp: deliver_def loop_inv_def)
    qed
  qed
qed

lemma loop_inv_step:
  "loop_step E s s' \<Longrightarrow> loop_inv V s \<Longrightarrow> (\<And>t. verified E t \<Longrightarrow> V t) \<Longrightarrow> loop_inv V s'"
proof (induction rule: loop_step.induct)
  case (arrive s m)
  then show ?case by (simp add: loop_inv_def)
next
  case (receive s m q peers)
  then show ?case by (simp add: loop_inv_def receive_event_def)
next
  case (finish s xs t ys)
  then show ?case by (intro loop_inv_finish) (simp add: loop_inv_def)
next
  case (handle s xs m ys now)
  then show ?case by (intro loop_inv_deliver; cases m) (auto simp: loop_inv_def)
next
  case (pop s)
  then show ?case
    by (auto simp: loop_inv_def mempool_next_def split: list.splits)
qed

lemma loop_inv_reachable:
  "(loop_step E)\<^sup>*\<^sup>* s s' \<Longrightarrow> loop_inv (verified E) s \<Longrightarrow> loop_inv (verified E) s'"
  by (induction rule: rtranclp_induct) (auto intro: loop_inv_step)

lemma loop_inv_init: "loop_init E (mempool_new st) d = Done s \<Longrightarrow> loop_inv V s"
  by (auto simp: loop_init_def tx_cache_new_def tx_cache_build_def outcome_simps loop_inv_def
      cache_ok_def hm_ok_def waiting_def hm_empty_def mempool_new_def)

section \<open>Callbacks\<close>

definition callbacks :: "('c, 's) loop_state \<Rightarrow> callback multiset" where
  "callbacks s =
     mset (List.map_filter snd (ls_inbox s)) + mset (List.map_filter (\<lambda>t. snd (snd t)) (ls_tasks s)) +
     mset (List.map_filter snd (ls_done s)) + mset (map fst (ls_replies s))"

lemma map_filter_append [simp]:
  "List.map_filter f (xs @ ys) = List.map_filter f xs @ List.map_filter f ys"
  by (simp add: List.map_filter_def)

lemma map_filter_Cons:
  "List.map_filter f (x # xs) = (case f x of None \<Rightarrow> [] | Some y \<Rightarrow> [y]) @ List.map_filter f xs"
  by (simp add: List.map_filter_def split: option.splits)

lemma callbacks_reply:
  "callbacks (reply cb r s) = callbacks s + (case cb of None \<Rightarrow> {#} | Some k \<Rightarrow> {#k#})"
  by (simp add: callbacks_def reply_def split: option.splits)

lemma callbacks_finish:
  "ls_tasks s = xs @ t # ys \<Longrightarrow>
   callbacks (finish_task E t (s\<lparr> ls_tasks := xs @ ys \<rparr>)) = callbacks s"
  by (cases t; cases "run_validation E (fst (snd t)) (fst t) (ls_disk s) (ls_p2p s)")
     (auto simp: finish_task_def Let_def callbacks_reply map_filter_Cons List.map_filter_simps(2)
       callbacks_def reply_def split: outcome.splits option.splits)

lemma callbacks_deliver:
  "ls_done s = xs @ m # ys \<Longrightarrow>
   callbacks (deliver E now m (s\<lparr> ls_done := xs @ ys \<rparr>)) = callbacks s"
  by (cases m) (auto simp: deliver_def reply_def map_filter_Cons callbacks_def
      split: sum.splits prod.splits option.splits)

section \<open>Properties\<close>


definition sample_env :: "(nat \<times> hash list, validated transaction list) loop_env" where
  "sample_env =
     \<lparr> le_crates = sample_crates, le_acl = always_grant, le_http = sample_http, le_io = (\<lambda>_. None),
       le_root = ''/data'', le_lru = sample_lru, le_view = (\<lambda>_. empty_storage), le_set = log_storage \<rparr>"

definition sample_start :: "(nat \<times> hash list, validated transaction list) loop_state" where
  "sample_start =
     \<lparr> ls_inbox = [], ls_tasks = [], ls_done = [], ls_program_cache = sample_cache,
       ls_parent_cache = sample_cache, ls_mempool = mempool_new [],
       ls_p2p = \<lparr> p2p_open = True, p2p_sent = [] \<rparr>, ls_disk = [], ls_replies = [] \<rparr>"

lemma sample_start_init: "loop_init sample_env (mempool_new []) [] = Done sample_start"
  by (simp add: loop_init_def sample_env_def sample_cache_new sample_start_def)

definition sample_signed_tx :: "payload \<Rightarrow> received transaction" where
  "sample_signed_tx p =
     (case transaction_new sample_crates p (SecretKey 4) of
        Done t \<Rightarrow> into_received t RPC | _ \<Rightarrow> with_state RPC (transaction_default sample_crates Created))"

lemma sample_signed_tx_valid:
  assumes "distinct (get_run_programs_dep p)"
  shows "transaction_validate sample_crates (sample_signed_tx p) = Done ()"
    and "tx_payload (sample_signed_tx p) = p" and "tx_state (sample_signed_tx p) = RPC"
proof -
  obtain h where h: "compute_hash sample_crates \<lparr> tx_author = pk_from_secret_key sample_crates (SecretKey 4),
      tx_hash = hash_default, tx_payload = p, tx_nonce = 0, tx_signature = signature_default,
      tx_propagated = False, tx_executed = False, tx_state = Created \<rparr> = Done h"
    using compute_hash_total [of sample_crates] by force
  then obtain t where t: "transaction_new sample_crates p (SecretKey 4) = Done t"
    and p: "tx_payload t = p"
    by (simp add: transaction_new_def transaction_sign_Done)
  then have s: "sample_signed_tx p = into_received t RPC" by (simp add: sample_signed_tx_def)
  have "transaction_verify sample_crates (into_received t RPC) = Done True"
    using t by (intro sign_then_verify [where key = "SecretKey 4"]) (auto simp: transaction_new_def)
  with p assms show "transaction_validate sample_crates (sample_signed_tx p) = Done ()"
    "tx_payload (sample_signed_tx p) = p" "tx_state (sample_signed_tx p) = RPC"
    unfolding s by (simp_all add: transaction_validate_ok)
qed

definition sample_signed :: "received transaction" where
  "sample_signed = sample_signed_tx Empty"

lemma sample_signed_valid:
  "transaction_validate sample_crates sample_signed = Done ()" "tx_payload sample_signed = Empty"
  "tx_state sample_signed = RPC"
  by (simp_all add: sample_signed_def sample_signed_tx_valid)

text \<open>One transaction from the RPC interface, from arrival to the mempool.\<close>

definition sample_final :: "(nat \<times> hash list, validated transaction list) loop_state" where
  "sample_final =
     (let s1 = receive_event [] (sample_signed, Some 7) sample_start;
          s2 = finish_task sample_env (hd (ls_tasks s1)) (s1\<lparr> ls_tasks := [] \<rparr>)
      in deliver sample_env 0 (hd (ls_done s2)) (s2\<lparr> ls_done := [] \<rparr>))"

lemma sample_final_steps: "(loop_step sample_env)\<^sup>*\<^sup>* sample_start sample_final"
proof -
  let ?m = "(sample_signed, Some 7)"
  define s0 where "s0 = sample_start\<lparr> ls_inbox := [?m] \<rparr>"
  define s1 where "s1 = receive_event [] ?m sample_start"
  define s2 where "s2 = finish_task sample_env (hd (ls_tasks s1)) (s1\<lparr> ls_tasks := [] \<rparr>)"
  have a: "loop_step sample_env sample_start s0"
    using loop_step.arrive [of sample_env sample_start ?m] by (simp add: s0_def sample_start_def)
  have b: "loop_step sample_env s0 s1"
    using loop_step.receive [of s0 ?m "[]" sample_env "[]"]
    by (simp add: s0_def s1_def sample_start_def receive_event_def)
  have c: "loop_step sample_env s1 s2"
    using loop_step.finish [of s1 "[]" "hd (ls_tasks s1)" "[]" sample_env]
    by (simp add: s1_def s2_def receive_event_def sample_start_def)
  have "length (ls_done s2) = 1"
    by (simp add: s2_def s1_def receive_event_def sample_start_def finish_task_def run_validation_def
        verify_tx_def validate_tx_def sample_env_def sample_signed_valid always_grant_def
        downlod_tx_assets_def get_asset_list_def propagate_of_download_def propagate_def Let_def)
  then obtain m where m: "ls_done s2 = [m]" by (auto simp: length_Suc_conv)
  have "loop_step sample_env s2 (deliver sample_env 0 m (s2\<lparr> ls_done := [] @ [] \<rparr>))"
    by (rule loop_step.handle) (simp add: m)
  then have d: "loop_step sample_env s2 sample_final"
    using m by (simp add: sample_final_def s1_def [symmetric] s2_def [symmetric] Let_def)
  from a b c d show ?thesis by (meson converse_rtranclp_into_rtranclp rtranclp.rtrancl_refl)
qed




text \<open>
  a verified Deploy transaction whose image checksum is not hexadecimal makes its task panic;
  the panic is not reported as a validation result: nothing is handed to the loop, and a caller
  only sees its answer channel closed.
\<close>

theorem malformed_checksum_panics:
  assumes "tx_payload (ev_tx e) = Deploy n p v" and "verified E (ev_tx e)"
    and "hex_decode (le_crates E) (pm_image_file_checksum p) = Inl err"
  shows "finish_task E (e, peers, cb) s = reply cb (Inl RcvChannelError) s"
proof -
  have "verify_tx (le_crates E) (le_acl E) e = Done (download_of_received e)"
    using assms(2) by (simp add: verified_def verify_tx_def validate_tx_def)
  then have "run_validation E peers e (ls_disk s) (ls_p2p s) =
      (Panicked ''invalid value'', ls_disk s, ls_p2p s)"
    using assms
    by (simp add: run_validation_def downlod_tx_assets_def get_asset_list_def
        try_from_prg_meta_data_def hash_from_str_def)
  then show ?thesis by (simp add: finish_task_def Let_def await_callback_def)
qed

theorem malformed_checksum_panics_witness:
  "finish_task sample_env
     (event_of_tx (sample_signed_tx (Deploy [] (sample_metadata 1\<lparr> pm_image_file_checksum := ''zz'' \<rparr>) (sample_metadata 2))), [], Some 3)
     sample_start = reply (Some 3) (Inl RcvChannelError) sample_start"
proof (rule malformed_checksum_panics)
  let ?p = "Deploy [] (sample_metadata 1\<lparr> pm_image_file_checksum := ''zz'' \<rparr>) (sample_metadata 2)"
  show "tx_payload (ev_tx (event_of_tx (sample_signed_tx ?p))) = ?p"
    by (simp add: sample_signed_tx_valid)
  show "verified sample_env (ev_tx (event_of_tx (sample_signed_tx ?p)))"
    by (simp add: verified_def sample_env_def always_grant_def sample_signed_tx_valid)
  show "hex_decode (le_crates sample_env) (pm_image_file_checksum (sample_metadata 1\<lparr> pm_image_file_checksum := ''zz'' \<rparr>))
      = Inl ''Invalid character''"
    by (simp add: sample_env_def sample_crates_def hex_value_def hex_digits_def upt_conv_Cons)
qed

end
