(* ===== verification/Rpc_Service.thy ===== *)
theory Rpc_Service
  imports Cli Event_Loop
begin

text \<open>
  The RPC interface as a whole: the methods that \<open>RpcServer::run\<close> registers, over the validation loop and
  the database that \<open>main.rs\<close> gives to it, and the requests of the client against them. Here the client and the
  node of the other theories meet: what a command of the client sees is computed by the handlers of the server.
\<close>

section \<open>The loop over the database\<close>

text \<open>\<open>run\<close> hands the database to the loop three times: as mempool storage, for look-ups, and as access list.\<close>

definition database_env :: "('c, database) loop_env \<Rightarrow> pg \<Rightarrow> database \<Rightarrow> ('c, database) loop_env" where
  "database_env B P db =
     B\<lparr> le_acl := acl_contains P db, le_view := database_validate_storage P, le_set := add_transaction P \<rparr>"

lemma database_env_simps [simp]:
  "le_crates (database_env B P db) = le_crates B" "le_acl (database_env B P db) = acl_contains P db"
  "le_http (database_env B P db) = le_http B" "le_io (database_env B P db) = le_io B"
  "le_root (database_env B P db) = le_root B" "le_lru (database_env B P db) = le_lru B"
  "le_view (database_env B P db) = database_validate_storage P" "le_set (database_env B P db) = add_transaction P"
  by (simp_all add: database_env_def)

abbreviation loop_db :: "('c, database) loop_state \<Rightarrow> database" where
  "loop_db s \<equiv> mp_storage (ls_mempool s)"

text \<open>
  One message taken through an otherwise idle loop: received, verified, delivered. A panicking task is
  answered when it ends.
\<close>

definition serve_next ::
  "('c, database) loop_env \<Rightarrow> (socket_addr, u16 option) hmap \<Rightarrow> nat \<Rightarrow> ('c, database) loop_state
     \<Rightarrow> ('c, database) loop_state" where
  "serve_next E peers now s =
     (case ls_inbox s of
        [] \<Rightarrow> s
      | m # q \<Rightarrow>
          (let s1 = receive_event peers m (s\<lparr> ls_inbox := q \<rparr>);
               s2 = finish_task E (last (ls_tasks s1)) (s1\<lparr> ls_tasks := butlast (ls_tasks s1) \<rparr>)
           in case ls_done s2 of [] \<Rightarrow> s2 | x # xs \<Rightarrow> deliver E now x (s2\<lparr> ls_done := xs \<rparr>)))"

lemma serve_next_steps: "(loop_step E)\<^sup>*\<^sup>* s (serve_next E peers now s)"
proof (cases "ls_inbox s")
  case (Cons m q)
  define s1 where "s1 = receive_event peers m (s\<lparr> ls_inbox := q \<rparr>)"
  define s2 where "s2 = finish_task E (last (ls_tasks s1)) (s1\<lparr> ls_tasks := butlast (ls_tasks s1) \<rparr>)"
  have "loop_step E s s1" unfolding s1_def by (rule loop_step.receive [OF Cons])
  moreover have "ls_tasks s1 \<noteq> []" by (simp add: s1_def receive_event_def)
  then have "loop_step E s1 s2"
    using loop_step.finish [of s1 "butlast (ls_tasks s1)" "last (ls_tasks s1)" "[]" E] by (simp add: s2_def)
  moreover have "loop_step E s2 (deliver E now x (s2\<lparr> ls_done := xs \<rparr>))" if "ls_done s2 = x # xs" for x xs
    using loop_step.handle [of s2 "[]" x xs E now] that by simp
  ultimately show ?thesis
    by (auto simp: serve_next_def Cons s1_def [symmetric] s2_def [symmetric] Let_def split: list.split)
qed (simp add: serve_next_def)

section \<open>The server and its methods\<close>

definition rpc_methods :: "string list" where
  "rpc_methods = [''sendTransaction'', ''getTransaction'', ''getTransactionTree'']"

definition rpc_dispatch :: "string \<Rightarrow> (string + 'a) \<Rightarrow> string + 'a" where
  "rpc_dispatch name r = (if name \<in> set rpc_methods then r else Inl ''Method not found'')"

text \<open>
  The server that the client talks to. \<open>wire_tx\<close> and \<open>wire_hash\<close> are what the server parses of the
  parameters that the client serialises; \<open>cb\<close> is the answer channel of a request; a panic of a handler
  or a recursion that does not end leaves the request without an answer.
\<close>

record rpc_wire =
  wire_tx :: "created transaction \<Rightarrow> string + created transaction"
  wire_hash :: "hash \<Rightarrow> string + hash"

definition serve_send ::
  "('c, database) loop_env \<Rightarrow> pg \<Rightarrow> (socket_addr, u16 option) hmap \<Rightarrow> nat \<Rightarrow> callback
     \<Rightarrow> string + created transaction \<Rightarrow> ('c, database) loop_state \<Rightarrow> unit rpc_response \<times> ('c, database) loop_state" where
  "serve_send B P peers now cb params s =
     (let ch = \<lparr> ch_open = True, ch_queue = ls_inbox s \<rparr>;
          queued = s\<lparr> ls_inbox := ch_queue (snd (send_transaction_logic params cb None ch)) \<rparr>;
          s1 = serve_next (database_env B P (loop_db s)) peers now queued
      in (fst (send_transaction_logic params cb (map_of (ls_replies s1) cb) ch), s1))"

definition rpc_service ::
  "rpc_crates \<Rightarrow> rpc_wire \<Rightarrow> socket_addr \<Rightarrow> nat \<Rightarrow> ('c, database) loop_env \<Rightarrow> pg \<Rightarrow> (socket_addr, u16 option) hmap
     \<Rightarrow> nat \<Rightarrow> callback \<Rightarrow> ('c, database) loop_state rpc_node" where
  "rpc_service rc W host depth B P peers now cb =
     \<lparr> rn_send = (\<lambda>tx s. case serve_send B P peers now cb (wire_tx W tx) s of
                          (r, s1) \<Rightarrow> (rpc_dispatch ''sendTransaction'' (Inr r), s1)),
       rn_get_transaction = (\<lambda>h s.
         (rpc_dispatch ''getTransaction'' (Inr (get_transaction_logic rc (wire_hash W h) host P (loop_db s))), s)),
       rn_get_tx_tree = (\<lambda>h s.
         (rpc_dispatch ''getTransactionTree''
            (case get_tx_tree_logic (rc_crates rc) depth (wire_hash W h) P (loop_db s) of
               Some (Done r) \<Rightarrow> Inr r | _ \<Rightarrow> Inl ''connection closed''), s)) \<rparr>"

section \<open>A transaction with nothing to wait for\<close>

lemma no_children:
  "waiting_tx c = [] \<Longrightarrow> remove_waiting_children_txs h c = ([], c)"
  by (cases c) (simp add: remove_waiting_children_txs_def hmap_eval)

lemma programs_present:
  "\<forall>p\<in>set ps. vs_contains_program st p = Inr True \<Longrightarrow> program_dep_loop L now st e ps c = (Inr (Some e), c)"
  by (induction ps) (auto simp: wait_if_not_cached_def)

lemma release_nobody:
  "waiting_tx c = [] \<Longrightarrow> \<exists>c'. release_deployed L ps c = ([], c') \<and> waiting_tx c' = []"
proof (induction ps arbitrary: c)
  case (Cons p ps)
  have w: "waiting_tx (add_cached_tx L p c) = []" using Cons.prems by (simp add: add_cached_tx_def)
  from Cons.IH [OF w] show ?case by (auto simp: no_children [OF w])
qed simp

text \<open>What a transaction needs before it is saved.\<close>

definition needs_met :: "validate_storage \<Rightarrow> payload \<Rightarrow> bool" where
  "needs_met st p \<longleftrightarrow>
     (\<forall>h\<in>set (get_run_programs_dep p). vs_contains_program st h = Inr True) \<and>
     (\<forall>k. get_parent_tx p = Some k \<longrightarrow> storage_has_tx st k = Inr True)"

lemma manage_program_alone:
  assumes "waiting_tx pc = []" and "needs_met st (tx_payload (ev_tx e))"
  shows "\<exists>pc'. manage_program_dep L now st e pc = (Inr [e], pc') \<and> waiting_tx pc' = []"
  using assms programs_present [of "get_run_programs_dep (tx_payload (ev_tx e))" st L now e pc]
    release_nobody [OF assms(1), of L "get_deploy_programs (tx_payload (ev_tx e))"]
  by (auto simp: manage_program_dep_def needs_met_def)

lemma validate_alone:
  assumes "waiting_tx pc = []" and "waiting_tx qc = []" and "needs_met st (tx_payload (ev_tx e))"
  shows "\<exists>pc' qc'. validate_tx_dep L now st e (pc, qc) = (Inr [new_of_wait e], pc', qc')"
proof -
  obtain pc1 where p1: "manage_program_dep L now st e pc = (Inr [e], pc1)" "waiting_tx pc1 = []"
    using manage_program_alone [OF assms(1,3)] by blast
  have "wait_if_not_cached L now (storage_has_tx st) e (get_parent_tx (tx_payload (ev_tx e))) qc = (Inr (Some e), qc)"
    using assms(3) by (auto simp: wait_if_not_cached_def needs_met_def split: option.split)
  moreover obtain pc2 where "manage_program_dep L now st e pc1 = (Inr [e], pc2)"
    using manage_program_alone [OF p1(2) assms(3)] by blast
  then have "\<exists>pc2. revalidate_runs L now st [e] pc1 = (Inr [e], pc2)" by simp
  then obtain pc2 where "revalidate_runs L now st [e] pc1 = (Inr [e], pc2)" ..
  ultimately have "manage_parent_dep L now st e (pc1, qc) =
      (Inr [e], pc2, add_cached_tx L (tx_hash (ev_tx e)) qc)"
    by (simp add: manage_parent_dep_def no_children [OF assms(2)])
  then show ?thesis by (simp add: validate_tx_dep_def p1)
qed

text \<open>A program that is neither cached nor stored makes the transaction wait.\<close>

lemma program_missing:
  assumes "\<forall>p\<in>set ps. \<exists>b. vs_contains_program st p = Inr b"
    and "p \<in> set ps" and "\<not> is_tx_cached L c p" and "vs_contains_program st p = Inr False"
  shows "\<exists>k. program_dep_loop L now st e ps c = (Inr None, add_new_waiting_tx now k e c)"
  using assms
proof (induction ps)
  case (Cons q ps)
  obtain b where b: "vs_contains_program st q = Inr b" using Cons.prems(1) by auto
  show ?case
  proof (cases "is_tx_cached L c q \<or> b")
    case True
    then have "q \<noteq> p" using Cons.prems(3,4) b by auto
    with Cons True b show ?thesis by (auto simp: wait_if_not_cached_def)
  qed (use b in \<open>auto simp: wait_if_not_cached_def\<close>)
qed simp

section \<open>A request through an idle loop\<close>

definition idle :: "('c, 's) loop_state \<Rightarrow> bool" where
  "idle s \<longleftrightarrow>
     ls_inbox s = [] \<and> ls_tasks s = [] \<and> ls_done s = [] \<and> p2p_open (ls_p2p s) \<and>
     waiting_tx (ls_program_cache s) = [] \<and> waiting_tx (ls_parent_cache s) = []"

definition admitted :: "('c, database) loop_env \<Rightarrow> pg \<Rightarrow> database \<Rightarrow> received transaction \<Rightarrow> bool" where
  "admitted B P db rx \<longleftrightarrow>
     transaction_validate (le_crates B) rx = Done () \<and> acl_contains P db (tx_author rx) = Inr True"

definition fetched :: "('c, database) loop_env \<Rightarrow> (socket_addr, u16 option) hmap \<Rightarrow> disk \<Rightarrow> received transaction \<Rightarrow> disk \<Rightarrow> bool" where
  "fetched B peers d rx d' \<longleftrightarrow>
     (\<exists>x. downlod_tx_assets (le_crates B) (le_http B) (le_io B) (le_root B) (convert_peer_list_to_vec peers)
            (download_of_received (event_of_tx rx)) d = (Done x, d'))"

text \<open>An admitted transaction comes out of verification and is delivered; the network gets it on the way.\<close>

lemma serve_next_admitted:
  assumes "idle s" and "admitted B P (loop_db s) rx" and "fetched B peers (ls_disk s) rx d'" and "tx_state rx \<noteq> P2P"
  shows "serve_next (database_env B P (loop_db s)) peers now (s\<lparr> ls_inbox := [(rx, cb)] \<rparr>) =
    deliver (database_env B P (loop_db s)) now (Inr \<lparr> ev_tx = rx, ev_type = WaitTx \<rparr>, cb)
      (s\<lparr> ls_disk := d', ls_p2p := (ls_p2p s)\<lparr> p2p_sent := p2p_sent (ls_p2p s) @ [validated_tx rx] \<rparr> \<rparr>)"
proof -
  let ?e = "\<lparr> ev_tx = rx, ev_type = ReceivedTx \<rparr>" and ?d = "\<lparr> ev_tx = rx, ev_type = DownloadTx \<rparr>"
  let ?ps = "convert_peer_list_to_vec peers"
  have v: "verify_tx (le_crates B) (acl_contains P (loop_db s)) ?e = Done ?d"
    using assms(2) by (simp add: admitted_def verify_tx_def validate_tx_def download_of_received_def)
  obtain x where x: "downlod_tx_assets (le_crates B) (le_http B) (le_io B) (le_root B) ?ps ?d (ls_disk s) = (Done x, d')"
    using assms(3) by (auto simp: fetched_def event_of_tx_def download_of_received_def)
  then have "x = (wait_of_download ?d, propagate_of_download ?d)"
    by (auto simp: downlod_tx_assets_def outcome_simps split: outcome.splits prod.splits sum.splits)
  then have "x = (\<lparr> ev_tx = rx, ev_type = WaitTx \<rparr>, Some \<lparr> ev_tx = rx, ev_type = PropagateTx \<rparr>)"
    using assms(4) by (cases "tx_state rx") (simp_all add: wait_of_download_def propagate_of_download_def)
  then have "run_validation (database_env B P (loop_db s)) ?ps (event_of_tx rx) (ls_disk s) (ls_p2p s) =
      (Done \<lparr> ev_tx = rx, ev_type = WaitTx \<rparr>, d',
       (ls_p2p s)\<lparr> p2p_sent := p2p_sent (ls_p2p s) @ [validated_tx rx] \<rparr>)"
    using assms(1) x by (simp add: run_validation_def event_of_tx_def v propagate_def idle_def)
  with assms(1) show ?thesis
    by (cases s) (simp add: serve_next_def receive_event_def finish_task_def idle_def)
qed

section \<open>What the client sees\<close>

lemma serve_send_answer:
  assumes "ls_inbox s = []"
    and "serve_next (database_env B P (loop_db s)) peers now (s\<lparr> ls_inbox := [(into_received tx RPC, Some cb)] \<rparr>) = s1"
    and "map_of (ls_replies s1) cb = Some (Inr ())"
  shows "serve_send B P peers now cb (Inr tx) s = (RpcOk (), s1)"
  using assms by (simp add: serve_send_def Let_def send_transaction_logic_def rpc_send_tx_def channel_send_def await_callback_def)

text \<open>What one message through the idle loop comes to, when the transaction is saved and when it has to wait.\<close>

lemma submission_saved:
  assumes "idle s" and "admitted B P (loop_db s) rx" and "fetched B peers (ls_disk s) rx d'" and "tx_state rx \<noteq> P2P"
    and "needs_met (database_validate_storage P (loop_db s)) (tx_payload rx)"
    and "add_transaction P (validated_tx rx) (loop_db s) = (Inr (), db')"
    and "serve_next (database_env B P (loop_db s)) peers now (s\<lparr> ls_inbox := [(rx, Some cb)] \<rparr>) = s1"
  shows "ls_replies s1 = ls_replies s @ [(cb, Inr ())] \<and> loop_db s1 = db' \<and>
         mp_deque (ls_mempool s1) = mp_deque (ls_mempool s) @ [validated_tx rx] \<and>
         p2p_sent (ls_p2p s1) = p2p_sent (ls_p2p s) @ [validated_tx rx]"
proof -
  let ?w = "\<lparr> ev_tx = rx, ev_type = WaitTx \<rparr>"
  obtain pc qc where "validate_tx_dep (le_lru B) now (database_validate_storage P (loop_db s)) ?w
      (ls_program_cache s, ls_parent_cache s) = (Inr [new_of_wait ?w], pc, qc)"
    using validate_alone [of "ls_program_cache s" "ls_parent_cache s" "database_validate_storage P (loop_db s)" ?w "le_lru B" now]
      assms(1,5) by (auto simp: idle_def)
  then show ?thesis
    using assms(6) assms(7) [unfolded serve_next_admitted [OF assms(1-4)], symmetric]
    by (simp add: deliver_def save_tx_def mempool_send_new_tx_def mempool_add_def new_of_wait_def
        reply_def into_mempool_error_def)
qed

lemma submission_waits:
  assumes "idle s" and "admitted B P (loop_db s) rx" and "fetched B peers (ls_disk s) rx d'" and "tx_state rx \<noteq> P2P"
    and "\<forall>p\<in>set (get_run_programs_dep (tx_payload rx)). \<exists>b. contains_program P p (loop_db s) = Inr b"
    and "p \<in> set (get_run_programs_dep (tx_payload rx))" and "\<not> is_tx_cached (le_lru B) (ls_program_cache s) p"
    and "contains_program P p (loop_db s) = Inr False"
    and "serve_next (database_env B P (loop_db s)) peers now (s\<lparr> ls_inbox := [(rx, Some cb)] \<rparr>) = s1"
  shows "ls_replies s1 = ls_replies s @ [(cb, Inr ())] \<and> ls_mempool s1 = ls_mempool s \<and>
         p2p_sent (ls_p2p s1) = p2p_sent (ls_p2p s) @ [validated_tx rx] \<and>
         (\<exists>k. ls_program_cache s1 =
            add_new_waiting_tx now k \<lparr> ev_tx = rx, ev_type = WaitTx \<rparr> (ls_program_cache s))"
proof -
  let ?w = "\<lparr> ev_tx = rx, ev_type = WaitTx \<rparr>" and ?st = "database_validate_storage P (loop_db s)"
  obtain k where "program_dep_loop (le_lru B) now ?st ?w (get_run_programs_dep (tx_payload rx)) (ls_program_cache s) =
      (Inr None, add_new_waiting_tx now k ?w (ls_program_cache s))"
    using program_missing [where st = ?st and L = "le_lru B" and c = "ls_program_cache s" and p = p and now = now and e = ?w] assms(5-8)
    by (auto simp: database_validate_storage_def)
  then have "validate_tx_dep (le_lru B) now ?st ?w (ls_program_cache s, ls_parent_cache s) =
      (Inr [], add_new_waiting_tx now k ?w (ls_program_cache s), ls_parent_cache s)"
    by (simp add: validate_tx_dep_def manage_program_dep_def)
  then show ?thesis
    using assms(9) [unfolded serve_next_admitted [OF assms(1-4)], symmetric]
    by (auto simp: deliver_def reply_def into_mempool_error_def)
qed

lemma client_asks_service:
  assumes "wire_tx W tx = Inr tx" and "wire_hash W (tx_hash tx) = Inr (tx_hash tx)"
    and "serve_send B P peers now cb (Inr tx) s = (RpcOk (), s1)"
  shows "cli_send_transaction L (rpc_service rc W host depth B P peers now cb) tx s =
    (case get_transaction_logic rc (Inr (tx_hash tx)) host P (loop_db s1) of
       RpcErr e \<Rightarrow> (Failed (''Error during send  get_transaction from the node:'' @ ''RPC response error:'' @ rpc_error_display e), s1)
     | RpcOk t \<Rightarrow>
         if hash_display (cl_crates L) (tx_hash tx) \<noteq> rt_hash t
         then (Failed (''Error get_transaction doesn'' @ [CHR 0x27] @ ''t return the right tx send tx:'' @
                 hash_display (cl_crates L) (tx_hash tx) @ '' read tx:'' @ cl_debug_tx L t), s1)
         else (Done (tx_hash tx), s1))"
  using assms
  by (simp add: cli_send_transaction_def client_send_transaction_def client_get_transaction_def rpc_request_def
      rpc_service_def rpc_dispatch_def rpc_methods_def of_sum_def split: rpc_response.split)

section \<open>Properties\<close>


text \<open>
  C32: A Run whose program the node does not have yet is accepted and answered with success, spread to the peers and
  kept waiting; the client all the same reports that sending failed, because it reads the transaction back at
  once and what waits is not in the database.
\<close>

theorem waiting_submission_reported_failed:
  assumes "idle s" and "map_of (ls_replies s) cb = None"
    and "wire_tx W tx = Inr tx" and "wire_hash W (tx_hash tx) = Inr (tx_hash tx)"
    and "transaction_validate (le_crates B) (into_received tx RPC) = Done ()"
    and "tx_author tx \<in> set (db_acl_whitelist (loop_db s))" and "reads P"
    and "fetched B peers (ls_disk s) (into_received tx RPC) d'"
    and "\<forall>p\<in>set (get_run_programs_dep (tx_payload tx)). \<exists>b. contains_program P p (loop_db s) = Inr b"
    and "p \<in> set (get_run_programs_dep (tx_payload tx))" and "\<not> is_tx_cached (le_lru B) (ls_program_cache s) p"
    and "contains_program P p (loop_db s) = Inr False" and "find_transaction P (tx_hash tx) (loop_db s) = Inr None"
  shows "\<exists>s1. serve_send B P peers now cb (Inr tx) s = (RpcOk (), s1) \<and>
    cli_send_transaction L (rpc_service rc W host depth B P peers now cb) tx s =
      (Failed (''Error during send  get_transaction from the node:'' @ ''RPC response error:'' @
         ''not found: '' @ hash_display (rc_crates rc) (tx_hash tx)), s1) \<and>
    p2p_sent (ls_p2p s1) = p2p_sent (ls_p2p s) @ [validated_tx (into_received tx RPC)] \<and>
    (\<exists>k. ls_program_cache s1 = add_new_waiting_tx now k \<lparr> ev_tx = into_received tx RPC, ev_type = WaitTx \<rparr> (ls_program_cache s))"
proof -
  let ?rx = "into_received tx RPC"
  have keep: "tx_payload ?rx = tx_payload tx" "tx_author ?rx = tx_author tx" "tx_state ?rx \<noteq> P2P"
    by (simp_all add: into_received_def)
  have adm: "admitted B P (loop_db s) ?rx"
    using assms(5-7) by (simp add: admitted_def acl_contains_def acl_whitelist_has_def keep)
  define s1 where "s1 = serve_next (database_env B P (loop_db s)) peers now (s\<lparr> ls_inbox := [(?rx, Some cb)] \<rparr>)"
  note waits = submission_waits [OF assms(1) adm assms(8) keep(3) _ _ assms(11,12) s1_def [symmetric], unfolded keep,
      OF assms(9,10)]
  have send: "serve_send B P peers now cb (Inr tx) s = (RpcOk (), s1)"
    using serve_send_answer [OF _ s1_def [symmetric]] waits assms(1,2) by (simp add: idle_def map_add_def)
  then show ?thesis
    using client_asks_service [OF assms(3,4) send, of L rc host depth] waits assms(13)
    by (simp add: get_transaction_logic_def)
qed

section \<open>Concrete requests\<close>

definition sample_base :: "(nat \<times> hash list, database) loop_env" where
  "sample_base =
     \<lparr> le_crates = sample_crates, le_acl = always_grant, le_http = sample_http, le_io = (\<lambda>_. None), le_root = ''/data'',
       le_lru = sample_lru, le_view = (\<lambda>_. empty_storage), le_set = (\<lambda>_ db. (Inr (), db)) \<rparr>"

text \<open>A database with one program and the key of the client, and a loop over it.\<close>

definition sample_client_db :: "program_row list \<Rightarrow> database" where
  "sample_client_db ps =
     database_empty\<lparr> db_program := ps, db_acl_whitelist := [pk_from_secret_key sample_crates (SecretKey 4)] \<rparr>"

definition sample_serving :: "program_row list \<Rightarrow> (nat \<times> hash list, database) loop_state" where
  "sample_serving ps =
     \<lparr> ls_inbox = [], ls_tasks = [], ls_done = [], ls_program_cache = sample_cache, ls_parent_cache = sample_cache,
       ls_mempool = mempool_new (sample_client_db ps), ls_p2p = \<lparr> p2p_open = True, p2p_sent = [] \<rparr>, ls_disk = [],
       ls_replies = [] \<rparr>"

definition sample_rpc :: rpc_crates where
  "sample_rpc = \<lparr> rc_crates = sample_crates, rc_url = (\<lambda>ip port u. ip @ u), rc_base64 = (\<lambda>_. []), rc_bigint = (\<lambda>_. []) \<rparr>"

abbreviation sample_wire :: rpc_wire where
  "sample_wire \<equiv> \<lparr> wire_tx = Inr, wire_hash = Inr \<rparr>"

abbreviation sample_one_step :: payload where
  "sample_one_step \<equiv> Run \<lparr> steps = [\<lparr> ws_program = sample_hash 11, ws_args = [], ws_inputs = [] \<rparr>] \<rparr>"

lemma sample_client_tx:
  "\<exists>tx. transaction_new sample_crates sample_one_step (SecretKey 4) = Done tx \<and>
     transaction_validate sample_crates (into_received tx RPC) = Done () \<and>
     tx_author tx = pk_from_secret_key sample_crates (SecretKey 4) \<and> tx_payload tx = sample_one_step"
proof -
  obtain tx where t: "transaction_new sample_crates sample_one_step (SecretKey 4) = Done tx"
    using sample_transaction_new by blast
  obtain h where "compute_hash sample_crates \<lparr> tx_author = pk_from_secret_key sample_crates (SecretKey 4),
      tx_hash = hash_default, tx_payload = sample_one_step, tx_nonce = 0, tx_signature = signature_default,
      tx_propagated = False, tx_executed = False, tx_state = Created \<rparr> = Done h"
    using compute_hash_total [of sample_crates] by force
  with t have a: "tx_author tx = pk_from_secret_key sample_crates (SecretKey 4)" "tx_payload tx = sample_one_step"
    by (auto simp: transaction_new_def transaction_sign_Done)
  have "transaction_verify sample_crates (into_received tx RPC) = Done True"
    using t by (intro sign_then_verify [where key = "SecretKey 4"]) (auto simp: transaction_new_def)
  with t a show ?thesis by (intro exI [of _ tx]) (simp add: transaction_validate_ok)
qed

lemma sample_fetched: "tx_payload rx = sample_one_step \<Longrightarrow> fetched sample_base [] [] rx []"
  by (simp add: fetched_def sample_base_def downlod_tx_assets_def get_asset_list_def event_of_tx_def download_of_received_def)

lemma sample_serving_idle: "idle (sample_serving ps)"
  by (simp add: idle_def sample_serving_def sample_cache_def hm_empty_def)

abbreviation sample_row :: program_row where
  "sample_row \<equiv> \<lparr> pr_hash = sample_hash 11, pr_name = [], pr_image_file_name = [], pr_image_file_url = [],
     pr_image_file_checksum = [] \<rparr>"

lemma sample_serving_db [simp]:
  "loop_db (sample_serving ps) = sample_client_db ps" "ls_replies (sample_serving ps) = []" "ls_disk (sample_serving ps) = []"
  "ls_program_cache (sample_serving ps) = sample_cache" "mp_deque (ls_mempool (sample_serving ps)) = []"
  "p2p_sent (ls_p2p (sample_serving ps)) = []"
  by (simp_all add: sample_serving_def mempool_new_def)

lemma sample_contains:
  "contains_program pg_plain (sample_hash 11) (sample_client_db [sample_row]) = Inr True"
  "contains_program pg_plain (sample_hash 11) (sample_client_db []) = Inr False"
  by (simp_all add: contains_program_def find_program_def get_program_def exec_def pg_plain_def sample_client_db_def
      program_of_row_def database_empty_def)


theorem waiting_submission_reported_failed_witness:
  "\<exists>tx s1. tx_payload tx = sample_one_step \<and>
    serve_send sample_base pg_plain [] 0 7 (Inr tx) (sample_serving []) = (RpcOk (), s1) \<and>
    cli_send_transaction sample_cli (rpc_service sample_rpc sample_wire HTTP_DEFAULT_ADDR 9 sample_base pg_plain [] 0 7) tx (sample_serving []) =
      (Failed (''Error during send  get_transaction from the node:'' @ ''RPC response error:'' @
         ''not found: '' @ hash_display sample_crates (tx_hash tx)), s1) \<and>
    p2p_sent (ls_p2p s1) = [validated_tx (into_received tx RPC)]"
proof -
  obtain tx where tx: "transaction_validate sample_crates (into_received tx RPC) = Done ()"
    "tx_author tx = pk_from_secret_key sample_crates (SecretKey 4)" "tx_payload tx = sample_one_step"
    using sample_client_tx by blast
  let ?s = "sample_serving []"
  have p: "tx_payload (into_received tx RPC) = sample_one_step" using tx(3) by (simp add: into_received_def)
  have f: "find_transaction pg_plain (tx_hash tx) (loop_db ?s) = Inr None"
    by (simp add: find_transaction_def exec_def pg_plain_def sample_client_db_def database_empty_def)
  have fe: "fetched sample_base [] (ls_disk ?s) (into_received tx RPC) []" using sample_fetched [OF p] by simp
  have cp: "\<forall>p\<in>set (get_run_programs_dep (tx_payload tx)). \<exists>b. contains_program pg_plain p (loop_db ?s) = Inr b"
    using sample_contains(2) tx(3) by auto
  have "\<exists>s1. serve_send sample_base pg_plain [] 0 7 (Inr tx) ?s = (RpcOk (), s1) \<and>
    cli_send_transaction sample_cli (rpc_service sample_rpc sample_wire HTTP_DEFAULT_ADDR 9 sample_base pg_plain [] 0 7) tx ?s =
      (Failed (''Error during send  get_transaction from the node:'' @ ''RPC response error:'' @
         ''not found: '' @ hash_display (rc_crates sample_rpc) (tx_hash tx)), s1) \<and>
    p2p_sent (ls_p2p s1) = p2p_sent (ls_p2p ?s) @ [validated_tx (into_received tx RPC)] \<and>
    (\<exists>k. ls_program_cache s1 = add_new_waiting_tx 0 k \<lparr> ev_tx = into_received tx RPC, ev_type = WaitTx \<rparr> (ls_program_cache ?s))"
    by (rule waiting_submission_reported_failed [where p = "sample_hash 11", OF sample_serving_idle _ _ _ _ _ reads_samples(1) fe cp _ _ _ f])
      (use tx sample_contains(2) in \<open>simp_all add: sample_base_def sample_client_db_def is_tx_cached_def sample_lru_def sample_cache_def\<close>)
  with tx(3) show ?thesis by (auto simp: sample_rpc_def)
qed

end
