(* ===== verification/Cli_Main.thy ===== *)
theory Cli_Main
  imports Rpc_Service
begin

text \<open>
  \<open>crates/cli/src/main.rs\<close>: the commands of the client, from the parsed arguments to the lines they print.
  The libraries that only this part uses are parameters: building the HTTP client, the text of a path in
  messages and the JSON of a transaction.
\<close>

section \<open>Arguments\<close>

datatype conf_commands =
    GenerateKey
  | ShowPublicKey
  | DeployCmd (dc_name: string) (dc_prover: string) (dc_verifier: string) (dc_prover_name: "string option")
      (dc_verifier_name: "string option") (dc_prover_img_url: "string option") (dc_verifier_img_url: "string option")
      (dc_prover_cpus: "u64 option") (dc_prover_mem: "u64 option") (dc_prover_gpus: "u64 option")
      (dc_verifier_cpus: "u64 option") (dc_verifier_mem: "u64 option") (dc_verifier_gpus: "u64 option")
      (dc_listen_addr: socket_addr)
  | ExecCmd "socket_addr option" string
  | PrintTxTree string
  | GetTx string
  | CalculateHash path

record arg_configuration =
  ac_json_url :: string
  ac_rpc_timeout :: "u64 option"
  ac_keyfile :: path
  ac_command :: conf_commands

text \<open>The arguments when only a command is given.\<close>

definition arg_defaults :: "conf_commands \<Rightarrow> arg_configuration" where
  "arg_defaults c =
     \<lparr> ac_json_url = ''http://localhost:9944'', ac_rpc_timeout = None, ac_keyfile = ''localkey.pki'', ac_command = c \<rparr>"

text \<open>\<open>number_range\<close> of the \<open>clap_num\<close> library parses the number and compares it with the bounds.\<close>

definition gpus_parser :: "(string \<Rightarrow> u64 \<Rightarrow> u64 \<Rightarrow> string + u64) \<Rightarrow> string \<Rightarrow> string + u64" where
  "gpus_parser number_range s = number_range s 0 1"

section \<open>The client\<close>

record rpc_client_builder =
  cb_request_timeout :: u64

definition rpc_client_builder_default :: rpc_client_builder where
  "rpc_client_builder_default = \<lparr> cb_request_timeout = 60 \<rparr>"

definition request_timeout :: "u64 \<Rightarrow> rpc_client_builder \<Rightarrow> rpc_client_builder" where
  "request_timeout t b = b\<lparr> cb_request_timeout := t \<rparr>"

record 'w cli_env =
  ce_libs :: cli_libs
  ce_io :: io_errors
  ce_build :: "u64 \<Rightarrow> string \<Rightarrow> string + 'w rpc_node"
  ce_random_key :: secret_key
  ce_events :: "serve_event list"
  ce_debug_path :: "path \<Rightarrow> string"
  ce_tx_json :: "rpc_transaction \<Rightarrow> string + string"

definition build_client :: "'w cli_env \<Rightarrow> arg_configuration \<Rightarrow> (string, 'w rpc_node) outcome" where
  "build_client E args =
     (let b = rpc_client_builder_default;
          b = (case ac_rpc_timeout args of Some t \<Rightarrow> request_timeout t b | None \<Rightarrow> b)
      in expect ''build rpc client''
           (case ce_build E (cb_request_timeout b) (ac_json_url args) of Inl _ \<Rightarrow> None | Inr n \<Rightarrow> Some n))"

section \<open>The commands\<close>

abbreviation newline :: string where
  "newline \<equiv> [CHR 0x0A]"

text \<open>
  What is printed: the output of a command is its lines. The state is the disk and the world of the node;
  a panic keeps what was done before it, and \<open>None\<close> is a command that does not end.
\<close>

definition pubkey_hex :: "cli_libs \<Rightarrow> public_key \<Rightarrow> string" where
  "pubkey_hex L k = hex_encode (cl_crates L) (pk_serialize (cl_crates L) k)"

definition generate_key_cmd :: "'w cli_env \<Rightarrow> path \<Rightarrow> disk \<Rightarrow> string list \<times> disk" where
  "generate_key_cmd E keyfile d =
     (case create_key_file (ce_libs E) (ce_io E) (ce_random_key E) keyfile d of
        (Inr pubkey, d1) \<Rightarrow>
          ([''Key generated  pubkey:'' @ pubkey_hex (ce_libs E) pubkey @ '' and saved in file:'' @ keyfile], d1)
      | (Inl err, d1) \<Rightarrow> ([''Error during key file creation:'' @ err], d1))"

definition show_public_key_cmd :: "'w cli_env \<Rightarrow> path \<Rightarrow> disk \<Rightarrow> string list" where
  "show_public_key_cmd E keyfile d =
     (case read_key_file (ce_libs E) (ce_io E) keyfile d of
        Inr sk \<Rightarrow> [''Public key: '' @ pubkey_hex (ce_libs E) (pk_from_secret_key (cl_crates (ce_libs E)) sk)]
      | Inl err \<Rightarrow>
          [''Error: Couldn'' @ [CHR 0x27] @ ''t read the keyfile '' @ ce_debug_path E keyfile @ '': '' @ err])"

definition deploy_args_of :: "conf_commands \<Rightarrow> deploy_args" where
  "deploy_args_of c =
     \<lparr> da_name = dc_name c, da_prover = dc_prover c, da_verifier = dc_verifier c, da_prover_name = dc_prover_name c,
       da_verifier_name = dc_verifier_name c, da_prover_img_url = dc_prover_img_url c,
       da_verifier_img_url = dc_verifier_img_url c,
       da_prover_reqs = resource_requirements (dc_prover_cpus c) (dc_prover_mem c) (dc_prover_gpus c),
       da_verifier_reqs = resource_requirements (dc_verifier_cpus c) (dc_verifier_mem c) (dc_verifier_gpus c),
       da_listen_addr = dc_listen_addr c \<rparr>"

text \<open>A result of a command as a line: the panics stay panics.\<close>

definition print_result ::
  "('a \<Rightarrow> string list) \<Rightarrow> (string \<Rightarrow> string) \<Rightarrow> (string, 'a) outcome \<Rightarrow> (string, string list) outcome" where
  "print_result ok err r =
     (case r of Done x \<Rightarrow> Done (ok x) | Failed e \<Rightarrow> Done [err e] | Panicked m \<Rightarrow> Panicked m)"

definition deployed_lines :: "string \<times> string \<times> string \<Rightarrow> string list" where
  "deployed_lines x =
     (case x of (tx, prover, verifier) \<Rightarrow>
       [''Prover / Verifier deployed correctly.'' @ newline @ ''Prover hash:'' @ prover @ newline @
        ''Verifier hash:'' @ verifier @ ''.'' @ newline @ ''Tx Hash:'' @ tx])"

definition run_command ::
  "'w cli_env \<Rightarrow> 'w rpc_node \<Rightarrow> path \<Rightarrow> conf_commands \<Rightarrow> disk \<times> 'w
     \<Rightarrow> ((string, string list) outcome \<times> disk \<times> 'w) option" where
  "run_command E client keyfile c s =
     (let L = ce_libs E; io = ce_io E; d = fst s; w = snd s
      in case c of
           GenerateKey \<Rightarrow> (case generate_key_cmd E keyfile d of (ls, d1) \<Rightarrow> Some (Done ls, d1, w))
         | ShowPublicKey \<Rightarrow> Some (Done (show_public_key_cmd E keyfile d), d, w)
         | DeployCmd _ _ _ _ _ _ _ _ _ _ _ _ _ _ \<Rightarrow>
             map_option (\<lambda>(r, w1).
                 (obind (print_result deployed_lines (\<lambda>e. ''An error occurs during Prover / Verifier deployment :'' @ e) r)
                    (\<lambda>ls. Done (''Start prover / verifier deployment'' # ls)), d, w1))
               (run_deploy_command L io d client (ce_events E) keyfile (deploy_args_of c) w)
         | ExecCmd listen_addr tasks \<Rightarrow>
             map_option (\<lambda>(r, w1).
                 (print_result (\<lambda>h. [''Programs send to execution correctly. Tx hash:'' @ h])
                    (\<lambda>e. ''An error occurs during send execution Tx :'' @ e) r, d, w1))
               (run_exec_command L io d client (ce_events E) keyfile tasks listen_addr w)
         | CalculateHash file \<Rightarrow>
             Some (print_result (\<lambda>h. [''The hash of the file is: '' @ h]) (\<lambda>e. ''An error hash calculus Tx :'' @ e)
                     (of_sum (calculate_hash_command L io d file)), d, w)
         | PrintTxTree hash \<Rightarrow>
             Some (case hash_from_str (cl_crates L) hash of
                     Done h \<Rightarrow>
                       (case client_get_tx_tree client h w of
                          (r, w1) \<Rightarrow>
                            (print_result (\<lambda>t. print_tx_tree (cl_crates L) t 0)
                               (\<lambda>e. ''An error while fetching transaction tree: '' @ e) r, d, w1))
                   | Failed e \<Rightarrow> (Failed e, d, w)
                   | Panicked m \<Rightarrow> (Panicked m, d, w))
         | GetTx hash \<Rightarrow>
             Some (case hash_from_str (cl_crates L) hash of
                     Done h \<Rightarrow>
                       (case client_get_transaction client h w of
                          (r, w1) \<Rightarrow>
                            (print_result (\<lambda>j. [j]) (\<lambda>e. ''An error while getting Tx : '' @ e)
                               (obind r (\<lambda>t. of_sum (ce_tx_json E t))), d, w1))
                   | Failed e \<Rightarrow> (Failed e, d, w)
                   | Panicked m \<Rightarrow> (Panicked m, d, w)))"

definition cli_main ::
  "'w cli_env \<Rightarrow> arg_configuration \<Rightarrow> disk \<times> 'w \<Rightarrow> ((string, string list) outcome \<times> disk \<times> 'w) option" where
  "cli_main E args s =
     (case build_client E args of
        Done client \<Rightarrow> run_command E client (ac_keyfile args) (ac_command args) s
      | Failed e \<Rightarrow> Some (Failed e, s)
      | Panicked m \<Rightarrow> Some (Panicked m, s))"

section \<open>Correctness\<close>

text \<open>
  A generated key is the one that is shown: after \<open>generate-key\<close> on a new file, \<open>show-public-key\<close> prints the
  same public key, and \<open>generate-key\<close> on the file that is there now leaves it as it is.
\<close>

theorem generated_key_shown:
  assumes "cl_sk_parse (ce_libs E) (cl_sk_serialize (ce_libs E) (ce_random_key E)) = Inr (ce_random_key E)"
    and "\<not> fs_exists (ce_io E) d keyfile" and "ce_io E (CreateFile keyfile) = None"
    and "ce_io E (OpenFile keyfile) = None" and "ce_io E (TryExists keyfile) = None"
  shows "\<exists>hex d1. generate_key_cmd E keyfile d = ([''Key generated  pubkey:'' @ hex @ '' and saved in file:'' @ keyfile], d1) \<and>
    show_public_key_cmd E keyfile d1 = [''Public key: '' @ hex] \<and>
    snd (generate_key_cmd E keyfile d1) = d1"
  using assms
  by (auto simp: generate_key_cmd_def show_public_key_cmd_def create_key_file_def read_key_file_def fs_write_def
      fs_lookup_def fs_exists_def fs_open_def hm.get_insert)

end
