(* ===== verification/Metrics.thy ===== *)
theory Metrics
  imports Tx_Types
begin

text \<open>
  \<open>metrics/mod.rs\<close>: the metrics of the node, their registration and their export. The registry and the
  encoders are those of the prometheus and zstd libraries, a parameter with the contract of
  \<open>Registry::register\<close>. The metrics are created when they are first used, which is at their registration.
\<close>

section \<open>The metrics\<close>

datatype metric =
    IntCounter (metric_name: string) string
  | IntGauge (metric_name: string) string
  | HistogramVec (metric_name: string) string "string list"

definition metrics_rpc :: "metric list" where
  "metrics_rpc =
     [IntCounter ''rpc_incoming_requests'' ''Incoming RPC Requests'',
      HistogramVec ''rpc_response_time'' ''RPC Response Times'' [''method'']]"

definition metrics_p2p :: "metric list" where
  "metrics_p2p =
     [IntGauge ''p2p_protocol_version'' ''P2P Protocol Version'',
      IntGauge ''p2p_connected_peers'' ''Connected P2P Peers'',
      IntCounter ''p2p_incoming_messages'' ''Incoming P2P Messages'']"

definition metrics_tx :: "metric list" where
  "metrics_tx =
     [HistogramVec ''tx_execution_time'' ''Transaction Execution Times (ms)'' [''kind'', ''status''],
      IntCounter ''tx_scheduling_requeued'' ''Transaction Requeued in Scheduling'']"

definition metrics_resources :: "metric list" where
  "metrics_resources =
     [IntGauge ''gevulot_cpus_available'' ''Available CPUs in Gevulot'',
      IntGauge ''gevulot_mem_available'' ''Available MEM in Gevulot'',
      IntGauge ''gevulot_gpus_available'' ''Available GPUs in Gevulot'',
      IntGauge ''gevulot_cpus_total'' ''Total number of CPUs in Gevulot'',
      IntGauge ''gevulot_mem_total'' ''Total amount of MEM in Gevulot'',
      IntGauge ''gevulot_gpus_total'' ''Total number of GPUs in Gevulot'']"

section \<open>Registration and export\<close>

record 'r registry_lib =
  rg_valid :: "metric \<Rightarrow> bool"
  rg_register :: "metric \<Rightarrow> 'r \<Rightarrow> string + 'r"
  rg_gather :: "'r \<Rightarrow> metric list"
  rg_text :: "metric list \<Rightarrow> string + byte list"
  rg_zstd :: "byte list \<Rightarrow> string + byte list"

fun register_all :: "'r registry_lib \<Rightarrow> metric list \<Rightarrow> 'r \<Rightarrow> ('e, 'r) outcome" where
  "register_all L [] r = Done r"
| "register_all L (m # ms) r =
     (if rg_valid L m
      then (case rg_register L m r of
              Inl _ \<Rightarrow> Panicked ''collector can be registered''
            | Inr r1 \<Rightarrow> register_all L ms r1)
      else Panicked ''metric can be created'')"

definition register_metrics :: "'r registry_lib \<Rightarrow> 'r \<Rightarrow> ('e, 'r) outcome" where
  "register_metrics L r = register_all L (metrics_rpc @ metrics_p2p @ metrics_tx @ metrics_resources) r"

definition export_metrics :: "'r registry_lib \<Rightarrow> 'r \<Rightarrow> ('e, byte list) outcome" where
  "export_metrics L r =
     (case rg_text L (rg_gather L r) of
        Inl _ \<Rightarrow> Panicked ''encoded prometheus metrics''
      | Inr text \<Rightarrow>
          (case rg_zstd L text of Inl _ \<Rightarrow> Panicked ''finish metrics compression'' | Inr bs \<Rightarrow> Done bs))"

section \<open>Correctness\<close>

text \<open>
  What the registry documents: a collector is refused if and only if its name is taken, and is gathered
  from then on. The names of the code are valid ones.
\<close>

definition valid_name :: "string \<Rightarrow> bool" where
  "valid_name n \<longleftrightarrow> n \<noteq> [] \<and> list_all (\<lambda>c. List.member ''abcdefghijklmnopqrstuvwxyz0123456789_'' c) n"

definition registry_ok :: "'r registry_lib \<Rightarrow> bool" where
  "registry_ok L \<longleftrightarrow>
     (\<forall>m. rg_valid L m \<longleftrightarrow> valid_name (metric_name m)) \<and>
     (\<forall>m r. if metric_name m \<in> metric_name ` set (rg_gather L r) then isl (rg_register L m r)
            else \<exists>r1. rg_register L m r = Inr r1 \<and> set (rg_gather L r1) = insert m (set (rg_gather L r)))"

lemma register_all_fresh:
  assumes "registry_ok L"
  shows "\<forall>m\<in>set ms. rg_valid L m \<Longrightarrow> distinct (map metric_name ms) \<Longrightarrow>
    metric_name ` set (rg_gather L r) \<inter> metric_name ` set ms = {} \<Longrightarrow>
    \<exists>r1. register_all L ms r = Done r1 \<and> set (rg_gather L r1) = set ms \<union> set (rg_gather L r)"
proof (induction ms arbitrary: r)
  case (Cons m ms)
  then have "metric_name m \<notin> metric_name ` set (rg_gather L r)" by auto
  then obtain r1 where r1: "rg_register L m r = Inr r1" "set (rg_gather L r1) = insert m (set (rg_gather L r))"
    using assms unfolding registry_ok_def by metis
  have "metric_name ` set (rg_gather L r1) \<inter> metric_name ` set ms = {}"
    using Cons.prems r1(2) by auto
  from Cons.IH [OF _ _ this] Cons.prems r1 show ?case by auto
qed simp

abbreviation all_metrics :: "metric list" where
  "all_metrics \<equiv> metrics_rpc @ metrics_p2p @ metrics_tx @ metrics_resources"

lemmas metrics_defs = metrics_rpc_def metrics_p2p_def metrics_tx_def metrics_resources_def

lemma metrics_distinct: "distinct (map metric_name all_metrics)"
  by code_simp

lemma metrics_names: "list_all (\<lambda>m. valid_name (metric_name m)) all_metrics"
  by code_simp

lemma metrics_valid: "registry_ok L \<Longrightarrow> m \<in> set all_metrics \<Longrightarrow> rg_valid L m"
  using metrics_names by (simp only: registry_ok_def list_all_iff)

lemma register_metrics_fresh:
  assumes "registry_ok L" and "rg_gather L r = []"
  shows "\<exists>r1. register_metrics L r = Done r1 \<and> set (rg_gather L r1) = set all_metrics"
  using register_all_fresh [OF assms(1), of all_metrics r] metrics_valid [OF assms(1)] metrics_distinct assms(2)
  by (simp add: register_metrics_def)

text \<open>
  Registering on a fresh registry succeeds, since no two of the metrics share a name, and then exactly the
  metrics of the code are exported; registering a second time panics at the first one.
\<close>

theorem metrics_register_once:
  fixes L :: "'r registry_lib"
  assumes "registry_ok L" and "rg_gather L r = []"
  shows "\<exists>r1. register_metrics L r = (Done r1 :: (string, 'r) outcome) \<and> set (rg_gather L r1) = set all_metrics \<and>
           register_metrics L r1 = (Panicked ''collector can be registered'' :: (string, 'r) outcome)"
proof -
  obtain r1 where r1: "register_metrics L r = (Done r1 :: (string, 'r) outcome)" "set (rg_gather L r1) = set all_metrics"
    using register_metrics_fresh [OF assms] by blast
  obtain m ms where ms: "all_metrics = m # ms" by (simp only: metrics_rpc_def append.simps)
  have m: "m \<in> set all_metrics" unfolding ms by (rule list.set_intros(1))
  have "isl (rg_register L m r1)" using assms(1) m r1(2) unfolding registry_ok_def by (metis image_eqI)
  then have "register_metrics L r1 = (Panicked ''collector can be registered'' :: (string, 'r) outcome)"
    using metrics_valid [OF assms(1) m] unfolding register_metrics_def ms by (auto simp: isl_def)
  with r1 show ?thesis by blast
qed

definition sample_registry :: "metric list registry_lib" where
  "sample_registry =
     \<lparr> rg_valid = (\<lambda>m. valid_name (metric_name m)),
       rg_register = (\<lambda>m r. if metric_name m \<in> metric_name ` set r then Inl ''AlreadyReg'' else Inr (m # r)),
       rg_gather = (\<lambda>r. r), rg_text = (\<lambda>ms. Inr (concat (map (as_bytes \<circ> metric_name) ms))), rg_zstd = Inr \<rparr>"

lemma sample_registry_ok: "registry_ok sample_registry"
  by (simp add: registry_ok_def sample_registry_def)

theorem metrics_register_once_witness:
  "\<exists>r1. register_metrics sample_registry [] = (Done r1 :: (string, metric list) outcome) \<and>
     register_metrics sample_registry r1 = (Panicked ''collector can be registered'' :: (string, metric list) outcome)"
  using metrics_register_once [OF sample_registry_ok, of "[]"] by (auto simp: sample_registry_def)

end
