(* ===== verification/Whitelist.thy ===== *)
theory Whitelist
  imports Db_Roundtrip
begin

text \<open>
  \<open>storage/database/entity/public_key.rs\<close> and \<open>networking/mod.rs\<close>: reading public keys from text,
  and the synchronisation of the access list with a list of keys that is downloaded. The list comes as
  the results of reading its lines; \<open>iter\<close> is the order in which the hash set of the keys that are left
  is walked, and \<open>pk_parse\<close> is the parser of the key library.
\<close>

section \<open>Public keys as text\<close>

datatype public_key_error = PublicKeyParseError string

type_synonym pk_parser = "byte list \<Rightarrow> string + public_key"

definition public_key_display :: "crates \<Rightarrow> public_key \<Rightarrow> string" where
  "public_key_display c k = hex_encode c (pk_serialize c k)"

definition public_key_try_from :: "crates \<Rightarrow> pk_parser \<Rightarrow> string \<Rightarrow> public_key_error + public_key" where
  "public_key_try_from c pk_parse s =
     (case hex_decode c s of
        Inl e \<Rightarrow> Inl (PublicKeyParseError e)
      | Inr bs \<Rightarrow>
          if length bs \<noteq> 65 then Inl (PublicKeyParseError ''byte array length'')
          else case pk_parse bs of
                 Inl e \<Rightarrow> Inl (PublicKeyParseError e)
               | Inr k \<Rightarrow> Inr k)"

text \<open>The full form of a key has 65 bytes and is parsed back.\<close>

definition pk_parse_ok :: "crates \<Rightarrow> pk_parser \<Rightarrow> public_key \<Rightarrow> bool" where
  "pk_parse_ok c pk_parse k \<longleftrightarrow> length (pk_serialize c k) = 65 \<and> pk_parse (pk_serialize c k) = Inr k"

lemma public_key_text:
  "hex_roundtrip_ok c \<Longrightarrow> pk_parse_ok c pk_parse k \<Longrightarrow>
   public_key_try_from c pk_parse (public_key_display c k) = Inr k"
  by (simp add: public_key_try_from_def public_key_display_def hex_roundtrip_ok_def pk_parse_ok_def)

section \<open>Merging\<close>

text \<open>
  The loop over the lines: the stored keys that have not been seen, the new keys so far, and whether
  there was a line at all. An error of the stream ends the merge.
\<close>

fun read_list ::
  "(string \<Rightarrow> public_key_error + public_key) \<Rightarrow> (string + string) list \<Rightarrow> public_key list \<Rightarrow> public_key list
     \<Rightarrow> bool \<Rightarrow> string + public_key list \<times> public_key list \<times> bool" where
  "read_list parse [] db_keys new_keys non_empty = Inr (db_keys, new_keys, non_empty)"
| "read_list parse (Inl e # ls) db_keys new_keys non_empty = Inl e"
| "read_list parse (Inr line # ls) db_keys new_keys non_empty =
     (case parse line of
        Inr k \<Rightarrow>
          if k \<notin> set db_keys then read_list parse ls db_keys (new_keys @ [k]) True
          else read_list parse ls (removeAll k db_keys) new_keys True
      | Inl _ \<Rightarrow> read_list parse ls db_keys new_keys True)"

fun grant_all :: "pg \<Rightarrow> nat \<Rightarrow> public_key list \<Rightarrow> database \<Rightarrow> (string + unit) \<times> database" where
  "grant_all P i [] db = (Inr (), db)"
| "grant_all P i (k # ks) db =
     (case acl_grant P i k db of
        (Inl e, db1) \<Rightarrow> (Inl e, db1)
      | (Inr _, db1) \<Rightarrow> grant_all P (i + 1) ks db1)"

fun deny_all :: "pg \<Rightarrow> nat \<Rightarrow> public_key list \<Rightarrow> database \<Rightarrow> (string + unit) \<times> database" where
  "deny_all P i [] db = (Inr (), db)"
| "deny_all P i (k # ks) db =
     (case acl_deny P i k db of
        (Inl e, db1) \<Rightarrow> (Inl e, db1)
      | (Inr _, db1) \<Rightarrow> deny_all P (i + 1) ks db1)"

definition merge_acl_white_list ::
  "pg \<Rightarrow> (public_key list \<Rightarrow> public_key list) \<Rightarrow> (string \<Rightarrow> public_key_error + public_key)
     \<Rightarrow> (string + string) list \<Rightarrow> database \<Rightarrow> (string + unit) \<times> database" where
  "merge_acl_white_list P iter parse ls db =
     (case get_acl_whitelist P db of
        Inl e \<Rightarrow> (Inl e, db)
      | Inr keys \<Rightarrow>
          (case read_list parse ls (remdups keys) [] False of
             Inl e \<Rightarrow> (Inl e, db)
           | Inr (db_keys, new_keys, non_empty) \<Rightarrow>
               (case grant_all P 0 new_keys db of
                  (Inl e, db1) \<Rightarrow> (Inl e, db1)
                | (Inr _, db1) \<Rightarrow>
                    if non_empty then deny_all P 0 (iter db_keys) db1 else (Inr (), db1))))"

text \<open>\<open>WhitelistSyncer::sync\<close>: the download gives an error, or a status and the lines of the body.\<close>

definition whitelist_sync ::
  "pg \<Rightarrow> (public_key list \<Rightarrow> public_key list) \<Rightarrow> (string \<Rightarrow> public_key_error + public_key)
     \<Rightarrow> (string \<Rightarrow> string + string) \<Rightarrow> (string \<Rightarrow> string + nat \<times> (string + string) list) \<Rightarrow> string
     \<Rightarrow> database \<Rightarrow> (string + unit) \<times> database" where
  "whitelist_sync P iter parse parse_url fetch url db =
     (case parse_url url of
        Inl e \<Rightarrow> (Inl e, db)
      | Inr u \<Rightarrow>
          (case fetch u of
             Inl e \<Rightarrow> (Inl e, db)
           | Inr (status, ls) \<Rightarrow>
               if status = 200 then merge_acl_white_list P iter parse ls db
               else (Inl (''failed to download file from '' @ u @ '': response status: '' @ show_nat status), db)))"

section \<open>What a merge does\<close>

definition listed :: "(string \<Rightarrow> public_key_error + public_key) \<Rightarrow> (string + string) list \<Rightarrow> public_key set" where
  "listed parse ls = {k. \<exists>l. Inr l \<in> set ls \<and> parse l = Inr k}"

lemma listed_simps [simp]:
  "listed parse [] = {}" "listed parse (Inl e # ls) = listed parse ls"
  "listed parse (Inr l # ls) = (case parse l of Inr k \<Rightarrow> {k} | Inl _ \<Rightarrow> {}) \<union> listed parse ls"
  by (auto simp: listed_def split: sum.split)

lemma read_list_Inr:
  "read_list parse ls keys new ne = Inr (keys', new', ne') \<Longrightarrow>
     set keys' = set keys - listed parse ls \<and> set new' \<subseteq> set new \<union> listed parse ls \<and>
     set new \<union> (listed parse ls - set keys) \<subseteq> set new' \<and> ne' = (ne \<or> ls \<noteq> []) \<and> (\<forall>l\<in>set ls. \<not> isl l)"
proof (induction parse ls keys new ne rule: read_list.induct)
  case (3 parse line ls keys new ne)
  then show ?case by (auto split: sum.splits if_splits)
qed auto

lemma read_list_Inl: "Inl e \<in> set ls \<Longrightarrow> \<exists>e. read_list parse ls keys new ne = Inl e"
  by (induction parse ls keys new ne rule: read_list.induct) (auto split: sum.splits)

lemma read_list_total: "(\<forall>l\<in>set ls. \<not> isl l) \<Longrightarrow> \<exists>r. read_list parse ls keys new ne = Inr r"
  by (induction parse ls keys new ne rule: read_list.induct) (auto split: sum.splits)

abbreviation acl :: "database \<Rightarrow> public_key set" where
  "acl db \<equiv> set (db_acl_whitelist db)"

lemma grant_all_acl:
  "\<exists>ks'. snd (grant_all P i ks db) = db\<lparr> db_acl_whitelist := ks' \<rparr> \<and> acl db \<subseteq> set ks' \<and> set ks' \<subseteq> acl db \<union> set ks \<and>
     (fst (grant_all P i ks db) = Inr () \<longrightarrow> set ks' = acl db \<union> set ks)"
proof (induction ks arbitrary: i db)
  case Nil
  show ?case by (rule exI [of _ "db_acl_whitelist db"]) simp
next
  case (Cons k ks)
  show ?case
  proof (cases "pg_fail P ''insert acl'' i")
    case None
    obtain db1 where db1: "acl db1 = insert k (acl db)"
      "\<And>x. db1\<lparr> db_acl_whitelist := x \<rparr> = db\<lparr> db_acl_whitelist := x \<rparr>"
      and step: "grant_all P i (k # ks) db = grant_all P (i + 1) ks db1"
    proof (cases "k \<in> acl db")
      case True
      show ?thesis by (rule that [of db]) (use None True in \<open>simp_all add: acl_grant_def insert_absorb\<close>)
    next
      case False
      show ?thesis
        by (rule that [of "db\<lparr> db_acl_whitelist := db_acl_whitelist db @ [k] \<rparr>"])
          (use None False in \<open>simp_all add: acl_grant_def\<close>)
    qed
    obtain ks' where "snd (grant_all P (i + 1) ks db1) = db1\<lparr> db_acl_whitelist := ks' \<rparr>" "acl db1 \<subseteq> set ks'"
      "set ks' \<subseteq> acl db1 \<union> set ks" "fst (grant_all P (i + 1) ks db1) = Inr () \<longrightarrow> set ks' = acl db1 \<union> set ks"
      using Cons.IH by blast
    then show ?thesis unfolding step by (intro exI [of _ ks']) (auto simp: db1)
  next
    case (Some e)
    then show ?thesis by (intro exI [of _ "db_acl_whitelist db"]) (auto simp: acl_grant_def)
  qed
qed

lemma deny_all_acl:
  "\<exists>ks'. snd (deny_all P i ks db) = db\<lparr> db_acl_whitelist := ks' \<rparr> \<and> acl db - set ks \<subseteq> set ks' \<and> set ks' \<subseteq> acl db \<and>
     (fst (deny_all P i ks db) = Inr () \<longrightarrow> set ks' = acl db - set ks)"
proof (induction ks arbitrary: i db)
  case Nil
  show ?case by (rule exI [of _ "db_acl_whitelist db"]) simp
next
  case (Cons k ks)
  show ?case
  proof (cases "pg_fail P ''delete acl'' i")
    case None
    let ?db = "db\<lparr> db_acl_whitelist := removeAll k (db_acl_whitelist db) \<rparr>"
    have step: "deny_all P i (k # ks) db = deny_all P (i + 1) ks ?db" using None by (simp add: acl_deny_def)
    obtain ks' where "snd (deny_all P (i + 1) ks ?db) = ?db\<lparr> db_acl_whitelist := ks' \<rparr>" "acl ?db - set ks \<subseteq> set ks'"
      "set ks' \<subseteq> acl ?db" "fst (deny_all P (i + 1) ks ?db) = Inr () \<longrightarrow> set ks' = acl ?db - set ks"
      using Cons.IH by blast
    then show ?thesis unfolding step by (intro exI [of _ ks']) auto
  next
    case (Some e)
    then show ?thesis by (intro exI [of _ "db_acl_whitelist db"]) (auto simp: acl_deny_def)
  qed
qed

lemma all_reads:
  assumes "reads P"
  shows "fst (grant_all P i ks db) = Inr ()" and "fst (deny_all P i ks db) = Inr ()"
  using assms by (induction ks arbitrary: i db) (auto simp: acl_grant_def acl_deny_def reads_def)

lemma grant_done:
  assumes "reads P"
  shows "\<exists>g. grant_all P i ks db = (Inr (), db\<lparr> db_acl_whitelist := g \<rparr>) \<and> set g = acl db \<union> set ks"
  using grant_all_acl [of P i ks db] all_reads(1) [OF assms, of i ks db] by (metis prod.collapse)

lemma deny_done:
  assumes "reads P"
  shows "\<exists>d. deny_all P i ks db = (Inr (), db\<lparr> db_acl_whitelist := d \<rparr>) \<and> set d = acl db - set ks"
  using deny_all_acl [of P i ks db] all_reads(2) [OF assms, of i ks db] by (metis prod.collapse)

text \<open>The states a merge can end in: as before, with some grants, or with all of them and some denials.\<close>

lemma merge_states:
  "snd (merge_acl_white_list P iter parse ls db) = db \<or> (\<exists>keys new. read_list parse ls (remdups (scan P ''acl_whitelist'' (db_acl_whitelist db))) [] False = Inr (keys, new, ls \<noteq> []) \<and>
     (snd (merge_acl_white_list P iter parse ls db) = snd (grant_all P 0 new db) \<or>
      snd (merge_acl_white_list P iter parse ls db) = snd (deny_all P 0 (iter keys) (snd (grant_all P 0 new db)))))"
proof (cases "pg_fail P ''select acl'' 0 = None \<and> \<not> isl (read_list parse ls (remdups (scan P ''acl_whitelist'' (db_acl_whitelist db))) [] False)")
  case True
  then obtain keys new ne where r: "read_list parse ls (remdups (scan P ''acl_whitelist'' (db_acl_whitelist db))) [] False = Inr (keys, new, ne)" by (metis prod_cases3 sum.collapse(2))
  have "ne = (ls \<noteq> [])" using read_list_Inr [OF r] by simp
  moreover obtain x db1 where g: "grant_all P 0 new db = (x, db1)" by (rule prod.exhaust)
  moreover have "merge_acl_white_list P iter parse ls db = (case x of Inl e \<Rightarrow> (Inl e, db1) | Inr _ \<Rightarrow> if ne then deny_all P 0 (iter keys) db1 else (Inr (), db1))"
    using True by (simp add: merge_acl_white_list_def get_acl_whitelist_def exec_def r g)
  ultimately show ?thesis using r by (intro disjI2 exI [of _ keys] exI [of _ new]) (cases x, simp_all)
next
  case False
  then show ?thesis
    by (auto simp: merge_acl_white_list_def get_acl_whitelist_def exec_def split: option.splits sum.splits)
qed

section \<open>Properties\<close>

text \<open>
  C28: A synchronisation that can read the whole list and whose statements succeed makes the access list
  exactly the keys of the list: those missing are added and those no longer listed are removed, lines that
  are not keys being skipped; an empty list changes nothing. A list that has lines but no key, such as an
  error page, therefore empties the access list.
\<close>

theorem sync_makes_list_exact:
  assumes "reads P" and "\<And>ks. set (iter ks) = set ks" and "\<And>l. l \<in> set ls \<Longrightarrow> \<not> isl l"
  shows "\<exists>ks. merge_acl_white_list P iter parse ls db = (Inr (), db\<lparr> db_acl_whitelist := ks \<rparr>) \<and>
           set ks = (if ls = [] then set (db_acl_whitelist db)
                     else {k. \<exists>l. Inr l \<in> set ls \<and> parse l = Inr k})"
proof -
  have ok: "pg_ok P" using assms(1) by (simp add: reads_def)
  let ?keys = "scan P ''acl_whitelist'' (db_acl_whitelist db)"
  obtain keys new ne where r: "read_list parse ls (remdups ?keys) [] False = Inr (keys, new, ne)"
    using read_list_total [of ls parse "remdups ?keys" "[]" False] assms(3) by fastforce
  obtain g where g: "grant_all P 0 new db = (Inr (), db\<lparr> db_acl_whitelist := g \<rparr>)" "set g = acl db \<union> set new"
    using grant_done [OF assms(1)] by blast
  obtain d where d: "deny_all P 0 (iter keys) (db\<lparr> db_acl_whitelist := g \<rparr>) = (Inr (), db\<lparr> db_acl_whitelist := d \<rparr>)"
    "set d = set g - set keys"
    using deny_done [OF assms(1), of 0 "iter keys" "db\<lparr> db_acl_whitelist := g \<rparr>"] by (auto simp: assms(2))
  have facts: "set keys = acl db - listed parse ls" "set new \<subseteq> listed parse ls" "listed parse ls - acl db \<subseteq> set new"
    "ne = (ls \<noteq> [])"
    using read_list_Inr [OF r] by (auto simp: mset_eq_setD [OF mset_scan [OF ok]])
  have merge: "merge_acl_white_list P iter parse ls db = (if ls = [] then grant_all P 0 new db
      else deny_all P 0 (iter keys) (db\<lparr> db_acl_whitelist := g \<rparr>))"
    using assms(1) by (simp add: merge_acl_white_list_def get_acl_whitelist_def r g(1) facts(4))
  show ?thesis
  proof (cases "ls = []")
    case True
    then show ?thesis using merge g facts(2) by (intro exI [of _ g]) simp
  next
    case False
    have "set d = listed parse ls" unfolding d(2) g(2) facts(1) using facts(2,3) by blast
    then show ?thesis using False merge d(1) by (intro exI [of _ d]) (simp add: listed_def)
  qed
qed

text \<open>
  C29: However a synchronisation ends, by an error of the stream or of any statement, it changes only the
  access list, gives access to no key that was neither there before nor listed, and takes it from none that
  was there and is listed; and when reading the list fails it changes nothing.
\<close>

theorem interrupted_sync_safe:
  assumes "pg_ok P" and "\<And>ks. set (iter ks) = set ks"
  shows "\<exists>ks. snd (merge_acl_white_list P iter parse ls db) = db\<lparr> db_acl_whitelist := ks \<rparr> \<and>
           set ks \<subseteq> set (db_acl_whitelist db) \<union> {k. \<exists>l. Inr l \<in> set ls \<and> parse l = Inr k} \<and>
           set (db_acl_whitelist db) \<inter> {k. \<exists>l. Inr l \<in> set ls \<and> parse l = Inr k} \<subseteq> set ks \<and>
           ((\<exists>l\<in>set ls. isl l) \<longrightarrow> ks = db_acl_whitelist db)"
proof -
  let ?keys = "scan P ''acl_whitelist'' (db_acl_whitelist db)"
  let ?r = "read_list parse ls (remdups ?keys) [] False"
  let ?m = "merge_acl_white_list P iter parse ls db"
  note merge = merge_states [of P iter parse ls db]
  have "\<exists>ks. snd ?m = db\<lparr> db_acl_whitelist := ks \<rparr> \<and> set ks \<subseteq> acl db \<union> listed parse ls \<and>
      acl db \<inter> listed parse ls \<subseteq> set ks" if r: "?r = Inr (keys, new, ls \<noteq> [])"
      and m: "snd ?m = snd (grant_all P 0 new db) \<or> snd ?m = snd (deny_all P 0 (iter keys) (snd (grant_all P 0 new db)))"
      for keys new
  proof -
    have facts: "set keys = acl db - listed parse ls" "set new \<subseteq> listed parse ls"
      using read_list_Inr [OF r] by (auto simp: mset_eq_setD [OF mset_scan [OF assms(1)]])
    obtain g where g: "snd (grant_all P 0 new db) = db\<lparr> db_acl_whitelist := g \<rparr>" "acl db \<subseteq> set g" "set g \<subseteq> acl db \<union> set new"
      using grant_all_acl [of P 0 new db] by blast
    obtain d where d: "snd (deny_all P 0 (iter keys) (db\<lparr> db_acl_whitelist := g \<rparr>)) = db\<lparr> db_acl_whitelist := d \<rparr>"
      "set g - set keys \<subseteq> set d" "set d \<subseteq> set g"
      using deny_all_acl [of P 0 "iter keys" "db\<lparr> db_acl_whitelist := g \<rparr>"] by (auto simp: assms(2))
    have "set d \<subseteq> acl db \<union> listed parse ls" "acl db \<inter> listed parse ls \<subseteq> set d"
      "set g \<subseteq> acl db \<union> listed parse ls" "acl db \<inter> listed parse ls \<subseteq> set g"
      using d(2,3) g(2,3) facts by blast+
    with m show ?thesis unfolding g(1) d(1) by blast
  qed
  moreover have "\<forall>l\<in>set ls. \<not> isl l" if "?r = Inr (keys, new, ls \<noteq> [])" for keys new
    using read_list_Inr [OF that] by simp
  moreover have "\<exists>ks. snd ?m = db\<lparr> db_acl_whitelist := ks \<rparr> \<and> ks = db_acl_whitelist db" if "snd ?m = db"
    using that by simp
  ultimately show ?thesis using merge unfolding listed_def [symmetric] by blast
qed

definition sample_listed_db :: database where
  "sample_listed_db = database_empty\<lparr> db_acl_whitelist := [PublicKey 1, PublicKey 2] \<rparr>"

text \<open>An error page empties the access list.\<close>

theorem sync_makes_list_exact_witness:
  "\<exists>ks. merge_acl_white_list pg_plain (\<lambda>ks. ks)
          (public_key_try_from sample_crates (\<lambda>_. Inr (PublicKey 7))) [Inr ''<html>''] sample_listed_db
        = (Inr (), sample_listed_db\<lparr> db_acl_whitelist := ks \<rparr>) \<and> set ks = {}"
proof -
  have "public_key_try_from sample_crates (\<lambda>_. Inr (PublicKey 7)) ''<html>'' \<noteq> Inr k" for k
    by (simp add: public_key_try_from_def sample_crates_def hex_value_def hex_digits_def upt_rec)
  then show ?thesis
    using sync_makes_list_exact [OF reads_samples(1), of "\<lambda>ks. ks" "[Inr ''<html>'']"
        "public_key_try_from sample_crates (\<lambda>_. Inr (PublicKey 7))" sample_listed_db] by simp
qed

theorem interrupted_sync_safe_witness:
  "\<exists>ks. snd (merge_acl_white_list pg_plain (\<lambda>ks. ks) (\<lambda>_. Inr (PublicKey 7)) [Inr ''a'', Inl ''reset''] sample_listed_db)
        = sample_listed_db\<lparr> db_acl_whitelist := ks \<rparr> \<and> ks = db_acl_whitelist sample_listed_db"
proof -
  have "pg_ok pg_plain" using reads_samples(1) by (simp add: reads_def)
  from interrupted_sync_safe [OF this, of "\<lambda>ks. ks" "\<lambda>_. Inr (PublicKey 7)" "[Inr ''a'', Inl ''reset'']" sample_listed_db]
  show ?thesis by auto
qed

end
