(* ===== verification/Protocol.thy ===== *)
theory Protocol
  imports Sample_Crates
begin

text \<open>
  \<open>networking/p2p/protocol\<close>: the messages of the peer-to-peer network, their two wire versions and the
  dispatch between them. \<open>bincode\<close> is a parameter: one pair of functions per type that is sent, with
  what the format documents as named hypotheses.
\<close>

section \<open>Messages\<close>

record handshake =
  hs_my_p2p_listen_addr :: socket_addr
  hs_peers :: "socket_addr list"
  hs_http_port :: "u16 option"

datatype diagnostics_request_kind = ReqVersion | ReqResources | ReqMetrics

datatype diagnostics_response =
    RespVersion u16 u16 u16 string
  | RespResources u64 u64 u64
  | RespMetrics "byte list"

datatype p2p_message =
    MsgTransaction "validated transaction"
  | MsgDiagnosticsRequest diagnostics_request_kind
  | MsgDiagnosticsResponse public_key diagnostics_response

subsection \<open>Version 0\<close>

datatype handshake_v0 = V0HandshakeV1 handshake

datatype diagnostics_request_kind_v0 = V0ReqVersion

datatype diagnostics_response_v0 = V0RespVersion u16 u16 u16 string

datatype message_v0 =
    V0Transaction "validated transaction"
  | V0DiagnosticsRequest diagnostics_request_kind_v0
  | V0DiagnosticsResponse public_key diagnostics_response_v0

definition handshake_v0_from :: "handshake \<Rightarrow> handshake_v0" where
  "handshake_v0_from h = V0HandshakeV1 h"

fun message_v0_from :: "p2p_message \<Rightarrow> message_v0" where
  "message_v0_from (MsgTransaction tx) = V0Transaction tx"
| "message_v0_from (MsgDiagnosticsRequest k) = V0DiagnosticsRequest V0ReqVersion"
| "message_v0_from (MsgDiagnosticsResponse pk (RespVersion major minor patch build)) =
     V0DiagnosticsResponse pk (V0RespVersion major minor patch build)"
| "message_v0_from (MsgDiagnosticsResponse pk (RespResources nc nm ng)) =
     V0DiagnosticsResponse pk (V0RespVersion 0 0 0 [])"
| "message_v0_from (MsgDiagnosticsResponse pk (RespMetrics d)) =
     V0DiagnosticsResponse pk (V0RespVersion 0 0 0 [])"

fun message_of_v0 :: "message_v0 \<Rightarrow> p2p_message" where
  "message_of_v0 (V0Transaction tx) = MsgTransaction tx"
| "message_of_v0 (V0DiagnosticsRequest _) = MsgDiagnosticsRequest ReqVersion"
| "message_of_v0 (V0DiagnosticsResponse pk (V0RespVersion major minor patch build)) =
     MsgDiagnosticsResponse pk (RespVersion major minor patch build)"

subsection \<open>Version 1\<close>

datatype handshake_v1 = V1HandshakeV1 handshake

datatype diagnostics_request_kind_v1 = V1ReqVersion | V1ReqResources | V1ReqMetrics

datatype diagnostics_response_v1 =
    V1RespVersion u16 u16 u16 string
  | V1RespResources u64 u64 u64
  | V1RespMetrics "byte list"

datatype message_v1 =
    V1Transaction "validated transaction"
  | V1DiagnosticsRequest diagnostics_request_kind_v1
  | V1DiagnosticsResponse public_key diagnostics_response_v1

definition handshake_v1_from :: "handshake \<Rightarrow> handshake_v1" where
  "handshake_v1_from h = V1HandshakeV1 h"

fun message_v1_from :: "p2p_message \<Rightarrow> message_v1" where
  "message_v1_from (MsgTransaction tx) = V1Transaction tx"
| "message_v1_from (MsgDiagnosticsRequest ReqVersion) = V1DiagnosticsRequest V1ReqVersion"
| "message_v1_from (MsgDiagnosticsRequest ReqResources) = V1DiagnosticsRequest V1ReqResources"
| "message_v1_from (MsgDiagnosticsRequest ReqMetrics) = V1DiagnosticsRequest V1ReqMetrics"
| "message_v1_from (MsgDiagnosticsResponse pk (RespVersion major minor patch build)) =
     V1DiagnosticsResponse pk (V1RespVersion major minor patch build)"
| "message_v1_from (MsgDiagnosticsResponse pk (RespResources nc nm ng)) =
     V1DiagnosticsResponse pk (V1RespResources nc nm ng)"
| "message_v1_from (MsgDiagnosticsResponse pk (RespMetrics d)) = V1DiagnosticsResponse pk (V1RespMetrics d)"

fun message_of_v1 :: "message_v1 \<Rightarrow> p2p_message" where
  "message_of_v1 (V1Transaction tx) = MsgTransaction tx"
| "message_of_v1 (V1DiagnosticsRequest V1ReqVersion) = MsgDiagnosticsRequest ReqVersion"
| "message_of_v1 (V1DiagnosticsRequest V1ReqResources) = MsgDiagnosticsRequest ReqResources"
| "message_of_v1 (V1DiagnosticsRequest V1ReqMetrics) = MsgDiagnosticsRequest ReqMetrics"
| "message_of_v1 (V1DiagnosticsResponse pk (V1RespVersion major minor patch build)) =
     MsgDiagnosticsResponse pk (RespVersion major minor patch build)"
| "message_of_v1 (V1DiagnosticsResponse pk (V1RespResources nc nm ng)) =
     MsgDiagnosticsResponse pk (RespResources nc nm ng)"
| "message_of_v1 (V1DiagnosticsResponse pk (V1RespMetrics d)) = MsgDiagnosticsResponse pk (RespMetrics d)"

section \<open>The wire format\<close>

record bincode =
  ser_handshake_v0 :: "handshake_v0 \<Rightarrow> string + byte list"
  de_handshake_v0 :: "byte list \<Rightarrow> string + handshake_v0"
  ser_handshake_v1 :: "handshake_v1 \<Rightarrow> string + byte list"
  de_handshake_v1 :: "byte list \<Rightarrow> string + handshake_v1"
  ser_message_v0 :: "message_v0 \<Rightarrow> string + byte list"
  de_message_v0 :: "byte list \<Rightarrow> string + message_v0"
  ser_message_v1 :: "message_v1 \<Rightarrow> string + byte list"
  de_message_v1 :: "byte list \<Rightarrow> string + message_v1"

text \<open>What is serialised is read back.\<close>

definition bincode_roundtrip :: "bincode \<Rightarrow> bool" where
  "bincode_roundtrip w \<longleftrightarrow>
     (\<forall>h bs. ser_handshake_v0 w h = Inr bs \<longrightarrow> de_handshake_v0 w bs = Inr h) \<and>
     (\<forall>h bs. ser_handshake_v1 w h = Inr bs \<longrightarrow> de_handshake_v1 w bs = Inr h) \<and>
     (\<forall>m bs. ser_message_v0 w m = Inr bs \<longrightarrow> de_message_v0 w bs = Inr m) \<and>
     (\<forall>m bs. ser_message_v1 w m = Inr bs \<longrightarrow> de_message_v1 w bs = Inr m)"

text \<open>
  An enum is written as the index of its variant, four bytes with the lowest first, then its fields; an
  index without a variant is refused. A message of version 0 starts with the index of its only version,
  then that of its kind, a handshake with that of its only version, then that of the kind of address.
\<close>

definition bincode_tags :: "bincode \<Rightarrow> bool" where
  "bincode_tags w \<longleftrightarrow>
     (\<forall>bs m. de_message_v0 w bs = Inr m \<longrightarrow>
        (\<exists>k rest. k < 3 \<and> bs = [0, 0, 0, 0, word_of_nat k, 0, 0, 0] @ rest)) \<and>
     (\<forall>bs h. de_handshake_v0 w bs = Inr h \<longrightarrow>
        (\<exists>k rest. k < 2 \<and> bs = [0, 0, 0, 0, word_of_nat k, 0, 0, 0] @ rest))"

text \<open>Every message, handshake or not, has at least the index of a version and that of a kind.\<close>

definition bincode_nonempty :: "bincode \<Rightarrow> bool" where
  "bincode_nonempty w \<longleftrightarrow>
     (\<forall>h bs. ser_handshake_v1 w h = Inr bs \<longrightarrow> bs \<noteq> []) \<and> (\<forall>m bs. ser_message_v1 w m = Inr bs \<longrightarrow> bs \<noteq> [])"

definition handshake_v0_parse :: "bincode \<Rightarrow> byte list \<Rightarrow> string + handshake" where
  "handshake_v0_parse w bs =
     (case de_handshake_v0 w bs of Inr (V0HandshakeV1 h) \<Rightarrow> Inr h | Inl e \<Rightarrow> Inl e)"

definition handshake_v1_parse :: "bincode \<Rightarrow> byte list \<Rightarrow> string + handshake" where
  "handshake_v1_parse w bs =
     (case de_handshake_v1 w bs of Inr (V1HandshakeV1 h) \<Rightarrow> Inr h | Inl e \<Rightarrow> Inl e)"

definition message_v0_parse :: "bincode \<Rightarrow> byte list \<Rightarrow> string + p2p_message" where
  "message_v0_parse w bs =
     (case de_message_v0 w bs of Inr m \<Rightarrow> Inr (message_of_v0 m) | Inl e \<Rightarrow> Inl e)"

definition message_v1_parse :: "bincode \<Rightarrow> byte list \<Rightarrow> string + p2p_message" where
  "message_v1_parse w bs =
     (case de_message_v1 w bs of Inr m \<Rightarrow> Inr (message_of_v1 m) | Inl e \<Rightarrow> Inl e)"

section \<open>Dispatch\<close>

definition unknown_version :: "u64 \<Rightarrow> string" where
  "unknown_version v = ''unknown protocol version: '' @ show_word v"

definition with_prefix :: "u64 \<Rightarrow> string + byte list \<Rightarrow> string + byte list" where
  "with_prefix v r = (case r of Inl e \<Rightarrow> Inl e | Inr bs \<Rightarrow> Inr (u64_to_be_bytes v @ bs))"

definition serialize_handshake :: "bincode \<Rightarrow> handshake \<Rightarrow> string + byte list" where
  "serialize_handshake w h = ser_handshake_v0 w (handshake_v0_from h)"

definition new_serialize_handshake :: "bincode \<Rightarrow> u64 \<Rightarrow> handshake \<Rightarrow> string + byte list" where
  "new_serialize_handshake w v h =
     (if v = 0 then with_prefix v (ser_handshake_v0 w (handshake_v0_from h))
      else if v = 1 then with_prefix v (ser_handshake_v1 w (handshake_v1_from h))
      else Inl (unknown_version v))"

definition deserialize_handshake :: "bincode \<Rightarrow> byte list \<Rightarrow> string + handshake" where
  "deserialize_handshake w bs =
     (case handshake_v0_parse w bs of
        Inr h \<Rightarrow> Inr h
      | Inl _ \<Rightarrow>
          if length bs < 9 then Inl ''invalid handshake message: too short''
          else let v = u64_from_be_bytes (take 8 bs)
               in if v = 0 then handshake_v0_parse w (drop 8 bs)
                  else if v = 1 then handshake_v1_parse w (drop 8 bs)
                  else Inl (unknown_version v))"

definition serialize_msg :: "bincode \<Rightarrow> p2p_message \<Rightarrow> string + byte list" where
  "serialize_msg w m = ser_message_v0 w (message_v0_from m)"

definition new_serialize_msg :: "bincode \<Rightarrow> u64 \<Rightarrow> p2p_message \<Rightarrow> string + byte list" where
  "new_serialize_msg w v m =
     (if v = 0 then with_prefix v (ser_message_v0 w (message_v0_from m))
      else if v = 1 then with_prefix v (ser_message_v1 w (message_v1_from m))
      else Inl (unknown_version v))"

definition deserialize_msg :: "bincode \<Rightarrow> byte list \<Rightarrow> string + p2p_message" where
  "deserialize_msg w bs =
     (case message_v0_parse w bs of
        Inr m \<Rightarrow> Inr m
      | Inl _ \<Rightarrow>
          if length bs < 9 then Inl ''invalid protocol message: too short''
          else let v = u64_from_be_bytes (take 8 bs)
               in if v = 0 then message_v0_parse w (drop 8 bs)
                  else if v = 1 then message_v1_parse w (drop 8 bs)
                  else Inl (unknown_version v))"

section \<open>Reading back\<close>

lemma message_v1_back: "message_of_v1 (message_v1_from m) = m"
  by (cases m rule: message_v1_from.cases) simp_all

definition v0_view :: "p2p_message \<Rightarrow> p2p_message" where
  "v0_view m = message_of_v0 (message_v0_from m)"

lemma v0_view_simps [simp]:
  "v0_view (MsgTransaction tx) = MsgTransaction tx"
  "v0_view (MsgDiagnosticsRequest k) = MsgDiagnosticsRequest ReqVersion"
  by (simp_all add: v0_view_def)

lemma be_bytes_1: "u64_to_be_bytes 1 = [0, 0, 0, 0, 0, 0, 0, 1]"
  by (simp add: u64_to_be_bytes_def be_bytes_def upt_rec)

text \<open>A message with the prefix of version 1 is never taken for one of version 0.\<close>

lemma prefix_1_not_v0:
  assumes "bincode_tags w"
  shows "\<exists>e. message_v0_parse w (u64_to_be_bytes 1 @ bs) = Inl e"
    and "\<exists>e. handshake_v0_parse w (u64_to_be_bytes 1 @ bs) = Inl e"
proof -
  have "de_message_v0 w (u64_to_be_bytes 1 @ bs) \<noteq> Inr m" for m
    using assms by (auto simp: bincode_tags_def be_bytes_1)
  then show "\<exists>e. message_v0_parse w (u64_to_be_bytes 1 @ bs) = Inl e"
    by (auto simp: message_v0_parse_def split: sum.split)
  have "de_handshake_v0 w (u64_to_be_bytes 1 @ bs) \<noteq> Inr h" for h
    using assms by (auto simp: bincode_tags_def be_bytes_1)
  then show "\<exists>e. handshake_v0_parse w (u64_to_be_bytes 1 @ bs) = Inl e"
    by (auto simp: handshake_v0_parse_def split: sum.split)
qed

section \<open>Properties\<close>


section \<open>A concrete format\<close>

text \<open>An instance of the hypotheses that can write one transaction, the requests and one handshake.\<close>

definition sample_wire_tx :: "validated transaction" where
  "sample_wire_tx =
     \<lparr> tx_author = PublicKey 1, tx_hash = hash_default, tx_payload = Empty, tx_nonce = 1,
       tx_signature = signature_default, tx_propagated = False, tx_executed = False, tx_state = Validated \<rparr>"

definition sample_wire_handshake :: handshake where
  "sample_wire_handshake =
     \<lparr> hs_my_p2p_listen_addr = SocketAddr ''0.0.0.0'' 9999, hs_peers = [SocketAddr ''0.0.0.0'' 9999],
       hs_http_port = Some 80 \<rparr>"

definition wire_head :: "byte \<Rightarrow> byte list" where
  "wire_head k = [0, 0, 0, 0, k, 0, 0, 0]"

definition sample_bincode :: bincode where
  "sample_bincode =
     \<lparr> ser_handshake_v0 = (\<lambda>h. if h = V0HandshakeV1 sample_wire_handshake then Inr (wire_head 0) else Inl ''size''),
       de_handshake_v0 = (\<lambda>bs. if bs = wire_head 0 then Inr (V0HandshakeV1 sample_wire_handshake) else Inl ''tag''),
       ser_handshake_v1 = (\<lambda>h. if h = V1HandshakeV1 sample_wire_handshake then Inr (wire_head 0) else Inl ''size''),
       de_handshake_v1 = (\<lambda>bs. if bs = wire_head 0 then Inr (V1HandshakeV1 sample_wire_handshake) else Inl ''tag''),
       ser_message_v0 = (\<lambda>m. case m of
           V0Transaction tx \<Rightarrow> if tx = sample_wire_tx then Inr (wire_head 0) else Inl ''size''
         | V0DiagnosticsRequest V0ReqVersion \<Rightarrow> Inr (wire_head 1)
         | _ \<Rightarrow> Inl ''size''),
       de_message_v0 = (\<lambda>bs. if bs = wire_head 0 then Inr (V0Transaction sample_wire_tx)
           else if bs = wire_head 1 then Inr (V0DiagnosticsRequest V0ReqVersion) else Inl ''tag''),
       ser_message_v1 = (\<lambda>m. case m of
           V1Transaction tx \<Rightarrow> if tx = sample_wire_tx then Inr (wire_head 0) else Inl ''size''
         | V1DiagnosticsRequest V1ReqVersion \<Rightarrow> Inr (wire_head 1 @ [0])
         | V1DiagnosticsRequest V1ReqResources \<Rightarrow> Inr (wire_head 1 @ [1])
         | V1DiagnosticsRequest V1ReqMetrics \<Rightarrow> Inr (wire_head 1 @ [2])
         | _ \<Rightarrow> Inl ''size''),
       de_message_v1 = (\<lambda>bs. if bs = wire_head 0 then Inr (V1Transaction sample_wire_tx)
           else if bs = wire_head 1 @ [0] then Inr (V1DiagnosticsRequest V1ReqVersion)
           else if bs = wire_head 1 @ [1] then Inr (V1DiagnosticsRequest V1ReqResources)
           else if bs = wire_head 1 @ [2] then Inr (V1DiagnosticsRequest V1ReqMetrics) else Inl ''tag'') \<rparr>"

lemma sample_bincode_roundtrip: "bincode_roundtrip sample_bincode"
  by (auto simp: bincode_roundtrip_def sample_bincode_def wire_head_def
      split: if_splits message_v0.splits message_v1.splits diagnostics_request_kind_v0.splits
        diagnostics_request_kind_v1.splits)

lemma sample_bincode_tags: "bincode_tags sample_bincode"
proof -
  have "\<exists>k rest. k < 3 \<and> wire_head b = [0, 0, 0, 0, word_of_nat k, 0, 0, 0] @ rest" if "b = 0 \<or> b = 1" for b
    using that
  proof
    show ?thesis if "b = 0" using that by (intro exI [of _ "0 :: nat"] exI [of _ "[]"]) (simp add: wire_head_def)
    show ?thesis if "b = 1" using that by (intro exI [of _ "1 :: nat"] exI [of _ "[]"]) (simp add: wire_head_def)
  qed
  moreover have "\<exists>k rest. k < 2 \<and> wire_head 0 = [0, 0, 0, 0, word_of_nat k, 0, 0, 0] @ rest"
    by (intro exI [of _ "0 :: nat"] exI [of _ "[]"]) (simp add: wire_head_def)
  ultimately show ?thesis
    by (auto simp: bincode_tags_def sample_bincode_def split: if_splits)
qed

lemma sample_bincode_nonempty: "bincode_nonempty sample_bincode"
  by (auto simp: bincode_nonempty_def sample_bincode_def wire_head_def
      split: if_splits message_v1.splits diagnostics_request_kind_v1.splits)

lemmas sample_bincode_ok = sample_bincode_roundtrip sample_bincode_tags sample_bincode_nonempty


end
