(* ===== verification/Noise.thy ===== *)
theory Noise
  imports Prelude
begin

text \<open>
  \<open>networking/p2p/noise.rs\<close>: the encrypted transport. Messages are cut into chunks, each chunk is
  encrypted with its own nonce, and the result goes into one frame with a length prefix. The encryption
  library and the framing codec are parameters over their opaque states: \<open>'h\<close> a handshake in progress,
  \<open>'t\<close> the keys of a session, \<open>'l\<close> the position of the framing codec.
\<close>

section \<open>State\<close>

definition MAX_MESSAGE_LEN :: nat where
  "MAX_MESSAGE_LEN = 65535"

record ('h, 't, 'l) noise_lib =
  hs_read_message :: "'h \<Rightarrow> byte list \<Rightarrow> (string + byte list) \<times> 'h"
  hs_write_message :: "'h \<Rightarrow> byte list \<Rightarrow> (string + byte list) \<times> 'h"
  into_transport :: "'h \<Rightarrow> string + 't"
  read_message :: "'t \<Rightarrow> u64 \<Rightarrow> byte list \<Rightarrow> string + byte list"
  write_message :: "'t \<Rightarrow> u64 \<Rightarrow> byte list \<Rightarrow> string + byte list"
  frame_new :: 'l
  frame_decode :: "'l \<Rightarrow> byte list \<Rightarrow> (string + byte list option) \<times> 'l \<times> byte list"
  frame_encode :: "byte list \<Rightarrow> string + byte list"

record 't post_handshake_state =
  ph_state :: 't
  rx_carryover :: "byte list option"
  rx_nonce :: u64
  tx_nonce :: u64

datatype ('h, 't) noise_state = Handshaking 'h | PostHandshake "'t post_handshake_state"

definition noise_clone :: "('h, 't) noise_state \<Rightarrow> ('e, ('h, 't) noise_state) outcome" where
  "noise_clone s = (case s of Handshaking _ \<Rightarrow> Panicked ''unsupported'' | PostHandshake p \<Rightarrow> Done (PostHandshake p))"

definition into_post_handshake ::
  "('h, 't, 'l) noise_lib \<Rightarrow> ('h, 't) noise_state \<Rightarrow> ('e, ('h, 't) noise_state) outcome" where
  "into_post_handshake lib s =
     (case s of
        Handshaking h \<Rightarrow>
          obind (expect ''unwrap'' (case into_transport lib h of Inl _ \<Rightarrow> None | Inr t \<Rightarrow> Some t)) (\<lambda>t.
          Done (PostHandshake \<lparr> ph_state = t, rx_carryover = None, rx_nonce = 0, tx_nonce = 0 \<rparr>))
      | PostHandshake _ \<Rightarrow> Panicked ''explicit panic'')"

definition save_buffer :: "byte list \<Rightarrow> ('h, 't) noise_state \<Rightarrow> ('e, ('h, 't) noise_state) outcome" where
  "save_buffer buf s =
     (case s of
        Handshaking _ \<Rightarrow> Panicked ''unwrap''
      | PostHandshake p \<Rightarrow> Done (PostHandshake (p\<lparr> rx_carryover := Some buf \<rparr>)))"

record ('h, 't, 'l) codec =
  cd_frame :: 'l
  cd_noise :: "('h, 't) noise_state"

definition codec_new :: "('h, 't, 'l) noise_lib \<Rightarrow> ('h, 't) noise_state \<Rightarrow> ('h, 't, 'l) codec" where
  "codec_new lib s = \<lparr> cd_frame = frame_new lib, cd_noise = s \<rparr>"

section \<open>Encoding and decoding\<close>

text \<open>\<open>slice::chunks\<close>.\<close>

function chunks :: "nat \<Rightarrow> 'a list \<Rightarrow> 'a list list" where
  "chunks n xs = (if n = 0 \<or> xs = [] then [] else take n xs # chunks n (drop n xs))"
  by pat_completeness auto
termination by (relation "measure (\<lambda>(n, xs). length xs)") auto

declare chunks.simps [simp del]

fun decrypt_chunks ::
  "('h, 't, 'l) noise_lib \<Rightarrow> 't \<Rightarrow> u64 \<Rightarrow> byte list list \<Rightarrow> byte list \<Rightarrow> (string + byte list) \<times> u64" where
  "decrypt_chunks lib t n [] msg = (Inr msg, n)"
| "decrypt_chunks lib t n (c # cs) msg =
     (case read_message lib t n c of
        Inl e \<Rightarrow> (Inl ''invalid data'', n)
      | Inr x \<Rightarrow> decrypt_chunks lib t (n + 1) cs (msg @ x))"

fun encrypt_chunks ::
  "('h, 't, 'l) noise_lib \<Rightarrow> 't \<Rightarrow> u64 \<Rightarrow> byte list list \<Rightarrow> byte list \<Rightarrow> (string + byte list) \<times> u64" where
  "encrypt_chunks lib t n [] msg = (Inr msg, n)"
| "encrypt_chunks lib t n (c # cs) msg =
     (case write_message lib t n c of
        Inl e \<Rightarrow> (Inl e, n)
      | Inr x \<Rightarrow> encrypt_chunks lib t (n + 1) cs (msg @ x))"

text \<open>The bytes carried over from the handshake go in front of the buffer, once.\<close>

definition take_carryover ::
  "('h, 't) noise_state \<Rightarrow> byte list \<Rightarrow> ('h, 't) noise_state \<times> byte list" where
  "take_carryover s src =
     (case s of
        PostHandshake p \<Rightarrow>
          (case rx_carryover p of
             Some b \<Rightarrow> (PostHandshake (p\<lparr> rx_carryover := None \<rparr>), b @ src)
           | None \<Rightarrow> (s, src))
      | Handshaking _ \<Rightarrow> (s, src))"

definition decode ::
  "('h, 't, 'l) noise_lib \<Rightarrow> ('h, 't, 'l) codec \<Rightarrow> byte list
     \<Rightarrow> (string + byte list option) \<times> ('h, 't, 'l) codec \<times> byte list" where
  "decode lib c src =
     (case take_carryover (cd_noise c) src of
        (s, src1) \<Rightarrow>
          (case frame_decode lib (cd_frame c) src1 of
             (Inl e, l, src2) \<Rightarrow> (Inl e, \<lparr> cd_frame = l, cd_noise = s \<rparr>, src2)
           | (Inr None, l, src2) \<Rightarrow> (Inr None, \<lparr> cd_frame = l, cd_noise = s \<rparr>, src2)
           | (Inr (Some bytes), l, src2) \<Rightarrow>
               (case s of
                  Handshaking h \<Rightarrow>
                    (case hs_read_message lib h bytes of
                       (Inl e, h1) \<Rightarrow> (Inl ''invalid data'', \<lparr> cd_frame = l, cd_noise = Handshaking h1 \<rparr>, src2)
                     | (Inr m, h1) \<Rightarrow> (Inr (Some m), \<lparr> cd_frame = l, cd_noise = Handshaking h1 \<rparr>, src2))
                | PostHandshake p \<Rightarrow>
                    (case decrypt_chunks lib (ph_state p) (rx_nonce p) (chunks MAX_MESSAGE_LEN bytes) [] of
                       (r, n) \<Rightarrow>
                         (case r of Inl e \<Rightarrow> Inl e | Inr m \<Rightarrow> Inr (Some m),
                          \<lparr> cd_frame = l, cd_noise = PostHandshake (p\<lparr> rx_nonce := n \<rparr>) \<rparr>, src2)))))"

definition put_frame :: "('h, 't, 'l) noise_lib \<Rightarrow> byte list \<Rightarrow> byte list \<Rightarrow> (string + unit) \<times> byte list" where
  "put_frame lib bytes dst =
     (case frame_encode lib bytes of Inl e \<Rightarrow> (Inl e, dst) | Inr f \<Rightarrow> (Inr (), dst @ f))"

definition encode ::
  "('h, 't, 'l) noise_lib \<Rightarrow> ('h, 't, 'l) codec \<Rightarrow> byte list \<Rightarrow> byte list
     \<Rightarrow> (string + unit) \<times> ('h, 't, 'l) codec \<times> byte list" where
  "encode lib c msg dst =
     (case cd_noise c of
        Handshaking h \<Rightarrow>
          (case hs_write_message lib h msg of
             (Inl e, h1) \<Rightarrow> (Inl e, c\<lparr> cd_noise := Handshaking h1 \<rparr>, dst)
           | (Inr m, h1) \<Rightarrow>
               (case put_frame lib m dst of (r, dst1) \<Rightarrow> (r, c\<lparr> cd_noise := Handshaking h1 \<rparr>, dst1)))
      | PostHandshake p \<Rightarrow>
          (case encrypt_chunks lib (ph_state p) (tx_nonce p) (chunks (MAX_MESSAGE_LEN - 16) msg) [] of
             (r, n) \<Rightarrow>
               (let c1 = c\<lparr> cd_noise := PostHandshake (p\<lparr> tx_nonce := n \<rparr>) \<rparr>
                in case r of
                     Inl e \<Rightarrow> (Inl e, c1, dst)
                   | Inr m \<Rightarrow> (case put_frame lib m dst of (r, dst1) \<Rightarrow> (r, c1, dst1)))))"

section \<open>The handshake\<close>

text \<open>
  The three messages of the handshake over the framed stream: \<open>inbuf\<close> is all that the transport
  delivers before it ends, and what is left of it in the buffer of the framed stream at the end is dropped with it.
  The result carries the bytes that were sent.
\<close>

definition framed_next ::
  "('h, 't, 'l) noise_lib \<Rightarrow> ('h, 't, 'l) codec \<times> byte list
     \<Rightarrow> (string, byte list \<times> ('h, 't, 'l) codec \<times> byte list) outcome" where
  "framed_next lib st =
     (case decode lib (fst st) (snd st) of
        (Inl e, c, rest) \<Rightarrow> Failed e
      | (Inr None, c, rest) \<Rightarrow>
          if rest = [] then Done ([], c, rest) else Failed ''bytes remaining on stream''
      | (Inr (Some m), c, rest) \<Rightarrow> Done (m, c, rest))"

definition framed_send ::
  "('h, 't, 'l) noise_lib \<Rightarrow> byte list \<Rightarrow> ('h, 't, 'l) codec \<Rightarrow> byte list
     \<Rightarrow> (string, ('h, 't, 'l) codec \<times> byte list) outcome" where
  "framed_send lib m c out =
     (case encode lib c m out of
        (Inl e, c1, out1) \<Rightarrow> Failed e
      | (Inr _, c1, out1) \<Rightarrow> Done (c1, out1))"

definition handshake_initiator ::
  "('h, 't, 'l) noise_lib \<Rightarrow> 'h \<Rightarrow> byte list \<Rightarrow> byte list
     \<Rightarrow> (string, ('h, 't) noise_state \<times> byte list \<times> byte list) outcome" where
  "handshake_initiator lib h payload inbuf =
     obind (framed_send lib [] (codec_new lib (Handshaking h)) []) (\<lambda>(c1, out1).
     obind (framed_next lib (c1, inbuf)) (\<lambda>(secure, c2, rest).
     obind (framed_send lib payload c2 out1) (\<lambda>(c3, out2).
     obind (into_post_handshake lib (cd_noise c3)) (\<lambda>s.
     Done (s, secure, out2)))))"

definition handshake_responder ::
  "('h, 't, 'l) noise_lib \<Rightarrow> 'h \<Rightarrow> byte list \<Rightarrow> byte list
     \<Rightarrow> (string, ('h, 't) noise_state \<times> byte list \<times> byte list) outcome" where
  "handshake_responder lib h payload inbuf =
     obind (framed_next lib (codec_new lib (Handshaking h), inbuf)) (\<lambda>(_, c1, rest1).
     obind (framed_send lib payload c1 []) (\<lambda>(c2, out).
     obind (framed_next lib (c2, rest1)) (\<lambda>(secure, c3, rest2).
     obind (into_post_handshake lib (cd_noise c3)) (\<lambda>s.
     Done (s, secure, out)))))"

section \<open>What the libraries document\<close>

text \<open>
  Encrypting adds a tag of 16 bytes and succeeds when the result fits a message of the protocol;
  decrypting with the same nonce at the other end gives the text back.
\<close>

definition session_ok :: "('h, 't, 'l) noise_lib \<Rightarrow> 't \<Rightarrow> 't \<Rightarrow> bool" where
  "session_ok lib t t' \<longleftrightarrow>
     (\<forall>n m. length m + 16 \<le> 65535 \<longrightarrow>
        (\<exists>x. write_message lib t n m = Inr x \<and> length x = length m + 16 \<and> read_message lib t' n x = Inr m))"

text \<open>What was encrypted with one nonce is refused under another.\<close>

definition nonces_bind :: "('h, 't, 'l) noise_lib \<Rightarrow> 't \<Rightarrow> 't \<Rightarrow> bool" where
  "nonces_bind lib t t' \<longleftrightarrow>
     (\<forall>n n' m x. write_message lib t n m = Inr x \<longrightarrow> n' \<noteq> n \<longrightarrow> isl (read_message lib t' n' x))"

text \<open>
  The framing codec with a length field of two bytes and a maximal frame of 65535: longer frames are
  refused, others are written so that they are read back, and nothing behind them is touched.
\<close>

definition framing_ok :: "('h, 't, 'l) noise_lib \<Rightarrow> bool" where
  "framing_ok lib \<longleftrightarrow>
     (\<forall>bs. isl (frame_encode lib bs) \<longleftrightarrow> 65535 < length bs) \<and>
     (\<forall>bs f rest. frame_encode lib bs = Inr f \<longrightarrow>
        frame_decode lib (frame_new lib) (f @ rest) = (Inr (Some bs), frame_new lib, rest))"

lemma frame_fits: "framing_ok lib \<Longrightarrow> length bs \<le> 65535 \<Longrightarrow> \<exists>f. frame_encode lib bs = Inr f"
  by (cases "frame_encode lib bs") (auto simp: framing_ok_def, metis isl_def linorder_not_less)

lemma frame_too_long: "framing_ok lib \<Longrightarrow> 65535 < length bs \<Longrightarrow> \<exists>e. frame_encode lib bs = Inl e"
  by (auto simp: framing_ok_def isl_def)

lemma frame_back:
  "framing_ok lib \<Longrightarrow> frame_encode lib bs = Inr f \<Longrightarrow>
   frame_decode lib (frame_new lib) (f @ rest) = (Inr (Some bs), frame_new lib, rest)"
  by (simp add: framing_ok_def)

section \<open>Chunks\<close>

lemma chunks_Nil [simp]: "chunks n [] = []"
  by (simp add: chunks.simps)

lemma chunks_small: "xs \<noteq> [] \<Longrightarrow> length xs \<le> n \<Longrightarrow> chunks n xs = [xs]"
  by (subst chunks.simps) (cases xs, simp_all)

lemma concat_chunks: "0 < n \<Longrightarrow> concat (chunks n xs) = xs"
  by (induction n xs rule: chunks.induct) (subst chunks.simps, simp)

lemma chunks_length: "c \<in> set (chunks n xs) \<Longrightarrow> length c \<le> n"
proof (induction n xs rule: chunks.induct)
  case (1 n xs)
  then show ?case using chunks.simps [of n xs] by (auto split: if_splits)
qed

lemma chunks_many:
  assumes "0 < n" and "n < length xs"
  shows "2 \<le> length (chunks n xs)"
proof -
  have "chunks n xs = take n xs # take n (drop n xs) # chunks n (drop n (drop n xs))"
    using assms by (subst chunks.simps, subst (1) chunks.simps) auto
  then show ?thesis by simp
qed

lemma chunks_count: "0 < n \<Longrightarrow> length (chunks n xs) \<le> length xs"
proof (induction n xs rule: chunks.induct)
  case (1 n xs)
  show ?case
  proof (cases "xs = []")
    case False
    have "length (chunks n (drop n xs)) \<le> length (drop n xs)" using 1 False by simp
    then show ?thesis using 1(2) False by (subst chunks.simps) (cases xs, auto)
  qed simp
qed

lemma encrypt_chunks_ok:
  assumes "session_ok lib t t'" and "\<forall>c\<in>set cs. length c + 16 \<le> 65535"
  shows "\<exists>out. encrypt_chunks lib t n cs acc = (Inr (acc @ out), n + of_nat (length cs)) \<and>
           length out = length (concat cs) + 16 * length cs"
  using assms(2)
proof (induction cs arbitrary: n acc)
  case (Cons c cs)
  obtain x where x: "write_message lib t n c = Inr x" "length x = length c + 16"
    using assms(1) Cons.prems by (force simp: session_ok_def)
  obtain out where "encrypt_chunks lib t (n + 1) cs (acc @ x) = (Inr ((acc @ x) @ out), n + 1 + of_nat (length cs))"
    "length out = length (concat cs) + 16 * length cs"
    using Cons.IH [of "n + 1" "acc @ x"] Cons.prems by auto
  then show ?case using x by (intro exI [of _ "x @ out"]) (simp add: algebra_simps)
qed simp

section \<open>Two ends in step\<close>

definition in_sync :: "('h, 't, 'l) noise_lib \<Rightarrow> ('h, 't, 'l) codec \<Rightarrow> ('h, 't, 'l) codec \<Rightarrow> bool" where
  "in_sync lib c c' \<longleftrightarrow>
     (\<exists>p p'. cd_noise c = PostHandshake p \<and> cd_noise c' = PostHandshake p' \<and> cd_frame c' = frame_new lib \<and>
        rx_carryover p' = None \<and> tx_nonce p = rx_nonce p' \<and> session_ok lib (ph_state p) (ph_state p'))"

lemma encode_decode:
  assumes "in_sync lib c c'" and "framing_ok lib" and "length m \<le> 65519"
  shows "\<exists>f c1 c2. encode lib c m dst = (Inr (), c1, dst @ f) \<and>
           (\<forall>rest. decode lib c' (f @ rest) = (Inr (Some m), c2, rest)) \<and> in_sync lib c1 c2"
proof -
  obtain p p' where p: "cd_noise c = PostHandshake p" "cd_noise c' = PostHandshake p'" "cd_frame c' = frame_new lib"
    "rx_carryover p' = None" "tx_nonce p = rx_nonce p'" and s: "session_ok lib (ph_state p) (ph_state p')"
    using assms(1) by (auto simp: in_sync_def)
  obtain x n where enc: "encrypt_chunks lib (ph_state p) (tx_nonce p) (chunks 65519 m) [] = (Inr x, n)"
    and dec: "decrypt_chunks lib (ph_state p') (rx_nonce p') (chunks 65535 x) [] = (Inr m, n)" and len: "length x \<le> 65535"
  proof (cases "m = []")
    case True
    then show ?thesis using that [of "[]" "tx_nonce p"] p(5) by simp
  next
    case False
    obtain x where x: "write_message lib (ph_state p) (tx_nonce p) m = Inr x" "length x = length m + 16"
      "read_message lib (ph_state p') (tx_nonce p) x = Inr m"
      using s assms(3) by (fastforce simp: session_ok_def)
    then have "x \<noteq> []" by auto
    then show ?thesis using that [of x "tx_nonce p + 1"] x False assms(3) p(5) by (simp add: chunks_small)
  qed
  obtain f where f: "frame_encode lib x = Inr f"
    using frame_fits [OF assms(2) len] by blast
  let ?c1 = "c\<lparr> cd_noise := PostHandshake (p\<lparr> tx_nonce := n \<rparr>) \<rparr>"
  let ?c2 = "\<lparr> cd_frame = frame_new lib, cd_noise = PostHandshake (p'\<lparr> rx_nonce := n \<rparr>) \<rparr> :: ('a, 'b, 'c) codec"
  have "encode lib c m dst = (Inr (), ?c1, dst @ f)"
    using enc by (simp add: encode_def p(1) MAX_MESSAGE_LEN_def put_frame_def f)
  moreover have "decode lib c' (f @ rest) = (Inr (Some m), ?c2, rest)" for rest
    using dec by (simp add: decode_def take_carryover_def p frame_back [OF assms(2) f] MAX_MESSAGE_LEN_def)
  moreover have "in_sync lib ?c1 ?c2" using p s by (simp add: in_sync_def)
  ultimately show ?thesis by blast
qed

section \<open>Links\<close>

text \<open>Sending and receiving any number of messages, with whatever encoder and decoder a link has.\<close>

type_synonym 'c encoder = "'c \<Rightarrow> byte list \<Rightarrow> byte list \<Rightarrow> (string + unit) \<times> 'c \<times> byte list"
type_synonym 'c decoder = "'c \<Rightarrow> byte list \<Rightarrow> (string + byte list option) \<times> 'c \<times> byte list"

fun send_all :: "'c encoder \<Rightarrow> 'c \<Rightarrow> byte list list \<Rightarrow> byte list \<Rightarrow> (string + unit) \<times> 'c \<times> byte list" where
  "send_all enc c [] dst = (Inr (), c, dst)"
| "send_all enc c (m # ms) dst =
     (case enc c m dst of
        (Inl e, c1, dst1) \<Rightarrow> (Inl e, c1, dst1)
      | (Inr _, c1, dst1) \<Rightarrow> send_all enc c1 ms dst1)"

fun receive_all :: "'c decoder \<Rightarrow> 'c \<Rightarrow> nat \<Rightarrow> byte list \<Rightarrow> (string + byte list option) list \<times> 'c \<times> byte list" where
  "receive_all dec c 0 src = ([], c, src)"
| "receive_all dec c (Suc n) src =
     (case dec c src of
        (r, c1, src1) \<Rightarrow> (case receive_all dec c1 n src1 of (rs, c2, src2) \<Rightarrow> (r # rs, c2, src2)))"

text \<open>
  What a node relies on of a link: a message that fits and is sent by an end in step is given out by the
  other end, whatever follows it, and both ends stay in step. Then the link is a queue.
\<close>

locale message_link =
  fixes enc :: "'c encoder" and dec :: "'d decoder" and synced :: "'c \<Rightarrow> 'd \<Rightarrow> bool" and fits :: "byte list \<Rightarrow> bool"
  assumes deliver: "synced c c' \<Longrightarrow> fits m \<Longrightarrow>
    \<exists>f c1 c2. enc c m dst = (Inr (), c1, dst @ f) \<and> (\<forall>rest. dec c' (f @ rest) = (Inr (Some m), c2, rest)) \<and> synced c1 c2"
begin

lemma send_receive:
  "synced c c' \<Longrightarrow> (\<forall>m\<in>set ms. fits m) \<Longrightarrow>
    \<exists>stream c1 c2. send_all enc c ms dst = (Inr (), c1, dst @ stream) \<and>
      (\<forall>rest. receive_all dec c' (length ms) (stream @ rest) = (map (Inr \<circ> Some) ms, c2, rest)) \<and> synced c1 c2"
proof (induction ms arbitrary: c c' dst)
  case Nil
  then show ?case by (intro exI [of _ "[]"] exI [of _ c] exI [of _ c']) simp
next
  case (Cons m ms)
  obtain f c1 c2 where e: "enc c m dst = (Inr (), c1, dst @ f)"
    and d: "\<And>rest. dec c' (f @ rest) = (Inr (Some m), c2, rest)" and sync: "synced c1 c2"
    using deliver [OF Cons.prems(1), of m dst] Cons.prems(2) by auto
  obtain stream d1 d2 where i: "send_all enc c1 ms (dst @ f) = (Inr (), d1, (dst @ f) @ stream)"
    "\<And>rest. receive_all dec c2 (length ms) (stream @ rest) = (map (Inr \<circ> Some) ms, d2, rest)" "synced d1 d2"
    using Cons.IH [OF sync, of "dst @ f"] Cons.prems(2) by auto
  show ?case
    by (intro exI [of _ "f @ stream"] exI [of _ d1] exI [of _ d2]) (simp add: e d i)
qed

end

interpretation nl: message_link "encode lib" "decode lib" "\<lambda>c c'. framing_ok lib \<and> in_sync lib c c'"
  "\<lambda>m. length m \<le> 65519" for lib :: "('h, 't, 'l) noise_lib"
proof
  fix c c' :: "('h, 't, 'l) codec" and m dst :: "byte list"
  assume "framing_ok lib \<and> in_sync lib c c'" and "length m \<le> 65519"
  then show "\<exists>f c1 c2. encode lib c m dst = (Inr (), c1, dst @ f) \<and>
      (\<forall>rest. decode lib c' (f @ rest) = (Inr (Some m), c2, rest)) \<and> framing_ok lib \<and> in_sync lib c1 c2"
    using encode_decode [of lib c c' m dst] by blast
qed

section \<open>Properties\<close>

text \<open>
  C12: The encrypted connection is a queue: whatever messages of at most 65519 bytes are sent, in whatever
  number, all are accepted, and reading the stream of bytes gives exactly these messages in this order,
  leaves what follows in the stream, and leaves both ends ready for the next message.
\<close>

theorem encrypted_stream_is_fifo:
  assumes "framing_ok lib" and "in_sync lib c c'" and "\<And>m. m \<in> set ms \<Longrightarrow> length m \<le> MAX_MESSAGE_LEN - 16"
  shows "\<exists>stream c1 c2. send_all (encode lib) c ms [] = (Inr (), c1, stream) \<and>
           receive_all (decode lib) c' (length ms) (stream @ rest) = (map (Inr \<circ> Some) ms, c2, rest) \<and> in_sync lib c1 c2"
  using nl.send_receive [OF conjI [OF assms(1,2)], of ms "[]"] assms(3) by (fastforce simp: MAX_MESSAGE_LEN_def)

text \<open>
  C31: The chunks do not make longer messages possible: a message of more than 65519 bytes always fails to
  be sent, because all its chunks go into one frame. And it breaks the connection: its chunks have used up
  nonces that the receiver never sees, so that the next message that is sent without an error is refused there.
\<close>

theorem oversized_message_breaks_stream:
  assumes "framing_ok lib" and "in_sync lib c c'" and "MAX_MESSAGE_LEN - 16 < length m" and "length m < 2 ^ 64"
    and "\<And>p p'. cd_noise c = PostHandshake p \<Longrightarrow> cd_noise c' = PostHandshake p' \<Longrightarrow>
           nonces_bind lib (ph_state p) (ph_state p')"
    and "m2 \<noteq> []" and "length m2 \<le> MAX_MESSAGE_LEN - 16"
  shows "\<exists>e c1 c2 f. encode lib c m dst = (Inl e, c1, dst) \<and> encode lib c1 m2 dst = (Inr (), c2, dst @ f) \<and>
           isl (fst (decode lib c' (f @ rest)))"
proof -
  obtain p p' where p: "cd_noise c = PostHandshake p" "cd_noise c' = PostHandshake p'" "cd_frame c' = frame_new lib"
    "rx_carryover p' = None" "tx_nonce p = rx_nonce p'" and s: "session_ok lib (ph_state p) (ph_state p')"
    using assms(2) by (auto simp: in_sync_def)
  let ?cs = "chunks 65519 m" and ?k = "of_nat (length (chunks 65519 m)) :: u64"
  obtain x where x: "encrypt_chunks lib (ph_state p) (tx_nonce p) ?cs [] = (Inr x, tx_nonce p + ?k)"
    "length x = length m + 16 * length ?cs"
    using encrypt_chunks_ok [OF s, of ?cs "tx_nonce p" "[]"] chunks_length [of _ 65519 m] concat_chunks [of 65519 m]
    by force
  have many: "2 \<le> length ?cs" using chunks_many [of 65519 m] assms(3) by (simp add: MAX_MESSAGE_LEN_def)
  then have "65535 < length x" using x(2) assms(3) by (simp add: MAX_MESSAGE_LEN_def)
  then obtain e where e: "frame_encode lib x = Inl e" using frame_too_long [OF assms(1)] by blast
  let ?c1 = "c\<lparr> cd_noise := PostHandshake (p\<lparr> tx_nonce := tx_nonce p + ?k \<rparr>) \<rparr>"
  have fail: "encode lib c m dst = (Inl e, ?c1, dst)"
    using x(1) e by (simp add: encode_def p(1) MAX_MESSAGE_LEN_def put_frame_def)
  obtain y where y: "write_message lib (ph_state p) (tx_nonce p + ?k) m2 = Inr y" "length y = length m2 + 16"
    using s assms(7) by (fastforce simp: session_ok_def MAX_MESSAGE_LEN_def)
  have "length y \<le> 65535" and ne: "y \<noteq> []" using y(2) assms(7) by (auto simp: MAX_MESSAGE_LEN_def)
  then obtain f where f: "frame_encode lib y = Inr f" using frame_fits [OF assms(1)] by blast
  have ok: "encode lib ?c1 m2 dst = (Inr (), c\<lparr> cd_noise := PostHandshake (p\<lparr> tx_nonce := tx_nonce p + ?k + 1 \<rparr>) \<rparr>, dst @ f)"
    using y(1) f assms(6,7) by (simp add: encode_def chunks_small MAX_MESSAGE_LEN_def put_frame_def)
  have "unat ?k = length ?cs"
    using chunks_count [of 65519 m] assms(4) by (simp add: unat_of_nat)
  then have "tx_nonce p + ?k \<noteq> rx_nonce p'" using many p(5) by (auto simp: unat_eq_zero)
  then have "isl (read_message lib (ph_state p') (rx_nonce p') y)"
    using assms(5) [OF p(1,2)] y(1) by (metis nonces_bind_def)
  then have "isl (fst (decode lib c' (f @ rest)))"
    using ne \<open>length y \<le> 65535\<close>
    by (auto simp: decode_def take_carryover_def p frame_back [OF assms(1) f] MAX_MESSAGE_LEN_def chunks_small isl_def)
  with fail ok show ?thesis by blast
qed

lemma framed_next_handshake:
  assumes "framing_ok lib" and "frame_encode lib m = Inr f"
  shows "framed_next lib (\<lparr> cd_frame = frame_new lib, cd_noise = Handshaking h \<rparr>, f @ rest) =
    (case hs_read_message lib h m of
       (Inl _, _) \<Rightarrow> Failed ''invalid data''
     | (Inr x, h1) \<Rightarrow> Done (x, \<lparr> cd_frame = frame_new lib, cd_noise = Handshaking h1 \<rparr>, rest))"
proof (cases "hs_read_message lib h m")
  case (Pair r h1)
  then show ?thesis
    by (cases r) (simp_all add: framed_next_def decode_def take_carryover_def frame_back [OF assms])
qed

lemma framed_send_handshake:
  assumes "framed_send lib m \<lparr> cd_frame = l, cd_noise = Handshaking h \<rparr> out = Done (c, out1)"
  shows "\<exists>h1. c = \<lparr> cd_frame = l, cd_noise = Handshaking h1 \<rparr>"
  using assms by (auto simp: framed_send_def encode_def split: prod.splits sum.splits)

lemma into_post_handshake_fresh:
  assumes "into_post_handshake lib s = Done s1"
  shows "\<exists>p. s1 = PostHandshake p \<and> rx_carryover p = None \<and> rx_nonce p = 0 \<and> tx_nonce p = 0"
  using assms by (cases s) (auto simp: into_post_handshake_def obind_eq_Done)

lemma handshake_responder_fresh:
  assumes "handshake_responder lib h payload inbuf = Done (s, secure, out)"
  shows "\<exists>p. s = PostHandshake p \<and> rx_carryover p = None"
proof -
  obtain c where "into_post_handshake lib c = (Done s :: (string, _) outcome)"
    using assms unfolding handshake_responder_def obind_eq_Done case_prod_beta by blast
  then show ?thesis using into_post_handshake_fresh by blast
qed

text \<open>
  The responder of a handshake forgets whatever has arrived behind the third message: its state at the
  end is the same as if nothing had, with no bytes carried over. The initiator may send its first message
  right behind the third one, and then it is lost.
\<close>

theorem bytes_behind_handshake_lost:
  assumes "framing_ok lib" and "frame_encode lib m1 = Inr f1" and "frame_encode lib m3 = Inr f3"
  shows "handshake_responder lib h payload (f1 @ f3 @ rest) = handshake_responder lib h payload (f1 @ f3) \<and>
    (\<forall>s secure out. handshake_responder lib h payload (f1 @ f3 @ rest) = Done (s, secure, out) \<longrightarrow>
       (\<exists>p. s = PostHandshake p \<and> rx_carryover p = None))"
proof
  note step = framed_next_handshake [OF assms(1)]
  show "handshake_responder lib h payload (f1 @ f3 @ rest) = handshake_responder lib h payload (f1 @ f3)"
  proof (cases "hs_read_message lib h m1")
    case (Pair r h1)
    note first = step [OF assms(2), of h, unfolded Pair]
    show ?thesis
    proof (cases r)
      case (Inr x)
      show ?thesis
      proof (cases "framed_send lib payload \<lparr> cd_frame = frame_new lib, cd_noise = Handshaking h1 \<rparr> []")
        case (Done y)
        obtain c out where c: "y = (c, out)" by (cases y)
        obtain h2 where "c = \<lparr> cd_frame = frame_new lib, cd_noise = Handshaking h2 \<rparr>"
          using framed_send_handshake [OF Done [unfolded c]] by blast
        note y = c [unfolded this]
        show ?thesis
        proof (cases "hs_read_message lib h2 m3")
          case third: (Pair r3 h3)
          show ?thesis
            using step [OF assms(3), of h2 rest] step [OF assms(3), of h2 "[]"]
            by (cases r3) (simp_all add: handshake_responder_def codec_new_def first Inr Done y third)
        qed
      qed (simp_all add: handshake_responder_def codec_new_def first Inr)
    qed (simp add: handshake_responder_def codec_new_def first)
  qed
  show "\<forall>s secure out. handshake_responder lib h payload (f1 @ f3 @ rest) = Done (s, secure, out) \<longrightarrow>
       (\<exists>p. s = PostHandshake p \<and> rx_carryover p = None)"
    by (intro allI impI) (rule handshake_responder_fresh)
qed

section \<open>A concrete library\<close>

text \<open>
  An instance of what the libraries document: the tag of a chunk holds its nonce, and a frame is its
  length in two bytes, the high one first, and the bytes.
\<close>

definition nonce_tag :: "u64 \<Rightarrow> byte list" where
  "nonce_tag n = replicate 8 0 @ u64_to_be_bytes n"

definition sample_noise :: "(unit, unit, unit) noise_lib" where
  "sample_noise = \<lparr>
     hs_read_message = (\<lambda>h m. (Inr m, h)),
     hs_write_message = (\<lambda>h m. (Inr m, h)),
     into_transport = Inr,
     read_message = (\<lambda>_ n x. if 16 \<le> length x \<and> drop (length x - 16) x = nonce_tag n
                              then Inr (take (length x - 16) x) else Inl ''decrypt error''),
     write_message = (\<lambda>_ n m. if length m + 16 \<le> 65535 then Inr (m @ nonce_tag n) else Inl ''input error''),
     frame_new = (),
     frame_decode = (\<lambda>_ src.
       case src of
         a # b # r \<Rightarrow>
           (let n = 256 * unat a + unat b
            in if length r < n then (Inr None, (), src) else (Inr (Some (take n r)), (), drop n r))
       | _ \<Rightarrow> (Inr None, (), src)),
     frame_encode = (\<lambda>bs.
       if 65535 < length bs then Inl ''frame size too big''
       else Inr (of_nat (length bs div 256) # of_nat (length bs mod 256) # bs)) \<rparr>"

lemma nonce_tag_length [simp]: "length (nonce_tag n) = 16"
  by (simp add: nonce_tag_def u64_to_be_bytes_def)

lemma nonce_tag_inj: "nonce_tag n = nonce_tag n' \<Longrightarrow> n = n'"
  unfolding nonce_tag_def by (metis same_append_eq u64_be_roundtrip)

lemma sample_session: "session_ok sample_noise () ()"
  by (simp add: session_ok_def sample_noise_def)

lemma sample_nonces: "nonces_bind sample_noise () ()"
  using nonce_tag_inj by (auto simp: nonces_bind_def sample_noise_def split: if_splits)

lemma sample_framing: "framing_ok sample_noise"
proof -
  have "256 * unat (of_nat (length bs div 256) :: byte) + unat (of_nat (length bs mod 256) :: byte) = length bs"
    if "length bs \<le> 65535" for bs :: "byte list"
    using that by (simp add: unat_of_nat) 
  then show ?thesis by (auto simp: framing_ok_def sample_noise_def Let_def split: if_splits)
qed

abbreviation fresh_end :: "(unit, unit, unit) codec" where
  "fresh_end \<equiv> codec_new sample_noise
     (PostHandshake \<lparr> ph_state = (), rx_carryover = None, rx_nonce = 0, tx_nonce = 0 \<rparr>)"

lemma fresh_in_sync: "in_sync sample_noise fresh_end fresh_end"
  by (simp add: in_sync_def codec_new_def sample_session)

text \<open>Two messages over a fresh connection, with further bytes behind them.\<close>

theorem encrypted_stream_is_fifo_witness:
  "\<exists>stream c1 c2. send_all (encode sample_noise) fresh_end [[1, 2, 3], [4]] [] = (Inr (), c1, stream) \<and>
     receive_all (decode sample_noise) fresh_end (length [[1, 2, 3], [4 :: byte]]) (stream @ [9]) =
       (map (Inr \<circ> Some) [[1, 2, 3], [4]], c2, [9]) \<and> in_sync sample_noise c1 c2"
  by (rule encrypted_stream_is_fifo [OF sample_framing fresh_in_sync]) (auto simp: MAX_MESSAGE_LEN_def)

text \<open>A message of 70000 bytes and then one of a single byte.\<close>

theorem oversized_message_breaks_stream_witness:
  "\<exists>e c1 c2 f. encode sample_noise fresh_end (replicate 70000 0) [] = (Inl e, c1, []) \<and>
     encode sample_noise c1 [1] [] = (Inr (), c2, [] @ f) \<and>
     isl (fst (decode sample_noise fresh_end (f @ [])))"
  by (rule oversized_message_breaks_stream [OF sample_framing fresh_in_sync])
    (simp_all add: MAX_MESSAGE_LEN_def codec_new_def sample_nonces)

text \<open>Two messages of the handshake, and a first message of the connection behind them.\<close>

theorem bytes_behind_handshake_lost_witness:
  "handshake_responder sample_noise () [7] ([0, 1, 5] @ [0, 2, 6, 6] @ [0, 1, 8]) =
     handshake_responder sample_noise () [7] ([0, 1, 5] @ [0, 2, 6, 6])"
  using bytes_behind_handshake_lost
    [OF sample_framing, of "[5]" "[0, 1, 5]" "[6, 6]" "[0, 2, 6, 6]" "()" "[7]" "[0, 1, 8]"]
  by (simp add: sample_noise_def)

end
