(* ===== verification/P2p.thy ===== *)
theory P2p
  imports Protocol Noise Event_Loop
begin

text \<open>
  \<open>networking/p2p/pea2pea.rs\<close>: the peer-to-peer node. It keeps the addresses of its peers, their HTTP
  ports, and which connection belongs to which advertised address; it exchanges handshakes, spreads the
  transactions of its own mempool, feeds received ones to the mempool, and answers diagnostics requests.
  Connections and the encryption session come from libraries. A \<open>BTreeSet\<close> of addresses is a set;
  where the code iterates over one, the order of addresses is the parameter \<open>iter\<close>.
\<close>

section \<open>State\<close>

text \<open>The last two fields are the metrics that this component counts, which are global in the code.\<close>

record ('h, 't) p2p =
  pp_listening_addr :: "socket_addr option"
  pp_noise_states :: "(socket_addr, ('h, 't) noise_state) hmap"
  pp_peer_addr_mapping :: "(socket_addr, socket_addr) hmap"
  pp_peer_list :: "socket_addr set"
  pp_connecting :: "socket_addr set"
  pp_peer_http_port_list :: "(socket_addr, u16 option) hmap"
  pp_http_port :: "u16 option"
  pp_nat_listen_addr :: "socket_addr option"
  pp_psk :: "byte list"
  pp_public_node_key :: public_key
  pp_tx_sender :: tx_channel
  pp_protocol_version :: u64
  pp_node_resources :: "u64 \<times> u64 \<times> u64"
  pp_connected_peers :: nat
  pp_incoming_messages :: nat

definition p2p_new ::
  "crates \<Rightarrow> string \<Rightarrow> public_key \<Rightarrow> u16 option \<Rightarrow> socket_addr option \<Rightarrow> (socket_addr, u16 option) hmap
     \<Rightarrow> tx_channel \<Rightarrow> u64 \<times> u64 \<times> u64 \<Rightarrow> ('h, 't) p2p" where
  "p2p_new cr psk_passphrase key http nat_addr ports sender resources =
     \<lparr> pp_listening_addr = None, pp_noise_states = hm_empty, pp_peer_addr_mapping = hm_empty, pp_peer_list = {},
       pp_connecting = {}, pp_peer_http_port_list = ports, pp_http_port = http, pp_nat_listen_addr = nat_addr,
       pp_psk = sha3_256 cr (as_bytes psk_passphrase), pp_public_node_key = key, pp_tx_sender = sender,
       pp_protocol_version = 1, pp_node_resources = resources,
       pp_connected_peers = 0, pp_incoming_messages = 0 \<rparr>"

section \<open>Transactions\<close>

text \<open>The loop over the validated transactions: the payloads it hands to \<open>broadcast\<close>.\<close>

fun propagate_loop :: "bincode \<Rightarrow> validated transaction list \<Rightarrow> byte list list" where
  "propagate_loop w [] = []"
| "propagate_loop w (tx # txs) =
     (case ser_message_v0 w (V0Transaction tx) of
        Inl _ \<Rightarrow> propagate_loop w txs
      | Inr bs \<Rightarrow> bs # propagate_loop w txs)"

definition forward_tx :: "created transaction \<Rightarrow> ('h, 't) p2p \<Rightarrow> ('h, 't) p2p" where
  "forward_tx tx p = p\<lparr> pp_tx_sender := snd (p2p_send_tx tx (pp_tx_sender p)) \<rparr>"

text \<open>
  The answer to a diagnostics request. The version of the build and the exported metrics are parameters,
  and so is \<open>unicast\<close>; the result is what was sent.
\<close>

record diagnostics =
  dg_version :: "u16 \<times> u16 \<times> u16 \<times> string"
  dg_metrics :: "string + byte list"
  dg_unicast :: "socket_addr \<Rightarrow> byte list \<Rightarrow> string + unit"

definition process_diagnostics_request ::
  "bincode \<Rightarrow> diagnostics \<Rightarrow> socket_addr \<Rightarrow> diagnostics_request_kind \<Rightarrow> ('h, 't) p2p
     \<Rightarrow> (string, socket_addr \<times> byte list) outcome" where
  "process_diagnostics_request w d source req p =
     obind
       (case req of
          ReqVersion \<Rightarrow> (case dg_version d of (major, minor, patch, build) \<Rightarrow> Done (RespVersion major minor patch build))
        | ReqResources \<Rightarrow> (case pp_node_resources p of (nc, nm, ng) \<Rightarrow> Done (RespResources nc nm ng))
        | ReqMetrics \<Rightarrow> obind (of_sum (dg_metrics d)) (\<lambda>bs. Done (RespMetrics bs)))
       (\<lambda>resp.
     obind
       (expect ''diagnostics response serialization''
          (case new_serialize_msg w (pp_protocol_version p) (MsgDiagnosticsResponse (pp_public_node_key p) resp) of
             Inl _ \<Rightarrow> None | Inr bs \<Rightarrow> Some bs))
       (\<lambda>bs.
     obind (of_sum (dg_unicast d source bs)) (\<lambda>_.
     Done (source, bs))))"

definition process_message ::
  "bincode \<Rightarrow> diagnostics \<Rightarrow> socket_addr \<Rightarrow> byte list \<Rightarrow> ('h, 't) p2p
     \<Rightarrow> (string, (socket_addr \<times> byte list) list) outcome \<times> ('h, 't) p2p" where
  "process_message w d source message p =
     (let p1 = p\<lparr> pp_incoming_messages := pp_incoming_messages p + 1 \<rparr>
      in case deserialize_msg w message of
           Inr (MsgTransaction tx) \<Rightarrow> (Done [], forward_tx (with_state Created tx) p1)
         | Inr (MsgDiagnosticsRequest kind) \<Rightarrow>
             (obind (process_diagnostics_request w d source kind p1) (\<lambda>m. Done [m]), p1)
         | Inr (MsgDiagnosticsResponse _ _) \<Rightarrow> (Done [], p1)
         | Inl _ \<Rightarrow> (Done [], p1))"

definition reading_codec ::
  "('h, 't, 'l) noise_lib \<Rightarrow> socket_addr \<Rightarrow> ('h, 't) p2p \<Rightarrow> (string, ('h, 't, 'l) codec) outcome" where
  "reading_codec lib addr p =
     obind (expect ''unwrap'' (hm_get (pp_noise_states p) addr)) (\<lambda>s.
     obind (noise_clone s) (\<lambda>s. Done (codec_new lib s)))"

definition writing_codec ::
  "('h, 't, 'l) noise_lib \<Rightarrow> socket_addr \<Rightarrow> ('h, 't) p2p
     \<Rightarrow> (string, ('h, 't, 'l) codec) outcome \<times> ('h, 't) p2p" where
  "writing_codec lib addr p =
     (obind (expect ''unwrap'' (hm_get (pp_noise_states p) addr)) (\<lambda>s. Done (codec_new lib s)),
      p\<lparr> pp_noise_states := hm_remove addr (pp_noise_states p) \<rparr>)"

section \<open>The application handshake\<close>

text \<open>
  One connection during its handshake: the node, the bytes that arrive before the stream ends, the bytes
  written, and how many more the transport accepts. An error keeps what was done before it.
\<close>

record ('h, 't) link =
  lk_node :: "('h, 't) p2p"
  lk_in :: "byte list"
  lk_out :: "byte list"
  lk_room :: nat

type_synonym ('h, 't, 'a) link_io = "('h, 't) link \<Rightarrow> (string, 'a) outcome \<times> ('h, 't) link"

definition io_return :: "'a \<Rightarrow> ('h, 't, 'a) link_io" where
  "io_return a l = (Done a, l)"

definition io_lift :: "(string, 'a) outcome \<Rightarrow> ('h, 't, 'a) link_io" where
  "io_lift r l = (r, l)"

definition io_bind :: "('h, 't, 'a) link_io \<Rightarrow> ('a \<Rightarrow> ('h, 't, 'b) link_io) \<Rightarrow> ('h, 't, 'b) link_io" where
  "io_bind m f l =
     (case m l of
        (Done a, l1) \<Rightarrow> f a l1
      | (Failed e, l1) \<Rightarrow> (Failed e, l1)
      | (Panicked e, l1) \<Rightarrow> (Panicked e, l1))"

definition io_node :: "(('h, 't) p2p \<Rightarrow> (string, 'a) outcome \<times> ('h, 't) p2p) \<Rightarrow> ('h, 't, 'a) link_io" where
  "io_node f l = (case f (lk_node l) of (r, p) \<Rightarrow> (r, l\<lparr> lk_node := p \<rparr>))"

definition read_exact :: "nat \<Rightarrow> ('h, 't, byte list) link_io" where
  "read_exact n l =
     (if length (lk_in l) < n then (Failed ''early eof'', l\<lparr> lk_in := [] \<rparr>)
      else (Done (take n (lk_in l)), l\<lparr> lk_in := drop n (lk_in l) \<rparr>))"

definition write_all :: "byte list \<Rightarrow> ('h, 't, unit) link_io" where
  "write_all bs l =
     (if length bs \<le> lk_room l
      then (Done (), l\<lparr> lk_out := lk_out l @ bs, lk_room := lk_room l - length bs \<rparr>)
      else (Failed ''broken pipe'', l))"

definition read_u64 :: "('h, 't, u64) link_io" where
  "read_u64 = io_bind (read_exact 8) (\<lambda>bs. io_return (u64_from_be_bytes bs))"

definition write_u64 :: "u64 \<Rightarrow> ('h, 't, unit) link_io" where
  "write_u64 v = write_all (u64_to_be_bytes v)"

definition read_u32 :: "('h, 't, u32) link_io" where
  "read_u32 = io_bind (read_exact 4) (\<lambda>bs. io_return (u32_from_be_bytes bs))"

definition write_u32 :: "u32 \<Rightarrow> ('h, 't, unit) link_io" where
  "write_u32 v = write_all (be_bytes 4 (unat v))"

abbreviation default_ip :: string where
  "default_ip \<equiv> ''0.0.0.0''"

definition build_handshake_msg ::
  "(socket_addr set \<Rightarrow> socket_addr list) \<Rightarrow> ('h, 't) p2p \<Rightarrow> (string, handshake) outcome \<times> ('h, 't) p2p" where
  "build_handshake_msg iter p =
     (case pp_listening_addr p of
        None \<Rightarrow> (Panicked ''p2p node listening_addr'', p)
      | Some my_local_bind_addr \<Rightarrow>
          (let my_p2p_listen_addr =
                 (case pp_nat_listen_addr p of
                    Some a \<Rightarrow> a | None \<Rightarrow> SocketAddr default_ip (sa_port my_local_bind_addr));
               peers = insert my_p2p_listen_addr (pp_peer_list p)
           in (Done \<lparr> hs_my_p2p_listen_addr = my_p2p_listen_addr, hs_peers = iter peers, hs_http_port = pp_http_port p \<rparr>,
               p\<lparr> pp_peer_list := peers \<rparr>)))"

definition send_handshake :: "bincode \<Rightarrow> (socket_addr set \<Rightarrow> socket_addr list) \<Rightarrow> ('h, 't, unit) link_io" where
  "send_handshake w iter =
     io_bind (io_node (build_handshake_msg iter)) (\<lambda>msg.
     io_bind (io_lift (omap_err (\<lambda>e. ''serialize error:'' @ e) (of_sum (serialize_handshake w msg)))) (\<lambda>bs.
     io_bind (write_u32 (of_nat (length bs))) (\<lambda>_.
     write_all bs)))"

definition receive_handshake :: "bincode \<Rightarrow> ('h, 't, handshake) link_io" where
  "receive_handshake w =
     io_bind read_u32 (\<lambda>buffer_len.
     io_bind (read_exact (unat buffer_len)) (\<lambda>buffer.
     io_lift (omap_err (\<lambda>e. ''deserialize error:'' @ e) (of_sum (deserialize_handshake w buffer)))))"

datatype connection_side = Initiator | Responder

definition exchange ::
  "bincode \<Rightarrow> (socket_addr set \<Rightarrow> socket_addr list) \<Rightarrow> connection_side \<Rightarrow> ('h, 't, handshake) link_io" where
  "exchange w iter side =
     (case side of
        Initiator \<Rightarrow>
          io_bind (\<lambda>l. write_u64 (pp_protocol_version (lk_node l)) l) (\<lambda>_.
          io_bind read_u64 (\<lambda>_.
          io_bind (send_handshake w iter) (\<lambda>_.
          receive_handshake w)))
      | Responder \<Rightarrow>
          io_bind read_u64 (\<lambda>_.
          io_bind (\<lambda>l. write_u64 (pp_protocol_version (lk_node l)) l) (\<lambda>_.
          io_bind (receive_handshake w) (\<lambda>msg.
          io_bind (send_handshake w iter) (\<lambda>_.
          io_return msg)))))"

text \<open>
  The address a peer advertises, with the placeholder replaced by the address it connects from, in its
  own field and in the list of peers.
\<close>

definition effective_handshake :: "socket_addr \<Rightarrow> handshake \<Rightarrow> socket_addr \<times> socket_addr set" where
  "effective_handshake remote_peer msg =
     (let a = hs_my_p2p_listen_addr msg
      in if sa_ip a = default_ip
         then let a1 = SocketAddr (sa_ip remote_peer) (sa_port a) in (a1, insert a1 (set (hs_peers msg) - {a}))
         else (a, set (hs_peers msg)))"

definition record_peer ::
  "socket_addr \<Rightarrow> handshake \<Rightarrow> ('h, 't) p2p \<Rightarrow> (string, unit) outcome \<times> ('h, 't) p2p" where
  "record_peer remote_peer msg p =
     (case effective_handshake remote_peer msg of
        (remote_peer_p2p_addr, peers) \<Rightarrow>
          (let p1 = p\<lparr> pp_peer_addr_mapping := hm_insert remote_peer remote_peer_p2p_addr (pp_peer_addr_mapping p) \<rparr>
           in case pp_listening_addr p1 of
                None \<Rightarrow> (Panicked ''unwrap'', p1)
              | Some listening_addr \<Rightarrow>
                  (let local_p2p_addr = (case pp_nat_listen_addr p1 of Some a \<Rightarrow> a | None \<Rightarrow> listening_addr);
                       local_diff = peers - pp_peer_list p1 - {local_p2p_addr} - {remote_peer_p2p_addr}
                   in (Done (),
                       p1\<lparr> pp_peer_list := insert remote_peer_p2p_addr (pp_peer_list p1),
                           pp_connecting := pp_connecting p1 \<union> local_diff,
                           pp_peer_http_port_list :=
                             hm_insert remote_peer_p2p_addr (hs_http_port msg) (pp_peer_http_port_list p1),
                           pp_connected_peers := pp_connected_peers p1 + 1 \<rparr>))))"

text \<open>The whole of \<open>perform_handshake\<close>, behind the result of the Noise handshake.\<close>

definition perform_handshake ::
  "bincode \<Rightarrow> (socket_addr set \<Rightarrow> socket_addr list) \<Rightarrow> connection_side \<Rightarrow> socket_addr
     \<Rightarrow> (string, ('h, 't) noise_state) outcome \<Rightarrow> ('h, 't, unit) link_io" where
  "perform_handshake w iter side addr noise =
     io_bind (io_lift noise) (\<lambda>s.
     io_bind (io_node (\<lambda>p. (Done (), p\<lparr> pp_noise_states := hm_insert addr s (pp_noise_states p) \<rparr>))) (\<lambda>_.
     io_bind (exchange w iter side) (\<lambda>msg.
     io_node (record_peer addr msg))))"

definition on_disconnect :: "socket_addr \<Rightarrow> ('h, 't) p2p \<Rightarrow> ('h, 't) p2p" where
  "on_disconnect addr p =
     (case hm_get (pp_peer_addr_mapping p) addr of
        None \<Rightarrow> p
      | Some peer_conn_addr \<Rightarrow>
          p\<lparr> pp_peer_addr_mapping := hm_remove addr (pp_peer_addr_mapping p),
             pp_peer_list := pp_peer_list p - {peer_conn_addr},
             pp_peer_http_port_list := hm_remove peer_conn_addr (pp_peer_http_port_list p) \<rparr>)"

section \<open>Connecting\<close>

text \<open>
  \<open>do_connect\<close>. \<open>dial\<close> stands for \<open>Node::connect\<close>, which runs the handshake on a connection it opens;
  its second state is that of the library and of the network. The list of addresses is a stack.
\<close>

type_synonym ('h, 't, 'w) dial = "socket_addr \<Rightarrow> ('h, 't) p2p \<times> 'w \<Rightarrow> (string + unit) \<times> ('h, 't) p2p \<times> 'w"

partial_function (option) do_connect_loop ::
  "(socket_addr set \<Rightarrow> socket_addr list) \<Rightarrow> ('h, 't, 'w) dial \<Rightarrow> socket_addr list \<Rightarrow> socket_addr set
     \<Rightarrow> socket_addr set \<Rightarrow> ('h, 't) p2p \<times> 'w \<Rightarrow> (socket_addr set \<times> socket_addr set \<times> ('h, 't) p2p \<times> 'w) option" where
  "do_connect_loop iter dial todo connected failed s =
     (if todo = [] then Some (connected, failed, s)
      else
        (let addr = last todo; rest = butlast todo; s0 = ((fst s)\<lparr> pp_connecting := {} \<rparr>, snd s)
         in case dial addr s0 of
              (Inr _, p1, w1) \<Rightarrow>
                do_connect_loop iter dial (rest @ iter (pp_connecting p1)) (insert addr connected) failed
                  (p1\<lparr> pp_peer_list := insert addr (pp_peer_list p1) \<rparr>, w1)
            | (Inl _, p1, w1) \<Rightarrow>
                do_connect_loop iter dial rest connected (insert addr failed) (p1, w1)))"

declare do_connect_loop.simps [code]

definition do_connect ::
  "(socket_addr set \<Rightarrow> socket_addr list) \<Rightarrow> ('h, 't, 'w) dial \<Rightarrow> socket_addr \<Rightarrow> ('h, 't) p2p \<times> 'w
     \<Rightarrow> (socket_addr set \<times> socket_addr set \<times> ('h, 't) p2p \<times> 'w) option" where
  "do_connect iter dial addr s = do_connect_loop iter dial [addr] {} {} s"

section \<open>Handshakes keep what they do not change\<close>

definition keeps :: "(('h, 't) p2p \<Rightarrow> bool) \<Rightarrow> ('h, 't, 'a) link_io \<Rightarrow> bool" where
  "keeps P m \<longleftrightarrow> (\<forall>l. P (lk_node l) \<longrightarrow> P (lk_node (snd (m l))))"

named_theorems keeps_intros

lemma keeps_bind [keeps_intros]: "keeps P m \<Longrightarrow> (\<And>a. keeps P (f a)) \<Longrightarrow> keeps P (io_bind m f)"
  by (fastforce simp: keeps_def io_bind_def split: prod.split outcome.split)

lemma keeps_return [keeps_intros]: "keeps P (io_return a)"
  by (simp add: keeps_def io_return_def)

lemma keeps_lift [keeps_intros]: "keeps P (io_lift r)"
  by (simp add: keeps_def io_lift_def)

lemma keeps_read [keeps_intros]: "keeps P (read_exact n)"
  by (simp add: keeps_def read_exact_def)

lemma keeps_write [keeps_intros]: "keeps P (write_all bs)"
  by (simp add: keeps_def write_all_def)

lemma keeps_node [keeps_intros]: "(\<And>p. P p \<Longrightarrow> P (snd (f p))) \<Longrightarrow> keeps P (io_node f)"
  by (force simp: keeps_def io_node_def split: prod.split)

lemma keeps_version [keeps_intros]: "keeps P (\<lambda>l. write_u64 (pp_protocol_version (lk_node l)) l)"
  by (simp add: keeps_def write_u64_def write_all_def)

lemma keeps_exchange:
  assumes "\<And>p. P p \<Longrightarrow> P (snd (build_handshake_msg iter p))"
  shows "keeps P (exchange w iter side)"
  by (cases side) (auto simp: exchange_def send_handshake_def receive_handshake_def read_u64_def read_u32_def write_u32_def
      intro!: keeps_intros assms)

lemma keeps_handshake:
  assumes "\<And>p. P p \<Longrightarrow> P (snd (build_handshake_msg iter p))" and "\<And>p msg. P p \<Longrightarrow> P (snd (record_peer addr msg p))"
    and "\<And>p s. P p \<Longrightarrow> P (p\<lparr> pp_noise_states := s \<rparr>)"
  shows "keeps P (perform_handshake w iter side addr noise)"
  by (auto simp: perform_handshake_def intro!: keeps_intros keeps_exchange assms)

section \<open>The steps of a node\<close>

inductive p2p_step :: "('h, 't) p2p \<Rightarrow> ('h, 't) p2p \<Rightarrow> bool" where
  listen: "p2p_step p (p\<lparr> pp_listening_addr := Some a \<rparr>)"
| connection: "sa_ip addr \<noteq> default_ip \<Longrightarrow> perform_handshake w iter side addr noise l = (r, l1) \<Longrightarrow>
    p2p_step (lk_node l) (lk_node l1)"
| disconnection: "p2p_step p (on_disconnect addr p)"
| incoming: "process_message w d source bs p = (r, p1) \<Longrightarrow> p2p_step p p1"
| writer: "writing_codec (lib :: ('h, 't, unit) noise_lib) addr p = (r, p1) \<Longrightarrow> p2p_step p p1"
| dialling: "p2p_step p (p\<lparr> pp_connecting := {} \<rparr>)"
| dialled: "p2p_step p (p\<lparr> pp_peer_list := insert addr (pp_peer_list p) \<rparr>)"

definition ports_inv :: "('h, 't) p2p \<Rightarrow> bool" where
  "ports_inv p \<longleftrightarrow>
     (\<forall>a v. hm_get (pp_peer_http_port_list p) a = Some v \<longrightarrow> a \<in> pp_peer_list p \<and> sa_ip a \<noteq> default_ip)"

lemma ports_inv_build: "ports_inv p \<Longrightarrow> ports_inv (snd (build_handshake_msg iter p))"
  by (auto simp: ports_inv_def build_handshake_msg_def Let_def split: option.split)

lemma effective_not_default: "sa_ip addr \<noteq> default_ip \<Longrightarrow> sa_ip (fst (effective_handshake addr msg)) \<noteq> default_ip"
  by (simp add: effective_handshake_def Let_def)

lemma ports_inv_record:
  assumes "sa_ip addr \<noteq> default_ip" and "ports_inv p"
  shows "ports_inv (snd (record_peer addr msg p))"
proof (cases "effective_handshake addr msg")
  case (Pair a peers)
  then have "sa_ip a \<noteq> default_ip" using effective_not_default [OF assms(1), of msg] by simp
  with assms(2) Pair show ?thesis
    by (auto simp: ports_inv_def record_peer_def Let_def hm.get_insert split: option.split if_splits)
qed

lemma ports_inv_step:
  assumes "p2p_step p q" and "ports_inv p"
  shows "ports_inv q"
  using assms
proof (induction rule: p2p_step.induct)
  case (connection addr w iter side noise l r l1)
  have "keeps ports_inv (perform_handshake w iter side addr noise)"
  proof (rule keeps_handshake)
    show "ports_inv (q\<lparr> pp_noise_states := s \<rparr>)" if "ports_inv q" for q s
      using that by (simp add: ports_inv_def)
  qed (simp_all add: ports_inv_build ports_inv_record [OF connection(1)])
  with connection show ?case unfolding keeps_def by (metis snd_conv)
next
  case (disconnection p addr)
  then show ?case
    by (auto simp: ports_inv_def on_disconnect_def hm.get_remove split: option.split if_splits)
next
  case (incoming w d source bs p r p1)
  then show ?case
    by (auto simp: ports_inv_def process_message_def forward_tx_def Let_def split: sum.splits p2p_message.splits)
next
  case (writer lib addr p r p1)
  then show ?case by (auto simp: ports_inv_def writing_codec_def)
qed (auto simp: ports_inv_def)

text \<open>What the gauge of connected peers shows: nothing a node does lowers it.\<close>

lemma connected_peers_grows:
  assumes "p2p_step p q"
  shows "pp_connected_peers p \<le> pp_connected_peers q"
  using assms
proof (induction rule: p2p_step.induct)
  case (connection addr w iter side noise l r l1)
  let ?P = "\<lambda>p. pp_connected_peers (lk_node l) \<le> pp_connected_peers p"
  have "keeps ?P (perform_handshake w iter side addr noise)"
    by (rule keeps_handshake) (auto simp: build_handshake_msg_def record_peer_def Let_def split: option.split prod.split)
  with connection show ?case unfolding keeps_def by (metis order_refl snd_conv)
next
  case (incoming w d source bs p r p1)
  then show ?case
    by (auto simp: process_message_def forward_tx_def Let_def split: sum.splits p2p_message.splits)
next
  case (writer lib addr p r p1)
  then show ?case by (auto simp: writing_codec_def)
qed (auto simp: on_disconnect_def split: option.split)

section \<open>Exploring the network\<close>

text \<open>
  What \<open>Node::connect\<close> documents, as long as no connection ends meanwhile: an address that is connected already
  is refused, a success adds the address to the connections; the handshake only adds peers, and only addresses of
  the network \<open>U\<close> to those to try.
\<close>

definition dial_ok :: "('w \<Rightarrow> socket_addr set) \<Rightarrow> socket_addr set \<Rightarrow> ('h, 't, 'w) dial \<Rightarrow> bool" where
  "dial_ok conn U dial \<longleftrightarrow>
     (\<forall>a p w r p1 w1. dial a (p, w) = (r, p1, w1) \<longrightarrow>
        (if isl r then conn w1 = conn w else a \<notin> conn w \<and> conn w1 = insert a (conn w)) \<and>
        pp_peer_list p \<subseteq> pp_peer_list p1 \<and> pp_connecting p1 \<subseteq> pp_connecting p \<union> U)"

definition iter_ok :: "socket_addr set \<Rightarrow> (socket_addr set \<Rightarrow> socket_addr list) \<Rightarrow> bool" where
  "iter_ok U iter \<longleftrightarrow> (\<forall>S. S \<subseteq> U \<longrightarrow> set (iter S) = S)"

definition explored ::
  "('w \<Rightarrow> socket_addr set) \<Rightarrow> socket_addr set \<Rightarrow> socket_addr set \<Rightarrow> socket_addr set \<Rightarrow> socket_addr set \<Rightarrow> 'w
     \<Rightarrow> (socket_addr set \<times> socket_addr set \<times> ('h, 't) p2p \<times> 'w) option \<Rightarrow> bool" where
  "explored conn U todo connected failed w r \<longleftrightarrow>
     (case r of
        None \<Rightarrow> False
      | Some (C, F, p1, w1) \<Rightarrow>
          connected \<subseteq> C \<and> failed \<subseteq> F \<and> todo \<subseteq> C \<union> F \<and> C \<union> F \<subseteq> connected \<union> failed \<union> U \<and>
          C \<subseteq> pp_peer_list p1 \<and> conn w1 = conn w \<union> (C - connected) \<and> C \<inter> conn w \<subseteq> connected)"

lemma do_connect_loop_explores:
  assumes "finite U" and "dial_ok conn U dial" and "iter_ok U iter"
  shows "set todo \<subseteq> U \<Longrightarrow> connected \<subseteq> conn w \<Longrightarrow> connected \<subseteq> pp_peer_list p \<Longrightarrow>
    explored conn U (set todo) connected failed w (do_connect_loop iter dial todo connected failed (p, w))"
proof (induction "(card (U - conn w), length todo)" arbitrary: todo connected failed p w
    rule: wf_induct_rule [OF wf_lex_prod [OF wf_less_than wf_less_than]])
  case 1
  note IH = 1(1) and todo = 1(2) and conn = 1(3) and peers = 1(4)
  show ?case
  proof (cases todo rule: rev_cases)
    case Nil
    then show ?thesis using conn peers by (auto simp: explored_def do_connect_loop.simps)
  next
    case (snoc rest a)
    obtain r p1 w1 where d: "dial a (p\<lparr> pp_connecting := {} \<rparr>, w) = (r, p1, w1)" by (cases "dial a (p\<lparr> pp_connecting := {} \<rparr>, w)")
    then have ok: "if isl r then conn w1 = conn w else a \<notin> conn w \<and> conn w1 = insert a (conn w)"
      and p1: "pp_peer_list p \<subseteq> pp_peer_list p1" and new: "pp_connecting p1 \<subseteq> U"
      using assms(2) unfolding dial_ok_def by fastforce+
    have a: "a \<in> U" and rest: "set rest \<subseteq> U" using todo snoc by auto
    show ?thesis
    proof (cases r)
      case (Inl e)
      have "explored conn U (set rest) connected (insert a failed) w1
          (do_connect_loop iter dial rest connected (insert a failed) (p1, w1))"
        by (rule IH) (use ok Inl snoc rest conn peers p1 in auto)
      with ok Inl a show ?thesis
        by (subst do_connect_loop.simps) (auto simp: snoc d explored_def split: option.splits)
    next
      case (Inr u)
      then have c: "a \<notin> conn w" "conn w1 = insert a (conn w)" using ok by auto
      then have less: "card (U - conn w1) < card (U - conn w)"
        using a assms(1) by (intro psubset_card_mono) auto
      have new': "set (iter (pp_connecting p1)) \<subseteq> U"
        using new assms(3) by (simp add: iter_ok_def)
      let ?p2 = "p1\<lparr> pp_peer_list := insert a (pp_peer_list p1) \<rparr>"
      have "explored conn U (set (rest @ iter (pp_connecting p1))) (insert a connected) failed w1
          (do_connect_loop iter dial (rest @ iter (pp_connecting p1)) (insert a connected) failed (?p2, w1))"
        by (rule IH) (use less rest new' c conn peers p1 in auto)
      with c a conn show ?thesis
        by (subst do_connect_loop.simps) (auto simp: snoc d Inr explored_def split: option.splits)
    qed
  qed
qed

section \<open>Two nodes greet each other\<close>

abbreviation link_of :: "('h, 't) p2p \<Rightarrow> byte list \<Rightarrow> byte list \<Rightarrow> nat \<Rightarrow> ('h, 't) link" where
  "link_of p i out room \<equiv> \<lparr> lk_node = p, lk_in = i, lk_out = out, lk_room = room \<rparr>"

lemma io_bind_Done: "m l = (Done a, l1) \<Longrightarrow> io_bind m f l = f a l1"
  by (simp add: io_bind_def)

lemma read_u64_front: "read_u64 (link_of p (u64_to_be_bytes v @ ys) out room) = (Done v, link_of p ys out room)"
  by (simp add: read_u64_def io_bind_def read_exact_def io_return_def)

lemma read_u32_front: "read_u32 (link_of p (be_bytes 4 (unat v) @ ys) out room) = (Done v, link_of p ys out room)"
  by (simp add: read_u32_def io_bind_def read_exact_def io_return_def u32_be_roundtrip)

text \<open>What one side sends: its version, then the length of its handshake and the handshake.\<close>

definition length_prefixed :: "byte list \<Rightarrow> byte list" where
  "length_prefixed bs = be_bytes 4 (unat (of_nat (length bs) :: u32)) @ bs"

definition greeting :: "u64 \<Rightarrow> byte list \<Rightarrow> byte list" where
  "greeting v bs = u64_to_be_bytes v @ length_prefixed bs"

lemma receive_handshake_ok:
  assumes "length bs < 2 ^ 32" and "deserialize_handshake w bs = Inr msg"
  shows "receive_handshake w (link_of p (length_prefixed bs) out room) = (Done msg, link_of p [] out room)"
proof -
  have "read_u32 (link_of p (length_prefixed bs) out room) = (Done (of_nat (length bs)), link_of p bs out room)"
    unfolding length_prefixed_def by (rule read_u32_front)
  moreover have "unat (of_nat (length bs) :: u32) = length bs" using assms(1) by (simp add: unat_of_nat)
  ultimately show ?thesis
    by (simp add: receive_handshake_def io_bind_def read_exact_def io_lift_def of_sum_def assms(2))
qed

lemma send_handshake_ok:
  assumes "build_handshake_msg iter p = (Done msg, p1)" and "serialize_handshake w msg = Inr bs"
    and "length bs + 4 \<le> room"
  shows "send_handshake w iter (link_of p i out room) =
    (Done (), link_of p1 i (out @ length_prefixed bs) (room - 4 - length bs))"
  using assms
  by (simp add: send_handshake_def io_bind_def io_node_def io_lift_def of_sum_def write_u32_def write_all_def
      length_prefixed_def)

lemma exchange_ok:
  assumes "length bs < 2 ^ 32" and "deserialize_handshake w bs = Inr msg"
    and "build_handshake_msg iter p = (Done mine, p1)" and "serialize_handshake w mine = Inr ms"
    and "length ms + 12 \<le> room"
  shows "exchange w iter side (link_of p (greeting v bs) out room) =
    (Done msg, link_of p1 [] (out @ greeting (pp_protocol_version p) ms) (room - 12 - length ms))"
proof -
  have "write_u64 v (link_of p i out room) = (Done (), link_of p i (out @ u64_to_be_bytes v) (room - 8))" for v i
    using assms(5) by (simp add: write_u64_def write_all_def)
  moreover have "send_handshake w iter (link_of p i out' (room - 8)) =
      (Done (), link_of p1 i (out' @ length_prefixed ms) (room - 12 - length ms))" for i out'
    using send_handshake_ok [OF assms(3,4), of "room - 8"] assms(5) by simp
  ultimately show ?thesis
    by (cases side)
      (simp_all add: exchange_def io_bind_def greeting_def read_u64_front io_return_def receive_handshake_ok [OF assms(1,2)])
qed

text \<open>What a node tells of itself, and what the other side makes of it.\<close>

definition own_handshake :: "(socket_addr set \<Rightarrow> socket_addr list) \<Rightarrow> ('h, 't) p2p \<Rightarrow> socket_addr \<Rightarrow> handshake" where
  "own_handshake iter p listening =
     (let a = (case pp_nat_listen_addr p of Some a \<Rightarrow> a | None \<Rightarrow> SocketAddr default_ip (sa_port listening))
      in \<lparr> hs_my_p2p_listen_addr = a, hs_peers = iter (insert a (pp_peer_list p)), hs_http_port = pp_http_port p \<rparr>)"

definition seen_as :: "('h, 't) p2p \<Rightarrow> socket_addr \<Rightarrow> socket_addr \<Rightarrow> socket_addr" where
  "seen_as p listening observed =
     (case pp_nat_listen_addr p of
        Some a \<Rightarrow> if sa_ip a = default_ip then SocketAddr (sa_ip observed) (sa_port a) else a
      | None \<Rightarrow> SocketAddr (sa_ip observed) (sa_port listening))"

definition knows :: "('h, 't) p2p \<Rightarrow> socket_addr \<Rightarrow> socket_addr \<Rightarrow> u16 option \<Rightarrow> bool" where
  "knows p connection a port \<longleftrightarrow>
     hm_get (pp_peer_addr_mapping p) connection = Some a \<and> a \<in> pp_peer_list p \<and>
     hm_get (pp_peer_http_port_list p) a = Some port \<and> a \<notin> pp_connecting p"

lemma build_own_handshake:
  assumes "pp_listening_addr p = Some x"
  shows "\<exists>L. build_handshake_msg iter p = (Done (own_handshake iter p x), p\<lparr> pp_peer_list := L \<rparr>)"
  using assms by (auto simp: build_handshake_msg_def own_handshake_def Let_def)

lemma effective_own:
  "fst (effective_handshake observed (own_handshake iter p x)) = seen_as p x observed"
  by (auto simp: effective_handshake_def own_handshake_def seen_as_def Let_def split: option.split)

lemma record_peer_knows:
  assumes "pp_listening_addr q = Some y" and "seen_as p x observed \<notin> pp_connecting q"
  shows "\<exists>q1. record_peer observed (own_handshake iter p x) q = (Done (), q1) \<and>
           knows q1 observed (seen_as p x observed) (pp_http_port p)"
proof -
  obtain peers where e: "effective_handshake observed (own_handshake iter p x) = (seen_as p x observed, peers)"
    using effective_own [of observed iter p x] by (cases "effective_handshake observed (own_handshake iter p x)") auto
  have "hs_http_port (own_handshake iter p x) = pp_http_port p" by (simp add: own_handshake_def Let_def)
  then show ?thesis
    using assms by (simp add: record_peer_def e Let_def knows_def hm.get_insert)
qed

lemma handshake_side:
  assumes "pp_listening_addr q = Some y" and "bincode_roundtrip w"
    and "serialize_handshake w (own_handshake iter p x) = Inr bs" and "length bs < 2 ^ 32"
    and "serialize_handshake w (own_handshake iter q y) = Inr ms" and "length ms + 12 \<le> room"
    and "seen_as p x observed \<notin> pp_connecting q"
  shows "\<exists>q1. perform_handshake w iter side observed (Done s) (link_of q (greeting v bs) [] room) =
             (Done (), link_of q1 [] (greeting (pp_protocol_version q) ms) (room - 12 - length ms)) \<and>
           knows q1 observed (seen_as p x observed) (pp_http_port p)"
proof -
  let ?q = "q\<lparr> pp_noise_states := hm_insert observed s (pp_noise_states q) \<rparr>"
  have d: "deserialize_handshake w bs = Inr (own_handshake iter p x)"
    using assms(2,3) by (simp add: serialize_handshake_def deserialize_handshake_def handshake_v0_parse_def
        handshake_v0_from_def bincode_roundtrip_def)
  have "own_handshake iter ?q y = own_handshake iter q y" by (simp add: own_handshake_def)
  then obtain L where b: "build_handshake_msg iter ?q = (Done (own_handshake iter q y), ?q\<lparr> pp_peer_list := L \<rparr>)"
    using build_own_handshake [of ?q y iter] assms(1) by auto
  note ex = exchange_ok [OF assms(4) d b assms(5,6), of side v "[]"]
  obtain q1 where "record_peer observed (own_handshake iter p x) (?q\<lparr> pp_peer_list := L \<rparr>) = (Done (), q1)"
    "knows q1 observed (seen_as p x observed) (pp_http_port p)"
    using record_peer_knows [of "?q\<lparr> pp_peer_list := L \<rparr>" y p x observed iter] assms(1,7) by auto
  then show ?thesis using ex by (simp add: perform_handshake_def io_bind_def io_lift_def io_node_def)
qed

section \<open>Properties\<close>


text \<open>
  The HTTP ports a node knows, from which missing files are downloaded, are at every moment those of
  listed peers, and never under the placeholder address, whatever connections come and go, however
  handshakes fail, and whatever messages arrive, as long as no connection comes from the placeholder itself.
\<close>

theorem known_ports_belong_to_peers:
  assumes "p2p_step\<^sup>*\<^sup>* (p2p_new cr pass key http nat_addr hm_empty ch res) p"
    and "(a, port) \<in> set (convert_peer_list_to_vec (pp_peer_http_port_list p))"
  shows "a \<in> pp_peer_list p \<and> sa_ip a \<noteq> default_ip"
proof -
  have "ports_inv p"
    using assms(1)
  proof (induction rule: rtranclp_induct)
    case base
    show ?case by (simp add: ports_inv_def p2p_new_def hm.get_empty)
  qed (rule ports_inv_step)
  moreover have "(a, port) \<in> set (pp_peer_http_port_list p)"
    using assms(2) by (simp add: convert_peer_list_to_vec_def)
  then have "hm_get (pp_peer_http_port_list p) a \<noteq> None"
    unfolding hm_get_None_iff by force
  ultimately show ?thesis by (auto simp: ports_inv_def)
qed


text \<open>
  When two connections belong to one advertised address, as after two nodes dialled each other at the
  same time, the end of either makes the node forget the peer and its HTTP port, although the other
  connection is still open and still bound to that address.
\<close>

theorem shared_address_forgotten:
  assumes "hm_get (pp_peer_addr_mapping p) c1 = Some a" and "hm_get (pp_peer_addr_mapping p) c2 = Some a" and "c1 \<noteq> c2"
  shows "hm_get (pp_peer_addr_mapping (on_disconnect c1 p)) c2 = Some a \<and>
         a \<notin> pp_peer_list (on_disconnect c1 p) \<and> hm_get (pp_peer_http_port_list (on_disconnect c1 p)) a = None"
  using assms by (simp add: on_disconnect_def hm.get_remove)

text \<open>
  The gauge of connected peers is raised at every handshake and never lowered: over any steps of the node it
  does not fall, and the end of a connection leaves it as it is although the peer is taken off the list.
\<close>

theorem connected_peers_never_falls:
  assumes "p2p_step\<^sup>*\<^sup>* p q" and "hm_get (pp_peer_addr_mapping q) c = Some a"
  shows "pp_connected_peers p \<le> pp_connected_peers (on_disconnect c q) \<and>
         pp_connected_peers (on_disconnect c q) = pp_connected_peers q \<and> a \<notin> pp_peer_list (on_disconnect c q)"
proof -
  have "pp_connected_peers p \<le> pp_connected_peers q"
    using assms(1) by (induction rule: rtranclp_induct) (auto dest: connected_peers_grows)
  with assms(2) show ?thesis by (simp add: on_disconnect_def)
qed

text \<open>The loop that reads a connection: each message goes through \<open>process_message\<close>.\<close>

fun process_all :: "bincode \<Rightarrow> diagnostics \<Rightarrow> socket_addr \<Rightarrow> byte list list \<Rightarrow> ('h, 't) p2p \<Rightarrow> ('h, 't) p2p" where
  "process_all w d source [] p = p"
| "process_all w d source (m # ms) p = process_all w d source ms (snd (process_message w d source m p))"

lemma propagated_is_forwarded:
  assumes "bincode_roundtrip w"
  shows "(\<forall>tx\<in>set txs. \<exists>bs. ser_message_v0 w (V0Transaction tx) = Inr bs) \<Longrightarrow> ch_open (pp_tx_sender p) \<Longrightarrow>
    length (propagate_loop w txs) = length txs \<and>
    ch_queue (pp_tx_sender (process_all w d source (propagate_loop w txs) p)) =
      ch_queue (pp_tx_sender p) @ map (\<lambda>tx. (into_received (with_state Created tx) P2P, None)) txs"
proof (induction txs arbitrary: p)
  case (Cons tx txs)
  then obtain bs where bs: "ser_message_v0 w (V0Transaction tx) = Inr bs" by auto
  then have "deserialize_msg w bs = Inr (MsgTransaction tx)"
    using assms by (simp add: deserialize_msg_def message_v0_parse_def bincode_roundtrip_def)
  then have "snd (process_message w d source bs p) =
      forward_tx (with_state Created tx) (p\<lparr> pp_incoming_messages := pp_incoming_messages p + 1 \<rparr>)"
    by (simp add: process_message_def)
  then show ?case
    using Cons bs by (simp add: forward_tx_def p2p_send_tx_def channel_send_def)
qed simp

lemma propagated_small:
  "(\<forall>tx\<in>set txs. \<forall>bs. ser_message_v0 w (V0Transaction tx) = Inr bs \<longrightarrow> length bs \<le> n) \<Longrightarrow>
   \<forall>m\<in>set (propagate_loop w txs). length m \<le> n"
  by (induction txs) (auto split: sum.splits)

text \<open>
  The way of transactions from the loop of one node to the mempool channel of its peer: serialisation,
  encryption, framing, decryption and parsing.
\<close>

lemma broadcast_received:
  assumes "framing_ok lib" and "in_sync lib c c'" and "bincode_roundtrip w" and "ch_open (pp_tx_sender p)"
    and "\<And>tx. tx \<in> set txs \<Longrightarrow> \<exists>bs. ser_message_v0 w (V0Transaction tx) = Inr bs \<and> length bs \<le> MAX_MESSAGE_LEN - 16"
  shows "\<exists>c1 stream ms c2.
    send_all (encode lib) c (propagate_loop w txs) [] = (Inr (), c1, stream) \<and>
    receive_all (decode lib) c' (length txs) stream = (map (Inr \<circ> Some) ms, c2, []) \<and>
    ch_queue (pp_tx_sender (process_all w d source ms p)) =
      ch_queue (pp_tx_sender p) @ map (\<lambda>tx. (into_received (with_state Created tx) P2P, None)) txs"
proof -
  let ?ms = "propagate_loop w txs"
  have "\<forall>m\<in>set ?ms. length m \<le> 65519"
    by (intro propagated_small ballI allI impI, drule assms(5)) (simp add: MAX_MESSAGE_LEN_def)
  from nl.send_receive [OF conjI [OF assms(1,2)] this, of "[]"]
  obtain stream c1 c2 where s: "send_all (encode lib) c ?ms [] = (Inr (), c1, [] @ stream)"
    "\<forall>rest. receive_all (decode lib) c' (length ?ms) (stream @ rest) = (map (Inr \<circ> Some) ?ms, c2, rest)"
    by blast
  have "\<forall>tx\<in>set txs. \<exists>bs. ser_message_v0 w (V0Transaction tx) = Inr bs" using assms(5) by blast
  from propagated_is_forwarded [OF assms(3) this assms(4), of d source] s(1) spec [OF s(2), of "[]"] show ?thesis
    by (intro exI [of _ c1] exI [of _ stream] exI [of _ ?ms] exI [of _ c2]) simp
qed

section \<open>Concrete nodes\<close>

definition sample_iter :: "socket_addr set \<Rightarrow> socket_addr list" where
  "sample_iter S = filter (\<lambda>a. a \<in> S)
     [SocketAddr ''0.0.0.0'' 9999, SocketAddr ''10.0.0.1'' 9999, SocketAddr ''10.0.0.2'' 9999, SocketAddr ''10.0.0.3'' 9999]"

definition sample_new :: "(unit, unit) p2p" where
  "sample_new = p2p_new sample_crates ''psk'' (PublicKey 1) (Some 80) None hm_empty \<lparr> ch_open = True, ch_queue = [] \<rparr> (4, 8, 0)"

definition sample_node :: "(unit, unit) p2p" where
  "sample_node = sample_new\<lparr> pp_listening_addr := Some (SocketAddr ''127.0.0.1'' 9999) \<rparr>"

abbreviation sample_state :: "(unit, unit) noise_state" where
  "sample_state \<equiv> PostHandshake \<lparr> ph_state = (), rx_carryover = None, rx_nonce = 0, tx_nonce = 0 \<rparr>"

lemma sample_node_handshake:
  "own_handshake sample_iter sample_node (SocketAddr ''127.0.0.1'' 9999) = sample_wire_handshake"
  by (simp add: own_handshake_def sample_node_def sample_new_def p2p_new_def sample_iter_def sample_wire_handshake_def Let_def)

lemma sample_node_sends:
  "serialize_handshake sample_bincode (own_handshake sample_iter sample_node (SocketAddr ''127.0.0.1'' 9999)) =
     Inr (wire_head 0)"
  unfolding sample_node_handshake
  by (simp add: serialize_handshake_def handshake_v0_from_def sample_bincode_def)

lemma sample_node_simps [simp]:
  "pp_listening_addr sample_node = Some (SocketAddr ''127.0.0.1'' 9999)" "pp_connecting sample_node = {}"
  "pp_http_port sample_node = Some 80" "ch_open (pp_tx_sender sample_node)" "pp_protocol_version sample_node = 1"
  "seen_as sample_node (SocketAddr ''127.0.0.1'' 9999) observed = SocketAddr (sa_ip observed) 9999"
  by (simp_all add: sample_node_def sample_new_def p2p_new_def seen_as_def)


text \<open>A node that has answered one handshake.\<close>

theorem known_ports_belong_to_peers_witness:
  "\<exists>p. p2p_step\<^sup>*\<^sup>* sample_new p \<and>
     (SocketAddr ''10.0.0.1'' 9999, Some 80) \<in> set (convert_peer_list_to_vec (pp_peer_http_port_list p)) \<and>
     SocketAddr ''10.0.0.1'' 9999 \<in> pp_peer_list p \<and> sa_ip (SocketAddr ''10.0.0.1'' 9999) \<noteq> default_ip"
proof -
  let ?l = "link_of sample_node (greeting 1 (wire_head 0)) [] 100" and ?a = "SocketAddr ''10.0.0.1'' 9999"
  obtain q where q: "perform_handshake sample_bincode sample_iter Responder (SocketAddr ''10.0.0.1'' 5000)
      (Done sample_state) ?l = (Done (), link_of q [] (greeting 1 (wire_head 0)) (100 - 12 - length (wire_head 0)))"
    "knows q (SocketAddr ''10.0.0.1'' 5000) ?a (Some 80)"
    using handshake_side [where observed = "SocketAddr ''10.0.0.1'' 5000" and room = 100 and v = 1 and
        side = Responder and s = sample_state,
        OF sample_node_simps(1) sample_bincode_roundtrip sample_node_sends _ sample_node_sends]
    by (auto simp: wire_head_def)
  have "p2p_step sample_new sample_node" unfolding sample_node_def by (rule p2p_step.listen)
  moreover have "p2p_step sample_node q" using p2p_step.connection [OF _ q(1)] by simp
  ultimately have r: "p2p_step\<^sup>*\<^sup>* sample_new q" by auto
  have m: "(?a, Some 80) \<in> set (convert_peer_list_to_vec (pp_peer_http_port_list q))"
    using q(2) by (auto simp: knows_def convert_peer_list_to_vec_def dest: hm_get_Some_in)
  show ?thesis
    using r m known_ports_belong_to_peers [OF r [unfolded sample_new_def] m] by blast
qed

text \<open>Three addresses; every peer names all of them, and the third cannot be reached.\<close>

definition sample_dial :: "(unit, unit, socket_addr set) dial" where
  "sample_dial a s =
     (case s of (p, w) \<Rightarrow>
        if a \<in> w then (Inl ''already connected'', p, w)
        else if a = SocketAddr ''10.0.0.3'' 9999 then (Inl ''connection refused'', p, w)
        else (Inr (), p\<lparr> pp_connecting := set (tl (sample_iter UNIV)) - pp_peer_list p - {a} \<rparr>, insert a w))"


text \<open>Both nodes dialled each other; the connection from port 5000 ends.\<close>

theorem shared_address_forgotten_witness:
  "let p = sample_node\<lparr> pp_peer_addr_mapping :=
             [(SocketAddr ''10.0.0.1'' 5000, SocketAddr ''10.0.0.1'' 9999),
              (SocketAddr ''10.0.0.1'' 9999, SocketAddr ''10.0.0.1'' 9999)],
           pp_peer_list := {SocketAddr ''10.0.0.1'' 9999},
           pp_peer_http_port_list := [(SocketAddr ''10.0.0.1'' 9999, Some 80)] \<rparr>;
         q = on_disconnect (SocketAddr ''10.0.0.1'' 5000) p
     in hm_get (pp_peer_addr_mapping q) (SocketAddr ''10.0.0.1'' 9999) = Some (SocketAddr ''10.0.0.1'' 9999) \<and>
        SocketAddr ''10.0.0.1'' 9999 \<notin> pp_peer_list q \<and>
        hm_get (pp_peer_http_port_list q) (SocketAddr ''10.0.0.1'' 9999) = None"
  unfolding Let_def by (rule shared_address_forgotten) (simp_all add: hmap_simps)

end
