(* ===== verification/Node.thy ===== *)
theory Node
  imports Startup
begin

text \<open>
  The running node: the validation loop, the scheduler, the machines' service, the peer-to-peer node, the RPC
  server and the synchronisation of the access list, interleaved in any order over what they share, which is
  the mempool with the database, the disk and the channel of received transactions. A step of a part is a step of the
  part's own theory; what it changes of the shared state the others see at once.
\<close>

section \<open>What the scheduler does to the shared state\<close>

text \<open>\<open>R\<close> relates the storage before and after; only marking transactions as executed changes it.\<close>

definition sched_uses :: "('s \<Rightarrow> 's \<Rightarrow> bool) \<Rightarrow> 's scheduler \<Rightarrow> 's scheduler \<Rightarrow> bool" where
  "sched_uses R s s' \<longleftrightarrow>
     set (mp_deque (ss_mempool s')) \<subseteq> set (mp_deque (ss_mempool s)) \<and> R (storage_of s) (storage_of s') \<and>
     (\<exists>ms. ch_queue (ss_channel s') = ch_queue (ss_channel s) @ ms)"

definition sched_same :: "'s scheduler \<Rightarrow> 's scheduler \<Rightarrow> bool" where
  "sched_same s s' \<longleftrightarrow> ss_mempool s' = ss_mempool s \<and> ss_channel s' = ss_channel s"

definition marks :: "('s \<Rightarrow> 's \<Rightarrow> bool) \<Rightarrow> 's sched_env \<Rightarrow> bool" where
  "marks R E \<longleftrightarrow> reflp R \<and> transp R \<and> (\<forall>h st. R st (snd (ts_mark (se_store E) h st)))"

lemma sched_same_refl [simp]: "sched_same s s"
  by (simp add: sched_same_def)

lemma sched_same_trans: "sched_same s s1 \<Longrightarrow> sched_same s1 s2 \<Longrightarrow> sched_same s s2"
  by (simp add: sched_same_def)

lemma sched_same_uses: "marks R E \<Longrightarrow> sched_same s s' \<Longrightarrow> sched_uses R s s'"
  by (auto simp: sched_uses_def sched_same_def marks_def storage_of_def reflp_def)

lemma sched_uses_trans:
  "marks R E \<Longrightarrow> sched_uses R s s1 \<Longrightarrow> sched_uses R s1 s2 \<Longrightarrow> sched_uses R s s2"
  by (fastforce simp: sched_uses_def marks_def dest: transpD)

lemma sched_same_simps [simp]:
  "sched_same s (health_send E m s')  = sched_same s s'" "sched_same s (enqueue_task now t s') = sched_same s s'"
  "sched_same s (requeue h p s') = sched_same s s'" "sched_same s (insert_vm h ph s') = sched_same s s'"
  "sched_same s (s'\<lparr> ss_running_tasks := a \<rparr>) = sched_same s s'" "sched_same s (s'\<lparr> ss_task_queue := q \<rparr>) = sched_same s s'"
  "sched_same s (s'\<lparr> ss_pending_programs := b \<rparr>) = sched_same s s'" "sched_same s (s'\<lparr> ss_program_manager := m2 \<rparr>) = sched_same s s'"
  by (simp_all add: sched_same_def health_send_def enqueue_task_def requeue_def insert_vm_def Let_def)

lemma remove_and_stop_same [simp]: "sched_same s (snd (remove_and_stop E h s))"
  by (simp add: sched_same_def remove_and_stop_frame)

lemma reap_tasks_same: "sched_same s (snd (reap_tasks E hs s))"
proof (induction hs arbitrary: s)
  case (Cons h hs)
  obtain r s1 where r: "remove_and_stop E h s = (r, s1)" by (rule prod.exhaust)
  then have "sched_same s s1" using remove_and_stop_same [of s E h] by simp
  then show ?case
    using sched_same_trans [OF _ Cons.IH, of s "s1\<lparr> ss_running_tasks := hm_remove h (ss_running_tasks s1) \<rparr>"]
    by (cases r) (simp_all add: r)
qed simp

lemma reap_idle_same: "sched_same s (snd (reap_idle E hs s))"
proof (induction hs arbitrary: s)
  case (Cons h hs)
  obtain r s1 where r: "remove_and_stop E h s = (r, s1)" by (rule prod.exhaust)
  then have "sched_same s s1" using remove_and_stop_same [of s E h] by simp
  then show ?case using sched_same_trans [OF _ Cons.IH, of s s1] by (cases r) (simp_all add: r)
qed simp

lemma reap_zombies_same: "sched_same s (snd (reap_zombies E s))"
proof -
  let ?zs = "rev (map (\<lambda>t. task_tx (rt_task t)) (filter (is_zombie E s) (map snd (ss_running_tasks s))))"
  obtain r s1 where r: "reap_tasks E ?zs s = (r, s1)" by (rule prod.exhaust)
  then have "sched_same s s1" using reap_tasks_same [of s E ?zs] by simp
  then show ?thesis
    using sched_same_trans [OF _ reap_idle_same, of s s1] by (cases r) (simp_all add: reap_zombies_def r)
qed

lemma sched_start_same: "sched_start E h p s = Some (r, s') \<Longrightarrow> sched_same s s'"
  using sched_start_fields by (fastforce simp: sched_same_def)

lemma start_pending_same: "start_pending E ps s = Some (r, s') \<Longrightarrow> sched_same s s'"
proof (induction ps arbitrary: s)
  case (Cons hp ps)
  obtain h p where hp: "hp = (h, p)" by (cases hp)
  let ?s = "s\<lparr> ss_pending_programs := tl (ss_pending_programs s) \<rparr>"
  obtain x s1 where x: "sched_start E h p ?s = Some (x, s1)"
    using Cons.prems by (cases "sched_start E h p ?s") (auto simp: hp)
  have s1: "sched_same s s1" using sched_start_same [OF x] by (simp add: sched_same_def)
  show ?case
  proof (cases x)
    case (Done ph)
    then have "sched_same (insert_vm h ph s1) s'" using Cons x by (simp add: hp)
    with s1 show ?thesis by (simp add: sched_same_def insert_vm_def Let_def)
  qed (use Cons.prems x s1 in \<open>auto simp: hp\<close>)
qed simp

lemma start_task_same: "start_task E t s = Some (r, s') \<Longrightarrow> sched_same s s'"
  by (auto simp: start_task_def Let_def split: option.splits outcome.splits start_error.splits dest!: sched_start_same)

lemma next_task_marks: "next_task c S uid cur st = Some (r, st') \<Longrightarrow> st' = st \<or> st' = snd (ts_mark S (tx_hash cur) st)"
  by (auto simp: next_task_def Let_def split: option.splits sum.splits payload.splits list.splits prod.splits)

lemma pick_task_uses:
  assumes "marks R E" and "pick_task E s = Some (r, s')"
  shows "sched_uses R s s'"
proof -
  obtain tx mp where nx: "mempool_next (ss_mempool s) = (tx, mp)" by (rule prod.exhaust)
  then have mp: "set (mp_deque mp) \<subseteq> set (mp_deque (ss_mempool s))" "mp_storage mp = mp_storage (ss_mempool s)"
    by (auto simp: mempool_next_def split: list.splits)
  show ?thesis
  proof (cases tx)
    case None
    with assms nx mp show ?thesis
      by (auto simp: pick_task_def sched_uses_def storage_of_def marks_def reflp_def)
  next
    case (Some t)
    let ?s = "s\<lparr> ss_mempool := mp \<rparr>"
    obtain x st where x: "next_task (se_crates E) (se_store E) (se_uid E) t (storage_of ?s) = Some (x, st)"
      and s': "s' = set_storage st ?s"
      using assms(2) Some nx by (auto simp: pick_task_def Let_def split: option.splits)
    have "R (mp_storage mp) st"
      using next_task_marks [OF x] assms(1) by (auto simp: storage_of_def marks_def reflp_def)
    with mp s' show ?thesis by (simp add: sched_uses_def set_storage_def storage_of_def)
  qed
qed

lemma copy_task_files_uses:
  assumes "marks R E"
  shows "sched_uses R s (copy_task_files E t s)"
proof -
  have one: "sched_uses R s (copy_task_file E h f s)" for h f s
    using assms by (auto simp: copy_task_file_def sched_uses_def set_storage_def storage_of_def marks_def reflp_def split: sum.split)
  have "sched_uses R s (fold (copy_task_file E h) fs s)" for h fs
  proof (induction fs arbitrary: s)
    case Nil
    then show ?case using sched_same_uses [OF assms] by simp
  next
    case (Cons f fs)
    then show ?case using sched_uses_trans [OF assms one Cons.IH] by simp
  qed
  then show ?thesis by (simp add: copy_task_files_def)
qed

lemma schedule_task_uses:
  assumes "marks R E" and "schedule_task E s = Some (r, s')"
  shows "sched_uses R s s'"
proof -
  obtain x s1 where x: "pick_task E (health_send E SchedulerLoopOk s) = Some (x, s1)"
    using assms(2) by (auto simp: schedule_task_def split: option.splits)
  have "sched_uses R s (health_send E SchedulerLoopOk s)" by (rule sched_same_uses [OF assms(1)]) simp
  then have s1: "sched_uses R s s1" using sched_uses_trans [OF assms(1) _ pick_task_uses [OF assms(1) x]] by blast
  have same: "sched_same s2 s' \<Longrightarrow> sched_uses R s s2 \<Longrightarrow> sched_uses R s s'" for s2
    using sched_uses_trans [OF assms(1) _ sched_same_uses [OF assms(1)]] by blast
  show ?thesis
  proof (cases "\<exists>t n. x = Done (Some t, n)")
    case True
    then obtain t n where t: "x = Done (Some t, n)" by blast
    then have "sched_same (copy_task_files E t s1) s'"
      using start_task_same [of E t "enqueue_task (se_now E) t (health_send E (SchedulerMempoolLen n) (copy_task_files E t s1))" r s']
        assms(2) x by (simp add: schedule_task_def sched_same_def enqueue_task_def health_send_def)
    then show ?thesis using same sched_uses_trans [OF assms(1) s1 copy_task_files_uses [OF assms(1)]] by blast
  next
    case False
    then have "sched_same s1 s'"
      using assms(2) x by (auto simp: schedule_task_def split: outcome.splits option.splits)
    then show ?thesis using same s1 by blast
  qed
qed

lemma run_iteration_uses:
  assumes "marks R E" and "run_iteration E s = Some (r, s')"
  shows "sched_uses R s s'"
proof -
  obtain x s1 where x: "reap_zombies E s = (x, s1)" by (rule prod.exhaust)
  then have s1: "sched_same s s1" using reap_zombies_same [of s E] by simp
  show ?thesis
  proof (cases "\<exists>m. x = Panicked m")
    case True
    then show ?thesis using assms x s1 by (auto simp: run_iteration_def intro: sched_same_uses)
  next
    case False
    then obtain y s2 where y: "start_pending E (ss_pending_programs s1) s1 = Some (y, s2)"
      using assms(2) x by (cases x) (auto simp: run_iteration_def split: option.splits)
    have s2: "sched_same s s2" using sched_same_trans [OF s1 start_pending_same [OF y]] .
    have "s' = s2 \<or> schedule_task E s2 = Some (r, s')"
      using assms(2) x False y by (cases x; cases y) (auto simp: run_iteration_def split: bool.splits)
    then show ?thesis
      using sched_same_uses [OF assms(1) s2] sched_uses_trans [OF assms(1) _ schedule_task_uses [OF assms(1)]] by blast
  qed
qed

lemma get_pending_task_same: "sched_same s (snd (get_pending_task E h s))"
  using remove_and_stop_same [of s E h]
  by (auto simp: get_pending_task_def sched_same_def split: option.split list.split prod.split outcome.split)

lemma submit_task_result_uses:
  assumes "marks R E"
  shows "sched_uses R s (snd (submit_task_result E h p rt res s))"
proof -
  have "sched_uses R s (snd (send_result E tx (s\<lparr> ss_disk := d \<rparr>)))" for tx d
    using assms by (auto simp: send_result_def sched_uses_def storage_of_def result_send_tx_def channel_send_def marks_def
        reflp_def split: prod.split sum.split)
  moreover have "sched_uses R s (s\<lparr> ss_disk := d \<rparr>)" "sched_uses R s s" for d
    by (rule sched_same_uses [OF assms], simp add: sched_same_def)+
  ultimately show ?thesis by (auto simp: submit_task_result_def split: prod.split outcome.split)
qed

lemma submit_result_uses:
  assumes "marks R E"
  shows "sched_uses R s (snd (submit_result E h p result s))"
proof (cases "hm_get (ss_running_tasks s) h")
  case None
  then show ?thesis using sched_same_uses [OF assms] by (simp add: submit_result_def)
next
  case (Some rt)
  let ?s1 = "s\<lparr> ss_running_tasks := hm_remove h (ss_running_tasks s) \<rparr>"
  let ?s2 = "set_storage (snd (ts_mark (se_store E) (task_tx (rt_task rt)) (storage_of ?s1))) ?s1"
  have s2: "sched_uses R s ?s2" using assms by (simp add: sched_uses_def set_storage_def storage_of_def marks_def)
  obtain r s3 where step: "(case result of ResultTask res \<Rightarrow> submit_task_result E h p rt res ?s2
      | ResultError e \<Rightarrow> (Done (), ?s2)) = (r, s3)" by (rule prod.exhaust)
  have s3: "sched_uses R s s3"
  proof (cases result)
    case (ResultTask res)
    then show ?thesis using sched_uses_trans [OF assms s2 submit_task_result_uses [OF assms, of ?s2 h p rt res]] step by simp
  qed (use step s2 in simp)
  have "snd (submit_result E h p result s) = s3 \<or> snd (submit_result E h p result s) = snd (remove_and_stop E h s3)"
    using step by (cases r) (auto simp: submit_result_def Some Let_def split: prod.split)
  then show ?thesis
    using s3 sched_uses_trans [OF assms s3 sched_same_uses [OF assms remove_and_stop_same]] by metis
qed

lemma machine_requests_use:
  assumes "marks R E"
  shows "sched_uses R s (snd (vm_get_task E conn remote q s))"
    and "sched_uses R s (snd (vm_submit_result E kept conn remote req q s))"
proof -
  have refl: "sched_uses R s s" for s by (rule sched_same_uses [OF assms]) simp
  show "sched_uses R s (snd (vm_get_task E conn remote q s))"
    using refl sched_same_uses [OF assms get_pending_task_same, of s E]
    by (auto simp: vm_get_task_def split: outcome.split option.split prod.split) (metis snd_conv)+
  have fwd: "sched_uses R s (snd (forward_result E h p k r s))" for h p k r
    using refl submit_result_uses [OF assms] by (simp add: forward_result_def split: option.split)
  have clean: "sched_uses R s' (snd (clean_workspace E kept k s'))" for s' k
    by (rule sched_same_uses [OF assms]) (auto simp: clean_workspace_def sched_same_def split: option.split)
  show "sched_uses R s (snd (vm_submit_result E kept conn remote req q s))"
    using vm_submit_result_cases [of E kept conn remote req q s] refl fwd sched_uses_trans [OF assms fwd clean] by fastforce
qed

section \<open>The node as a whole\<close>

abbreviation node_db :: "('c, 'h, 't) node \<Rightarrow> database" where
  "node_db n \<equiv> loop_db (nd_loop n)"

text \<open>What \<open>run\<close> gives to the scheduler; the rest of its environment is the world during one operation.\<close>

definition node_sched_env :: "config \<Rightarrow> key_lib \<Rightarrow> secret_key \<Rightarrow> pg \<Rightarrow> database sched_env \<Rightarrow> database sched_env" where
  "node_sched_env c K key P E =
     E\<lparr> se_crates := kl_crates K, se_store := database_tx_store P, se_find_program := (\<lambda>db h. find_program P h db),
        se_node_key := key, se_data_directory := conf_data_directory c, se_http_download_host := download_url_prefix c \<rparr>"

text \<open>A part has made its step; the others see its view of what is shared.\<close>

definition from_loop :: "('c, database) loop_state \<Rightarrow> ('c, 'h, 't) node \<Rightarrow> ('c, 'h, 't) node" where
  "from_loop l n =
     set_queue (ls_inbox l)
       (n\<lparr> nd_loop := l,
          nd_sched := map_option (\<lambda>s. s\<lparr> ss_mempool := ls_mempool l, ss_disk := ls_disk l \<rparr>) (nd_sched n) \<rparr>)"

definition from_sched :: "database scheduler \<Rightarrow> ('c, 'h, 't) node \<Rightarrow> ('c, 'h, 't) node" where
  "from_sched s n =
     set_queue (ch_queue (ss_channel s))
       (n\<lparr> nd_sched := Some s, nd_loop := (nd_loop n)\<lparr> ls_mempool := ss_mempool s, ls_disk := ss_disk s \<rparr> \<rparr>)"

definition from_p2p :: "('h, 't) p2p \<Rightarrow> ('c, 'h, 't) node \<Rightarrow> ('c, 'h, 't) node" where
  "from_p2p p n = set_queue (ch_queue (pp_tx_sender p)) (n\<lparr> nd_p2p := p \<rparr>)"

definition set_db :: "database \<Rightarrow> ('c, 'h, 't) node \<Rightarrow> ('c, 'h, 't) node" where
  "set_db db n = from_loop ((nd_loop n)\<lparr> ls_mempool := (ls_mempool (nd_loop n))\<lparr> mp_storage := db \<rparr> \<rparr>) n"

inductive node_step ::
  "config \<Rightarrow> key_lib \<Rightarrow> secret_key \<Rightarrow> ('c, database) loop_env \<Rightarrow> ('c, 'h, 't) node \<Rightarrow> ('c, 'h, 't) node \<Rightarrow> bool"
  for c K key B where
  receive: "ls_inbox (nd_loop n) = m # q \<Longrightarrow>
    node_step c K key B n
      (from_loop (receive_event (pp_peer_http_port_list (nd_p2p n)) m ((nd_loop n)\<lparr> ls_inbox := q \<rparr>)) n)"
| finish: "ls_tasks (nd_loop n) = xs @ t # ys \<Longrightarrow>
    node_step c K key B n
      (from_loop (finish_task (database_env B P (node_db n)) t ((nd_loop n)\<lparr> ls_tasks := xs @ ys \<rparr>)) n)"
| handle: "ls_done (nd_loop n) = xs @ m # ys \<Longrightarrow>
    node_step c K key B n
      (from_loop (deliver (database_env B P (node_db n)) now m ((nd_loop n)\<lparr> ls_done := xs @ ys \<rparr>)) n)"
| iteration: "nd_sched n = Some s \<Longrightarrow> run_iteration (node_sched_env c K key P E) s = Some (r, s') \<Longrightarrow>
    node_step c K key B n (from_sched s' n)"
| get_task: "nd_sched n = Some s \<Longrightarrow> vm_get_task (node_sched_env c K key P E) conn remote q s = (r1, s') \<Longrightarrow>
    node_step c K key B n (from_sched s' n)"
| submit: "nd_sched n = Some s \<Longrightarrow> vm_submit_result (node_sched_env c K key P E) kept conn remote req q s = (r2, s') \<Longrightarrow>
    node_step c K key B n (from_sched s' n)"
| network: "p2p_step (nd_p2p n) p \<Longrightarrow> node_step c K key B n (from_p2p p n)"
| rpc: "send_transaction_logic params cb answer \<lparr> ch_open = True, ch_queue = ls_inbox (nd_loop n) \<rparr> = (resp, ch) \<Longrightarrow>
    node_step c K key B n (set_queue (ch_queue ch) n)"
| sync: "conf_acl_whitelist_url c = Some url \<Longrightarrow>
    whitelist_sync P iter parse parse_url fetch url (node_db n) = (res, db) \<Longrightarrow> node_step c K key B n (set_db db n)"
| peer: "peer_op P connect parse who op (node_db n) = (res1, db) \<Longrightarrow> node_step c K key B n (set_db db n)"

section \<open>Its invariant\<close>

definition shared :: "('c, 'h, 't) node \<Rightarrow> bool" where
  "shared n \<longleftrightarrow>
     ch_queue (pp_tx_sender (nd_p2p n)) = ls_inbox (nd_loop n) \<and>
     (\<forall>s. nd_sched n = Some s \<longrightarrow>
        ss_mempool s = ls_mempool (nd_loop n) \<and> ss_disk s = ls_disk (nd_loop n) \<and> ch_queue (ss_channel s) = ls_inbox (nd_loop n))"

abbreviation backed :: "database mempool \<Rightarrow> bool" where
  "backed \<equiv> tx_storage.mempool_ok has_tx"

definition node_inv :: "(received transaction \<Rightarrow> bool) \<Rightarrow> u64 \<times> u64 \<times> u64 \<Rightarrow> ('c, 'h, 't) node \<Rightarrow> bool" where
  "node_inv V t n \<longleftrightarrow>
     shared n \<and> loop_inv V (nd_loop n) \<and> backed (ls_mempool (nd_loop n)) \<and> ports_inv (nd_p2p n) \<and>
     (\<forall>s. nd_sched n = Some s \<longrightarrow> scheduler_ok t s)"

lemma loop_inv_inbox [simp]: "loop_inv V (l\<lparr> ls_inbox := q \<rparr>) = loop_inv V l"
  "loop_inv V (l\<lparr> ls_disk := d \<rparr>) = loop_inv V l"
  by (simp_all add: loop_inv_def)

lemma ports_inv_queue [simp]: "ports_inv (p\<lparr> pp_tx_sender := ch \<rparr>) = ports_inv p"
  by (simp add: ports_inv_def)

text \<open>What the views of each part have to keep for the whole to keep its invariant.\<close>

lemma node_inv_from_loop:
  "node_inv V t n \<Longrightarrow> loop_inv V l \<Longrightarrow> backed (ls_mempool l) \<Longrightarrow> node_inv V t (from_loop l n)"
  by (auto simp: node_inv_def shared_def from_loop_def set_queue_def)

lemma node_inv_set_queue: "node_inv V t n \<Longrightarrow> node_inv V t (set_queue q n)"
  by (auto simp: node_inv_def shared_def set_queue_def)

lemma node_inv_from_p2p: "node_inv V t n \<Longrightarrow> ports_inv p \<Longrightarrow> node_inv V t (from_p2p p n)"
  by (auto simp: node_inv_def shared_def from_p2p_def set_queue_def)

definition db_keeps :: "database \<Rightarrow> database \<Rightarrow> bool" where
  "db_keeps db db' \<longleftrightarrow> (\<forall>h. has_tx db h \<longrightarrow> has_tx db' h)"

lemma mark_keeps_hashes:
  "map tr_hash (db_transaction (snd (mark_tx_executed P h db))) = map tr_hash (db_transaction db)"
  by (auto simp: mark_tx_executed_def split: option.split)

lemma has_tx_hashes: "map tr_hash (db_transaction db') = map tr_hash (db_transaction db) \<Longrightarrow> has_tx db' h = has_tx db h"
  unfolding has_tx_def by (metis list.set_map)

lemma marks_db_keeps: "marks db_keeps (node_sched_env c K key P E)"
  using has_tx_hashes [OF mark_keeps_hashes]
  by (auto simp: marks_def db_keeps_def reflp_def transp_def node_sched_env_def database_tx_store_def)

lemma backed_storage: "backed m \<Longrightarrow> db_keeps (mp_storage m) db \<Longrightarrow> backed (m\<lparr> mp_storage := db \<rparr>)"
  by (simp add: pgdb.mempool_ok_def db_keeps_def)

lemma backed_uses:
  "backed (ss_mempool s) \<Longrightarrow> sched_uses db_keeps s s' \<Longrightarrow> backed (ss_mempool s')"
  by (auto simp: pgdb.mempool_ok_def sched_uses_def storage_of_def db_keeps_def)

lemma node_inv_from_sched:
  assumes "node_inv V t n" and "nd_sched n = Some s" and "sched_step\<^sup>*\<^sup>* s s'" and "sched_uses db_keeps s s'"
  shows "node_inv V t (from_sched s' n)"
proof -
  let ?l = "nd_loop n"
  have s: "ss_mempool s = ls_mempool ?l" "scheduler_ok t s" "loop_inv V ?l" "backed (ss_mempool s)" "ports_inv (nd_p2p n)"
    using assms(1,2) by (auto simp: node_inv_def shared_def)
  have "loop_inv V (?l\<lparr> ls_mempool := ss_mempool s' \<rparr>)"
    using s(1,3) assms(4) by (auto simp: loop_inv_def sched_uses_def)
  moreover have "backed (ss_mempool s')" by (rule backed_uses [OF s(4) assms(4)])
  moreover have "scheduler_ok t s'" by (rule sched_steps_ok [OF assms(3) s(2)])
  ultimately show ?thesis
    using s(5) by (auto simp: node_inv_def shared_def from_sched_def set_queue_def loop_inv_def)
qed

section \<open>Every step keeps it\<close>

lemma save_all_backed:
  "backed m \<Longrightarrow> save_all (mempool_send_new_tx (add_transaction P)) txs res m = (r, m') \<Longrightarrow> backed m'"
proof (induction txs arbitrary: res m)
  case (Cons t ts)
  obtain r1 m1 where s: "save_tx (mempool_send_new_tx (add_transaction P)) t m = (r1, m1)" by (rule prod.exhaust)
  obtain x m2 where a: "mempool_add (add_transaction P) (validated_tx (ev_tx t)) m = (x, m2)" by (rule prod.exhaust)
  have "m1 = m2" using s a by (auto simp: save_tx_def mempool_send_new_tx_def Let_def split: sum.splits)
  then have "backed m1" using pgdb.mempool_ok_add [OF Cons.prems(1) a] by simp
  with Cons s show ?case by auto
qed simp

lemma deliver_backed:
  assumes "backed (ls_mempool l)"
  shows "backed (ls_mempool (deliver (database_env B P db) now m l))"
  using assms
  by (auto simp: deliver_def split: prod.split sum.split intro: save_all_backed)

lemma finish_task_mempool [simp]: "ls_mempool (finish_task E t l) = ls_mempool l"
  by (auto simp: finish_task_def Let_def split: prod.split outcome.split)

lemma grant_all_transactions: "grant_all P i ks db = (r, db') \<Longrightarrow> db_transaction db' = db_transaction db"
  by (induction ks arbitrary: i db) (auto simp: acl_grant_def split: option.splits if_splits)

lemma deny_all_transactions: "deny_all P i ks db = (r, db') \<Longrightarrow> db_transaction db' = db_transaction db"
  by (induction ks arbitrary: i db) (auto simp: acl_deny_def split: option.splits)

lemma sync_transactions: "whitelist_sync P iter parse parse_url fetch url db = (r, db') \<Longrightarrow> db_transaction db' = db_transaction db"
  by (auto simp: whitelist_sync_def merge_acl_white_list_def split: sum.splits if_splits prod.splits
      dest!: grant_all_transactions deny_all_transactions)

lemma peer_transactions: "peer_op P connect parse who op db = (r, db') \<Longrightarrow> db_transaction db' = db_transaction db"
  by (auto simp: peer_op_def Let_def acl_grant_def acl_deny_def split: peer_command.splits option.splits sum.splits if_splits)

lemma node_inv_set_db:
  assumes "node_inv V t n" and "db_transaction db = db_transaction (node_db n)"
  shows "node_inv V t (set_db db n)"
proof -
  have "backed (ls_mempool (nd_loop n))" "loop_inv V (nd_loop n)" using assms(1) by (auto simp: node_inv_def)
  moreover have "db_keeps (node_db n) db" using assms(2) by (simp add: db_keeps_def has_tx_def)
  ultimately show ?thesis
    unfolding set_db_def by (intro node_inv_from_loop [OF assms(1)]) (auto simp: loop_inv_def intro: backed_storage)
qed

lemma acl_contains_listed: "acl_contains P db k = Inr True \<Longrightarrow> k \<in> set (db_acl_whitelist db)"
  by (auto simp: acl_contains_def acl_whitelist_has_def exec_def split: sum.splits option.splits)

lemma verified_listed:
  "verified (database_env B P db) rx \<Longrightarrow>
   transaction_validate (le_crates B) rx = Done () \<and> tx_author rx \<in> set (db_acl_whitelist db)"
  by (auto simp: verified_def dest: acl_contains_listed)

lemma node_inv_step:
  assumes "node_step c K key B n n'" and "node_inv V t n"
    and V: "\<And>rx. transaction_validate (le_crates B) rx = Done () \<Longrightarrow> tx_author rx \<in> set (db_acl_whitelist (node_db n)) \<Longrightarrow> V rx"
  shows "node_inv V t n'"
proof -
  note inv = assms(2)
  have l: "loop_inv V (nd_loop n)" "backed (ls_mempool (nd_loop n))" using inv by (auto simp: node_inv_def)
  show ?thesis
    using assms(1)
  proof cases
    case (receive m q)
    then show ?thesis using l inv by (auto simp: receive_event_def loop_inv_def intro!: node_inv_from_loop)
  next
    case (finish xs tk ys P)
    have "loop_inv V (finish_task (database_env B P (node_db n)) tk ((nd_loop n)\<lparr> ls_tasks := xs @ ys \<rparr>))"
    proof (rule loop_inv_finish)
      show "V rx" if "verified (database_env B P (node_db n)) rx" for rx using V verified_listed [OF that] by blast
    qed (use l(1) in \<open>simp add: loop_inv_def\<close>)
    then show ?thesis using l inv finish by (auto intro!: node_inv_from_loop)
  next
    case (handle xs m ys P now)
    have "loop_inv V (deliver (database_env B P (node_db n)) now m ((nd_loop n)\<lparr> ls_done := xs @ ys \<rparr>))"
      using l(1) handle(2) by (intro loop_inv_deliver; cases m) (auto simp: loop_inv_def)
    then show ?thesis using l inv handle by (auto intro!: node_inv_from_loop deliver_backed)
  next
    case (iteration s P E r s')
    then show ?thesis
      using node_inv_from_sched [OF inv iteration(2) _ run_iteration_uses [OF marks_db_keeps iteration(3)]]
        sched_step.iteration [OF iteration(3)] by blast
  next
    case (get_task s P E conn remote q r1 s')
    then show ?thesis
      using node_inv_from_sched [OF inv get_task(2), of s'] vm_get_task_steps [of s "node_sched_env c K key P E" conn remote q]
        machine_requests_use(1) [OF marks_db_keeps, of s c K key P E conn remote q] by simp
  next
    case (submit s P E kept conn remote req q r2 s')
    then show ?thesis
      using node_inv_from_sched [OF inv submit(2), of s'] vm_submit_result_steps [of s "node_sched_env c K key P E" kept conn remote req q]
        machine_requests_use(2) [OF marks_db_keeps, of s c K key P E kept conn remote req q] by simp
  next
    case (network p)
    then show ?thesis
      using node_inv_from_p2p [OF inv] ports_inv_step inv by (auto simp: node_inv_def)
  next
    case (rpc params cb answer resp ch)
    then show ?thesis using node_inv_set_queue [OF inv] by simp
  next
    case (sync url P iter parse parse_url fetch res db)
    then show ?thesis using node_inv_set_db [OF inv] sync_transactions by blast
  next
    case (peer P connect parse who op res1 db)
    then show ?thesis using node_inv_set_db [OF inv] peer_transactions by blast
  qed
qed

section \<open>The start establishes it\<close>

text \<open>What \<open>Node::connect\<close> does to this node it does through the steps of the node's own protocol.\<close>

definition dial_steps :: "('h, 't, 'w) dial \<Rightarrow> bool" where
  "dial_steps dial \<longleftrightarrow> (\<forall>a p w r p1 w1. dial a (p, w) = (r, p1, w1) \<longrightarrow> p2p_step\<^sup>*\<^sup>* p p1)"

lemma do_connect_loop_steps:
  assumes "dial_steps dial" and "do_connect_loop iter dial todo C F s = Some res"
  shows "p2p_step\<^sup>*\<^sup>* (fst s) (fst (snd (snd res)))"
proof -
  have "dial_steps dial \<longrightarrow> p2p_step\<^sup>*\<^sup>* (fst s) (fst (snd (snd res)))"
  proof (rule do_connect_loop.raw_induct [OF _ assms(2), where P =
        "\<lambda>iter dial todo C F s res. dial_steps dial \<longrightarrow> p2p_step\<^sup>*\<^sup>* (fst s) (fst (snd (snd res)))"], intro impI, goal_cases)
    case (1 loop iter dial todo C F s res)
    note IH = 1(1) and res = 1(2) and dial = 1(3)
    show ?case
    proof (cases "todo = []")
      case False
      let ?s0 = "((fst s)\<lparr> pp_connecting := {} \<rparr>, snd s)"
      obtain r p1 w1 where d: "dial (last todo) ?s0 = (r, p1, w1)" by (cases "dial (last todo) ?s0")
      have "p2p_step (fst s) (fst ?s0)" by (simp add: p2p_step.dialling)
      moreover have "p2p_step\<^sup>*\<^sup>* (fst ?s0) p1" using dial [unfolded dial_steps_def, rule_format, OF d] by simp
      ultimately have p1: "p2p_step\<^sup>*\<^sup>* (fst s) p1" by (rule converse_rtranclp_into_rtranclp)
      show ?thesis
      proof (cases r)
        case (Inl e)
        then have "loop iter dial (butlast todo) C (insert (last todo) F) (p1, w1) = Some res"
          using res False d by (simp add: Let_def)
        from IH [OF this] dial have "p2p_step\<^sup>*\<^sup>* p1 (fst (snd (snd res)))" by simp
        with p1 show ?thesis by (rule rtranclp_trans)
      next
        case (Inr u)
        let ?p2 = "p1\<lparr> pp_peer_list := insert (last todo) (pp_peer_list p1) \<rparr>"
        have "loop iter dial (butlast todo @ iter (pp_connecting p1)) (insert (last todo) C) F (?p2, w1) = Some res"
          using res False d Inr by (simp add: Let_def)
        from IH [OF this] dial have "p2p_step\<^sup>*\<^sup>* ?p2 (fst (snd (snd res)))" by simp
        moreover have "p2p_step p1 ?p2" by (rule p2p_step.dialled)
        ultimately have "p2p_step\<^sup>*\<^sup>* p1 (fst (snd (snd res)))" by (rule converse_rtranclp_into_rtranclp [rotated])
        with p1 show ?thesis by (rule rtranclp_trans)
      qed
    qed (use res in auto)
  qed
  with assms(1) show ?thesis by blast
qed

lemma discover_steps:
  assumes "dial_steps dial"
  shows "discover iter dial resolve addrs k (p, w) = Some (m, p1, w1) \<Longrightarrow> p2p_step\<^sup>*\<^sup>* p p1"
proof (induction addrs arbitrary: k p w)
  case (Cons a addrs)
  show ?case
  proof (cases "\<exists>x xs. resolve a = Inr (x # xs)")
    case True
    then obtain x xs where x: "resolve a = Inr (x # xs)" by blast
    then obtain C F p2 w2 where c: "do_connect iter dial x (p, w) = Some (C, F, p2, w2)"
      and "discover iter dial resolve addrs (k + card C) (p2, w2) = Some (m, p1, w1)"
      using Cons.prems by (auto split: option.splits prod.splits)
    then show ?thesis
      using rtranclp_trans [OF do_connect_loop_steps [OF assms c [unfolded do_connect_def]] Cons.IH] by simp
  qed (use Cons in \<open>auto split: sum.splits list.splits\<close>)
qed simp

lemma start_execution_scheduler:
  assumes "start_execution S c g (mempool_new db) d tx_channel_new = Done (Some s)"
    and "node_resources S c = (Done (nc, nm, ng) :: (ending, u64 \<times> u64 \<times> u64) outcome)"
  shows "scheduler_ok (nm, nc, ng) s \<and> ss_mempool s = mempool_new db \<and> ss_disk s = d \<and> ch_queue (ss_channel s) = []"
proof -
  have "s = scheduler_new (mempool_new db) (program_manager_new qemu_new (resource_manager_new g nm nc ng)) d tx_channel_new"
    using assms by (auto simp: start_execution_def start_scheduler_def obind_eq_Done split: if_splits)
  then show ?thesis using scheduler_ok_new by (simp add: scheduler_new_def tx_channel_new_def)
qed

lemma prepare_node_inv:
  assumes "prepare_node S K io L r B c g d = Done n"
    and "node_resources S c = (Done (nc, nm, ng) :: (ending, u64 \<times> u64 \<times> u64) outcome)"
  shows "node_inv V (nm, nc, ng) n"
proof -
  obtain db l sched pk listening where l: "loop_init B (mempool_new db) d = (Done l :: (ending, _) outcome)"
    and s: "start_execution S c g (mempool_new db) d tx_channel_new = Done sched"
    and n: "nd_loop n = l" "nd_sched n = sched"
      "nd_p2p n = (p2p_new (kl_crates K) (conf_p2p_psk_passphrase c) pk (Some (conf_http_download_port c))
         (conf_p2p_advertised_listen_addr c) hm_empty tx_channel_new (nc, nm, ng))\<lparr> pp_listening_addr := Some listening \<rparr>"
    using assms by (auto simp: prepare_node_def obind_eq_Done)
  have l': "ls_inbox l = []" "ls_mempool l = mempool_new db" "ls_disk l = d"
    using l by (auto simp: loop_init_def obind_eq_Done)
  have p: "ports_inv (nd_p2p n)" "ch_queue (pp_tx_sender (nd_p2p n)) = []"
    by (simp_all add: n ports_inv_def p2p_new_def tx_channel_new_def)
  show ?thesis
    using loop_inv_init [OF l, of V] l' p n s start_execution_scheduler [OF _ assms(2)]
    by (auto simp: node_inv_def shared_def pgdb.mempool_ok_new)
qed

lemma ports_inv_steps: "p2p_step\<^sup>*\<^sup>* p q \<Longrightarrow> ports_inv p \<Longrightarrow> ports_inv q"
  by (induction rule: rtranclp_induct) (auto intro: ports_inv_step)

lemma run_node_inv:
  fixes n :: "('c, 'h, 't) node"
  assumes "run_node S K io L r B iter dial c g d w = Some (Done n, w1)" and "dial_steps dial"
    and "node_resources S c = (Done (nc, nm, ng) :: (ending, u64 \<times> u64 \<times> u64) outcome)"
  shows "node_inv V (nm, nc, ng) n"
proof -
  obtain n0 :: "('c, 'h, 't) node" where n0: "prepare_node S K io L r B c g d = Done n0"
    using assms(1) by (auto simp: run_node_def split: outcome.splits)
  obtain k p w2 where d: "discover iter dial (sy_resolve S) (conf_p2p_discovery_addrs c) 0 (nd_p2p n0, w) = Some (k, p, w2)"
    using assms(1) n0 by (auto simp: run_node_def split: option.splits)
  have "n = from_p2p p n0"
    using assms(1) n0 d by (auto simp: run_node_def from_p2p_def obind_eq_Done split: if_splits)
  moreover have inv: "node_inv V (nm, nc, ng) n0" by (rule prepare_node_inv [OF n0 assms(3)])
  moreover have "ports_inv p"
    using ports_inv_steps [OF discover_steps [OF assms(2) d]] inv by (simp add: node_inv_def)
  ultimately show ?thesis by (simp add: node_inv_from_p2p)
qed

section \<open>Properties\<close>

text \<open>A received transaction that was valid, with an author who was on the access list at some moment of the run.\<close>

definition was_admitted ::
  "config \<Rightarrow> key_lib \<Rightarrow> secret_key \<Rightarrow> ('c, database) loop_env \<Rightarrow> ('c, 'h, 't) node \<Rightarrow> ('c, 'h, 't) node
     \<Rightarrow> received transaction \<Rightarrow> bool" where
  "was_admitted c K key B n0 n rx \<longleftrightarrow>
     transaction_validate (le_crates B) rx = Done () \<and>
     (\<exists>m. (node_step c K key B)\<^sup>*\<^sup>* n0 m \<and> (node_step c K key B)\<^sup>*\<^sup>* m n \<and> tx_author rx \<in> set (db_acl_whitelist (node_db m)))"

lemma node_inv_mono: "(\<And>rx. V rx \<Longrightarrow> W rx) \<Longrightarrow> node_inv V t n \<Longrightarrow> node_inv W t n"
  using loop_inv_mono [of V W "nd_loop n"] by (auto simp: node_inv_def)

lemma node_inv_reachable:
  assumes "(node_step c K key B)\<^sup>*\<^sup>* n0 n" and "\<And>V. node_inv V t n0"
  shows "node_inv (was_admitted c K key B n0 n) t n"
  using assms(1)
proof (induction rule: rtranclp_induct)
  case (step y z)
  have "node_inv (was_admitted c K key B n0 z) t y"
    by (rule node_inv_mono [OF _ step.IH])
      (use step.hyps(2) in \<open>auto simp: was_admitted_def intro: rtranclp.rtrancl_into_rtrancl\<close>)
  then show ?case
    by (rule node_inv_step [OF step.hyps(2)]) (use step.hyps in \<open>auto simp: was_admitted_def\<close>)
qed (rule assms(2))

text \<open>
  C1: Whatever happens to a node after its start, in any interleaving of its validation tasks, its scheduler, the
  requests of its machines, its peers, its RPC clients and changes of the access list: every transaction in the
  mempool is stored in the database and is the validated form of one that passed validation and whose author was
  on the access list at some moment since the start; the same holds of what is sent to the peers, which moreover
  did not come from one; the scheduler works on this very mempool, and its available resources and those of its
  running machines add up to what the configuration gave; and the HTTP ports it knows are those of its peers.
\<close>

theorem node_keeps_its_promises:
  assumes "run_node S K io L r B iter dial c g d w = Some (Done n0, w1)" and "dial_steps dial"
    and "node_resources S c = (Done (nc, nm, ng) :: (ending, u64 \<times> u64 \<times> u64) outcome)"
    and "(node_step c K key B)\<^sup>*\<^sup>* n0 n"
  shows "(\<forall>tx\<in>set (mp_deque (ls_mempool (nd_loop n))).
            has_tx (node_db n) (tx_hash tx) \<and> (\<exists>rx. tx = validated_tx rx \<and> was_admitted c K key B n0 n rx)) \<and>
         (\<forall>tx\<in>set (p2p_sent (ls_p2p (nd_loop n))).
            \<exists>rx. tx = validated_tx rx \<and> tx_state rx \<noteq> P2P \<and> was_admitted c K key B n0 n rx) \<and>
         (\<forall>s. nd_sched n = Some s \<longrightarrow> ss_mempool s = ls_mempool (nd_loop n) \<and>
            unat (available_mem (pmg_resources (ss_program_manager s))) +
              (\<Sum>(h, ph)\<in>#mset (ss_running_vms s). unat (al_mem (ph_allocation ph))) = unat nm \<and>
            unat (available_cpus (pmg_resources (ss_program_manager s))) +
              (\<Sum>(h, ph)\<in>#mset (ss_running_vms s). unat (al_cpus (ph_allocation ph))) = unat nc \<and>
            unat (available_gpus (pmg_resources (ss_program_manager s))) +
              (\<Sum>(h, ph)\<in>#mset (ss_running_vms s). unat (al_gpus (ph_allocation ph))) = unat ng) \<and>
         (\<forall>a port. hm_get (pp_peer_http_port_list (nd_p2p n)) a = Some port \<longrightarrow> a \<in> pp_peer_list (nd_p2p n))"
proof -
  have "node_inv (was_admitted c K key B n0 n) (nm, nc, ng) n"
    by (rule node_inv_reachable [OF assms(4) run_node_inv [OF assms(1-3)]])
  then have li: "loop_inv (was_admitted c K key B n0 n) (nd_loop n)" and ba: "backed (ls_mempool (nd_loop n))"
    and sh: "\<And>s. nd_sched n = Some s \<Longrightarrow> ss_mempool s = ls_mempool (nd_loop n)" and po: "ports_inv (nd_p2p n)"
    and so: "\<And>s. nd_sched n = Some s \<Longrightarrow> scheduler_ok (nm, nc, ng) s"
    by (auto simp: node_inv_def shared_def)
  show ?thesis
  proof (intro conjI ballI allI impI)
    fix tx assume "tx \<in> set (mp_deque (ls_mempool (nd_loop n)))"
    then show "has_tx (node_db n) (tx_hash tx)" "\<exists>rx. tx = validated_tx rx \<and> was_admitted c K key B n0 n rx"
      using li ba unfolding loop_inv_def pgdb.mempool_ok_def by blast+
  next
    fix tx assume "tx \<in> set (p2p_sent (ls_p2p (nd_loop n)))"
    then show "\<exists>rx. tx = validated_tx rx \<and> tx_state rx \<noteq> P2P \<and> was_admitted c K key B n0 n rx"
      using li unfolding loop_inv_def by blast
  next
    fix a port assume "hm_get (pp_peer_http_port_list (nd_p2p n)) a = Some port"
    then show "a \<in> pp_peer_list (nd_p2p n)" using po unfolding ports_inv_def by blast
  qed (rule sh scheduler_ok_sums [OF so], assumption)+
qed

section \<open>Requests are runs of the node\<close>

lemma nd_loop_from_loop [simp]: "nd_loop (from_loop l n) = l"
  by (simp add: from_loop_def set_queue_def)

lemma ports_from_loop [simp]: "pp_peer_http_port_list (nd_p2p (from_loop l n)) = pp_peer_http_port_list (nd_p2p n)"
  by (simp add: from_loop_def set_queue_def)

text \<open>Taking one message through the loop, as the RPC service does, is a run of the node.\<close>

lemma serve_next_run:
  assumes "ls_inbox (nd_loop n) = m # q"
  shows "\<exists>n'. (node_step c K key B)\<^sup>*\<^sup>* n n' \<and>
    nd_loop n' = serve_next (database_env B P (node_db n)) (pp_peer_http_port_list (nd_p2p n)) now (nd_loop n)"
proof -
  let ?E = "database_env B P (node_db n)" and ?ports = "pp_peer_http_port_list (nd_p2p n)"
  define l1 where "l1 = receive_event ?ports m ((nd_loop n)\<lparr> ls_inbox := q \<rparr>)"
  define n1 where "n1 = from_loop l1 n"
  define l2 where "l2 = finish_task ?E (last (ls_tasks l1)) (l1\<lparr> ls_tasks := butlast (ls_tasks l1) \<rparr>)"
  define n2 where "n2 = from_loop l2 n1"
  have 1: "node_step c K key B n n1" unfolding n1_def l1_def by (rule node_step.receive [OF assms])
  have l1: "nd_loop n1 = l1" "node_db n1 = node_db n" "ls_tasks l1 \<noteq> []"
    by (simp_all add: n1_def l1_def receive_event_def)
  have 2: "node_step c K key B n1 n2"
    using node_step.finish [of n1 "butlast (ls_tasks l1)" "last (ls_tasks l1)" "[]" c K key B P] l1
    by (simp add: n2_def l2_def)
  have l2: "nd_loop n2 = l2" "node_db n2 = node_db n" using l1 by (simp_all add: n2_def l2_def)
  show ?thesis
  proof (cases "ls_done l2")
    case Nil
    then have "nd_loop n2 = serve_next ?E ?ports now (nd_loop n)"
      using l2 by (simp add: serve_next_def assms l1_def [symmetric] l2_def [symmetric] Let_def)
    with 1 2 show ?thesis by (meson converse_rtranclp_into_rtranclp rtranclp.rtrancl_refl)
  next
    case (Cons x xs)
    define n3 where "n3 = from_loop (deliver ?E now x (l2\<lparr> ls_done := xs \<rparr>)) n2"
    have 3: "node_step c K key B n2 n3"
      using node_step.handle [of n2 "[]" x xs c K key B P now] l2 Cons by (simp add: n3_def)
    have "nd_loop n3 = serve_next ?E ?ports now (nd_loop n)"
      using Cons by (simp add: n3_def serve_next_def assms l1_def [symmetric] l2_def [symmetric] Let_def)
    with 1 2 3 show ?thesis by (meson converse_rtranclp_into_rtranclp rtranclp.rtrancl_refl)
  qed
qed

lemma serve_send_run:
  assumes "serve_send B P (pp_peer_http_port_list (nd_p2p n)) now cb (Inr tx) (nd_loop n) = (r, l)"
  shows "\<exists>n'. (node_step c K key B)\<^sup>*\<^sup>* n n' \<and> nd_loop n' = l"
proof -
  let ?q = "ls_inbox (nd_loop n) @ [(into_received tx RPC, Some cb)]"
  define n1 where "n1 = set_queue ?q n"
  have "node_step c K key B n n1"
    unfolding n1_def using node_step.rpc [of "Inr tx" cb None n]
    by (simp add: send_transaction_logic_def rpc_send_tx_def channel_send_def)
  moreover have n1: "nd_loop n1 = (nd_loop n)\<lparr> ls_inbox := ?q \<rparr>" "node_db n1 = node_db n"
    "pp_peer_http_port_list (nd_p2p n1) = pp_peer_http_port_list (nd_p2p n)"
    by (simp_all add: n1_def set_queue_def)
  moreover obtain m q where "ls_inbox (nd_loop n1) = m # q" by (cases "ls_inbox (nd_loop n1)") (auto simp: n1)
  from serve_next_run [OF this, of c K key B P now] n1 obtain n2 where "(node_step c K key B)\<^sup>*\<^sup>* n1 n2"
    "nd_loop n2 = serve_next (database_env B P (node_db n)) (pp_peer_http_port_list (nd_p2p n)) now ((nd_loop n)\<lparr> ls_inbox := ?q \<rparr>)"
    by auto
  moreover have "l = serve_next (database_env B P (node_db n)) (pp_peer_http_port_list (nd_p2p n)) now ((nd_loop n)\<lparr> ls_inbox := ?q \<rparr>)"
    using assms by (simp add: serve_send_def Let_def send_transaction_logic_def rpc_send_tx_def channel_send_def)
  ultimately show ?thesis by (metis converse_rtranclp_into_rtranclp)
qed

section \<open>A concrete node\<close>

definition sample_system :: system where
  "sample_system =
     \<lparr> sy_which = Inr, sy_is_file = (\<lambda>_. True), sy_cpus = 8, sy_mem = Some 16384, sy_local_cid = Inr 2,
       sy_vsock_bind = (\<lambda>_ _. None), sy_bind = (\<lambda>_. None), sy_listen = Inr, sy_resolve = sample_resolve,
       sy_connect_db = (\<lambda>_. Inr (sample_client_db [sample_row])) \<rparr>"

definition sample_keys :: key_lib where
  "sample_keys = wide_keys\<lparr> kl_crates := sample_crates \<rparr>"

definition sample_key_disk :: disk where
  "sample_key_disk = [(components default_key_file, 7 # replicate 31 0)]"

definition refuse :: "(unit, unit, unit) dial" where
  "refuse a s = (Inl ''connection refused'', s)"

definition sample_gauges :: resource_gauges where
  "sample_gauges = \<lparr> cpus_total = 0, mem_total = 0, gpus_total = 0, cpus_available = 0, mem_available = 0, gpus_available = 0 \<rparr>"

abbreviation sample_run_node :: "((ending, (nat \<times> hash list, unit, unit) node) outcome \<times> unit) option" where
  "sample_run_node \<equiv> run_node sample_system sample_keys plain_io Metrics.sample_registry [] sample_base sample_iter refuse
     config_default sample_gauges sample_key_disk ()"

lemma refuse_steps: "dial_steps refuse"
  by (simp add: dial_steps_def refuse_def)

lemma sample_node_key: "read_node_key sample_keys plain_io default_key_file sample_key_disk = Done (SecretKey 7)"
  by (simp add: read_node_key_def read_file_def fs_lookup_def sample_key_disk_def hmap_eval report_def of_sum_def
      sample_keys_def wide_keys_def)

lemma sample_node_resources: "node_resources sample_system config_default = Done (8, 16384, 0)"
  by (simp add: node_resources_def get_configured_resources_def sample_system_def config_default_def)

lemma sample_execution:
  "\<exists>s. start_execution sample_system config_default sample_gauges m d ch = Done (Some s)"
  by (simp add: start_execution_def start_scheduler_def sample_node_resources bind_tcp_def resolve_qemu_path_def vm_server_listener_def)
    (simp add: sample_system_def config_default_def)

lemma sample_loop_init:
  "loop_init sample_base (mempool_new (sample_client_db [sample_row])) sample_key_disk =
     Done ((sample_serving [sample_row])\<lparr> ls_disk := sample_key_disk \<rparr>)"
  by (simp add: loop_init_def sample_base_def sample_cache_new sample_serving_def)

lemma sample_node_starts:
  "\<exists>n0. sample_run_node = Some (Done n0, ()) \<and> nd_loop n0 = (sample_serving [sample_row])\<lparr> ls_disk := sample_key_disk \<rparr> \<and>
     pp_peer_http_port_list (nd_p2p n0) = [] \<and> nd_sched n0 \<noteq> None"
proof -
  obtain r1 where r1: "register_metrics Metrics.sample_registry [] = (Done r1 :: (ending, metric list) outcome)"
    using register_metrics_fresh [OF sample_registry_ok, of "[]"] by (auto simp: Metrics.sample_registry_def)
  obtain s where s: "start_execution sample_system config_default sample_gauges
      (mempool_new (sample_client_db [sample_row])) sample_key_disk tx_channel_new = Done (Some s)"
    using sample_execution by blast
  have c: "conf_node_key_file config_default = default_key_file" "conf_p2p_discovery_addrs config_default = []"
    by (simp_all add: config_default_def)
  have b: "bind_tcp sample_system a = Done ()" "report (sy_connect_db sample_system u) = Done (sample_client_db [sample_row])"
    "report (sy_listen sample_system a) = Done a" for a u
    by (simp_all add: bind_tcp_def sample_system_def report_def of_sum_def)
  show ?thesis
    by (simp add: run_node_def prepare_node_def c sample_node_key r1 b sample_loop_init s sample_node_resources)
      (simp add: set_queue_def p2p_new_def tx_channel_new_def hm_empty_def sample_serving_def)
qed

theorem node_keeps_its_promises_witness:
  "\<exists>n0 n tx. sample_run_node = Some (Done n0, ()) \<and>
     (node_step config_default sample_keys (SecretKey 7) sample_base)\<^sup>*\<^sup>* n0 n \<and>
     mp_deque (ls_mempool (nd_loop n)) = [tx] \<and> has_tx (node_db n) (tx_hash tx) \<and>
     (\<exists>rx. tx = validated_tx rx \<and> was_admitted config_default sample_keys (SecretKey 7) sample_base n0 n rx)"
proof -
  obtain n0 where n0: "sample_run_node = Some (Done n0, ())"
    "nd_loop n0 = (sample_serving [sample_row])\<lparr> ls_disk := sample_key_disk \<rparr>" "pp_peer_http_port_list (nd_p2p n0) = []"
    using sample_node_starts by blast
  obtain tx where tx: "transaction_validate sample_crates (into_received tx RPC) = Done ()"
    "tx_author tx = pk_from_secret_key sample_crates (SecretKey 4)" "tx_payload tx = sample_one_step"
    using sample_client_tx by blast
  let ?rx = "into_received tx RPC" and ?s = "nd_loop n0"
  have p: "tx_payload (validated_tx ?rx) = sample_one_step" "tx_payload ?rx = sample_one_step" "tx_author ?rx = tx_author tx"
    "tx_state ?rx \<noteq> P2P"
    using tx(3) by (simp_all add: validated_tx_def into_received_def)
  have idle: "idle ?s" and none: "ls_replies ?s = []" and db: "loop_db ?s = sample_client_db [sample_row]"
    using sample_serving_idle [of "[sample_row]"] by (auto simp: n0(2) idle_def)
  have "admitted sample_base pg_plain (loop_db ?s) ?rx"
    using tx by (simp add: db admitted_def sample_base_def acl_contains_def acl_whitelist_has_def exec_def pg_plain_def
        sample_client_db_def p(3))
  moreover have "fetched sample_base [] (ls_disk ?s) ?rx (ls_disk ?s)"
    by (simp add: fetched_def sample_base_def downlod_tx_assets_def get_asset_list_def event_of_tx_def download_of_received_def tx(3))
  moreover have "needs_met (database_validate_storage pg_plain (loop_db ?s)) (tx_payload ?rx)"
    by (simp add: db needs_met_def tx(3) database_validate_storage_def sample_contains)
  moreover obtain db' where "add_transaction pg_plain (validated_tx ?rx) (loop_db ?s) = (Inr (), db')"
    using p(1) by (simp add: db db_eval sample_client_db_def database_empty_def)
  moreover define l where "l = serve_next (database_env sample_base pg_plain (loop_db ?s)) [] 0 (?s\<lparr> ls_inbox := [(?rx, Some 7)] \<rparr>)"
  ultimately have l: "ls_replies l = ls_replies ?s @ [(7, Inr ())]" "mp_deque (ls_mempool l) = mp_deque (ls_mempool ?s) @ [validated_tx ?rx]"
    using submission_saved [OF idle _ _ p(4) _ _ l_def [symmetric]] by blast+
  have "serve_send sample_base pg_plain [] 0 7 (Inr tx) ?s = (RpcOk (), l)"
    using serve_send_answer [OF _ l_def [symmetric]] l idle none by (simp add: idle_def)
  then obtain n where n: "(node_step config_default sample_keys (SecretKey 7) sample_base)\<^sup>*\<^sup>* n0 n" "nd_loop n = l"
    using serve_send_run [where n = n0 and P = pg_plain and now = 0 and cb = 7] n0(3) by metis
  have m: "mp_deque (ls_mempool (nd_loop n)) = [validated_tx ?rx]"
    using n(2) l(2) by (simp add: n0(2))
  have "\<forall>tx\<in>set (mp_deque (ls_mempool (nd_loop n))). has_tx (node_db n) (tx_hash tx) \<and>
      (\<exists>rx. tx = validated_tx rx \<and> was_admitted config_default sample_keys (SecretKey 7) sample_base n0 n rx)"
    using node_keeps_its_promises [OF n0(1) refuse_steps sample_node_resources n(1)] by (rule conjunct1)
  then show ?thesis
    using n0(1) n(1) m by (intro exI [of _ n0] exI [of _ n] exI [of _ "validated_tx ?rx"] conjI) (simp_all only: list.set, blast+)
qed

end
